(* ===== verification/Veyra_Prelude.thy ===== *)
theory Veyra_Prelude
  imports Main "HOL-Library.Word"
begin

text \<open>
  Shared vocabulary of the development: the names of the machine integers and
  byte strings of the C++ sources, the fact collections that the component
  theories extend, and generic lemmas on lists and words that several
  components need.

  A \<open>size_t\<close> is a \<open>nat\<close>: it counts bytes of objects that exist in memory.
  A fixed width integer is a \<open>word\<close> of that width, whose arithmetic wraps.
  A pointer with a length is a \<open>bytes option\<close> with \<open>None\<close> for the null pointer.
\<close>

unbundle bit_operations_syntax

type_synonym u8 = "8 word"
type_synonym u16 = "16 word"
type_synonym u32 = "32 word"
type_synonym u64 = "64 word"
type_synonym bytes = "u8 list"

named_theorems wire_simps \<open>widths and layout of the wire format\<close>
named_theorems word_nat \<open>words read as natural numbers\<close>

subsection \<open>Words as numbers\<close>

lemma u16_cast_small [word_nat]: "n < 65536 \<Longrightarrow> unat (of_nat n :: u16) = n"
  by (simp add: unat_of_nat take_bit_eq_mod)

lemma u32_cast_small [word_nat]: "n < 4294967296 \<Longrightarrow> unat (of_nat n :: u32) = n"
  by (simp add: unat_of_nat take_bit_eq_mod)

lemma u16_unat_bound: "unat (w :: u16) < 65536"
  using unsigned_less [of w, where 'a = nat] by simp

lemma u32_unat_bound: "unat (w :: u32) < 4294967296"
  using unsigned_less [of w, where 'a = nat] by simp

lemma word_diff_unat: "(a :: 'a::len word) \<le> b \<Longrightarrow> unat (b - a) = unat b - unat a"
  by (simp add: unat_sub)

subsection \<open>Cutting a list into pieces of a fixed size\<close>

definition piece :: "nat \<Rightarrow> 'a list \<Rightarrow> nat \<Rightarrow> 'a list" where
  "piece m xs i = take (min m (length xs - i * m)) (drop (i * m) xs)"

lemma piece_alt: "piece m xs i = take m (drop (i * m) xs)"
  by (simp add: piece_def min_def)

lemma concat_pieces: "concat (map (piece m xs) [0..<k]) = take (k * m) xs"
proof (induction k)
  case 0
  then show ?case by simp
next
  case (Suc k)
  have "take (Suc k * m) xs = take (k * m) xs @ take m (drop (k * m) xs)"
    by (simp add: add.commute [of m] take_add del: take_append)
  with Suc show ?case by (simp add: piece_alt)
qed

lemma concat_pieces_all:
  "length xs \<le> k * m \<Longrightarrow> concat (map (piece m xs) [0..<k]) = xs"
  by (simp add: concat_pieces)

definition pieces_needed :: "nat \<Rightarrow> nat \<Rightarrow> nat" where
  "pieces_needed n m = (n + m - 1) div m"

lemma pieces_needed_covers: "0 < m \<Longrightarrow> n \<le> pieces_needed n m * m"
proof -
  assume m: "0 < m"
  let ?t = "n + m - 1"
  have "?t = ?t div m * m + ?t mod m" by simp
  moreover have "?t mod m \<le> m - 1" using m by (simp add: less_Suc_eq_le [symmetric])
  ultimately have "?t \<le> ?t div m * m + (m - 1)" by linarith
  with m show ?thesis unfolding pieces_needed_def by linarith
qed

lemma pieces_needed_tight: "0 < m \<Longrightarrow> i < pieces_needed n m \<Longrightarrow> i * m < n"
proof -
  assume m: "0 < m" and i: "i < pieces_needed n m"
  from i have "Suc i \<le> (n + m - 1) div m" by (simp add: pieces_needed_def)
  then have "Suc i * m \<le> (n + m - 1) div m * m" by (rule mult_le_mono1)
  also have "\<dots> \<le> n + m - 1" by simp
  finally show "i * m < n" using m by simp
qed

lemma pieces_needed_pos: "0 < m \<Longrightarrow> 0 < n \<Longrightarrow> 0 < pieces_needed n m"
  using pieces_needed_covers [of m n] by (cases "pieces_needed n m") auto

subsection \<open>Running a stateful operation over a list of inputs\<close>

text \<open>
  \<open>emits f s xs\<close>: the outputs of the operation \<open>f\<close> on the inputs \<open>xs\<close> in order, and
  the state it leaves. The packetizer's loop over fragments and the receive loop over
  packets are both of this form.
\<close>

fun emits :: "('s \<Rightarrow> 'i \<Rightarrow> 'o list \<times> 's) \<Rightarrow> 's \<Rightarrow> 'i list \<Rightarrow> 'o list \<times> 's" where
  "emits f s [] = ([], s)"
| "emits f s (x # xs) =
     (let (o1, s1) = f s x; (o2, s2) = emits f s1 xs in (o1 @ o2, s2))"

lemma emits_append:
  "emits f s (xs @ ys) =
     (let (o1, s1) = emits f s xs; (o2, s2) = emits f s1 ys in (o1 @ o2, s2))"
  by (induction xs arbitrary: s) (auto split: prod.splits)

lemma emits_invariant:
  "I s \<Longrightarrow> (\<And>s x. I s \<Longrightarrow> x \<in> set xs \<Longrightarrow> I (snd (f s x))) \<Longrightarrow> I (snd (emits f s xs))"
proof (induction xs arbitrary: s)
  case Nil
  then show ?case by simp
next
  case (Cons x xs)
  have "I (snd (f s x))" using Cons.prems by simp
  then have "I (snd (emits f (snd (f s x)) xs))" using Cons by simp
  then show ?case by (auto split: prod.splits)
qed

text \<open>An invariant together with a fact about every output.\<close>

lemma emits_outputs:
  "I s \<Longrightarrow> (\<And>s x. I s \<Longrightarrow> x \<in> set xs \<Longrightarrow> I (snd (f s x)) \<and> (\<forall>e \<in> set (fst (f s x)). Q e)) \<Longrightarrow>
     \<forall>e \<in> set (fst (emits f s xs)). Q e"
proof (induction xs arbitrary: s)
  case Nil
  then show ?case by simp
next
  case (Cons x xs)
  have step: "I (snd (f s x))" "\<forall>e \<in> set (fst (f s x)). Q e" using Cons.prems by auto
  have "\<forall>e \<in> set (fst (emits f (snd (f s x)) xs)). Q e"
    by (rule Cons.IH [OF step(1)]) (use Cons.prems(2) in auto)
  with step show ?case by (auto split: prod.splits)
qed

end
