(* ===== verification/Byte_Codec.thy ===== *)
theory Byte_Codec
  imports Veyra_Prelude
begin

text \<open>
  The bytes of a machine integer in memory. The sources copy packed structs with
  \<open>memcpy\<close>, so a field is laid out in the byte order of the host; every target of
  the repository (Windows x64, Android ARM) is little endian. The locale
  \<open>fixed_codec\<close> is the contract of such a layout: a fixed width and a decoder that
  inverts the encoder, in both directions.
\<close>

fun le_bytes :: "nat \<Rightarrow> 'a::len word \<Rightarrow> bytes" where
  "le_bytes 0 w = []"
| "le_bytes (Suc n) w = ucast w # le_bytes n (drop_bit 8 w)"

fun le_word :: "bytes \<Rightarrow> 'a::len word" where
  "le_word [] = 0"
| "le_word (b # bs) = ucast b OR push_bit 8 (le_word bs)"

lemma length_le_bytes [simp, wire_simps]: "length (le_bytes n w) = n"
  by (induction n arbitrary: w) auto

lemma le_word_le_bytes: "le_word (le_bytes n w) = take_bit (8 * n) (w :: 'a::len word)"
proof (induction n arbitrary: w)
  case 0
  then show ?case by simp
next
  case (Suc n)
  show ?case
    by (rule bit_word_eqI) (auto simp: Suc bit_simps)
qed

lemma bit_le_word_high:
  "8 * length bs \<le> n \<Longrightarrow> \<not> bit (le_word bs :: 'a::len word) n"
  by (induction bs arbitrary: n) (auto simp: bit_simps dest: bit_imp_le_length)

lemma ucast_le_word_head:
  "8 * Suc (length bs) \<le> LENGTH('a) \<Longrightarrow>
     (ucast (le_word (b # bs) :: 'a::len word) :: u8) = b"
  by (rule bit_word_eqI) (auto simp: bit_simps)

lemma drop_le_word_tail:
  "8 * Suc (length bs) \<le> LENGTH('a) \<Longrightarrow>
     drop_bit 8 (le_word (b # bs) :: 'a::len word) = le_word bs"
proof (rule bit_word_eqI)
  fix n
  assume len: "8 * Suc (length bs) \<le> LENGTH('a)" and n: "n < LENGTH('a)"
  have "\<not> bit b (8 + n)" using bit_imp_le_length [of b "8 + n"] by auto
  moreover have "bit (le_word bs :: 'a word) n \<Longrightarrow> 8 + n < LENGTH('a)"
    using bit_le_word_high [of bs n, where 'a = 'a] len by (cases "8 * length bs \<le> n") auto
  ultimately show "bit (drop_bit 8 (le_word (b # bs) :: 'a word)) n = bit (le_word bs :: 'a word) n"
    by (auto simp: bit_simps)
qed

lemma le_bytes_le_word:
  "8 * length bs \<le> LENGTH('a) \<Longrightarrow> le_bytes (length bs) (le_word bs :: 'a::len word) = bs"
proof (induction bs)
  case Nil
  then show ?case by simp
next
  case (Cons b bs)
  then have "8 * Suc (length bs) \<le> LENGTH('a)" by simp
  with Cons show ?case
    by (simp add: ucast_le_word_head drop_le_word_tail del: le_word.simps)
qed

subsection \<open>The contract of a fixed width layout\<close>

locale fixed_codec =
  fixes enc :: "'a \<Rightarrow> bytes"
    and dec :: "bytes \<Rightarrow> 'a"
    and width :: nat
  assumes length_enc: "length (enc x) = width"
    and dec_enc: "dec (enc x) = x"
    and enc_dec: "length bs = width \<Longrightarrow> enc (dec bs) = bs"
begin

lemma enc_inject: "enc x = enc y \<longleftrightarrow> x = y"
  using dec_enc by metis

lemma dec_inject_on: "length as = width \<Longrightarrow> length bs = width \<Longrightarrow> dec as = dec bs \<Longrightarrow> as = bs"
  using enc_dec by metis

lemma take_enc: "take width (enc x @ rest) = enc x"
  by (simp add: length_enc)

lemma drop_enc: "drop width (enc x @ rest) = rest"
  by (simp add: length_enc)

lemma dec_prefix: "dec (take width (enc x @ rest)) = x"
  by (simp only: take_enc dec_enc)

end

lemma le_codec:
  "8 * n = LENGTH('a) \<Longrightarrow> fixed_codec (le_bytes n :: 'a::len word \<Rightarrow> bytes) le_word n"
  by unfold_locales
    (auto simp: le_word_le_bytes intro: le_bytes_le_word [where 'a = 'a] take_bit_word_eq_self)

interpretation u8le: fixed_codec "le_bytes 1 :: u8 \<Rightarrow> bytes" le_word 1
  by (rule le_codec) simp

interpretation u16le: fixed_codec "le_bytes 2 :: u16 \<Rightarrow> bytes" le_word 2
  by (rule le_codec) simp

interpretation u32le: fixed_codec "le_bytes 4 :: u32 \<Rightarrow> bytes" le_word 4
  by (rule le_codec) simp

interpretation u64le: fixed_codec "le_bytes 8 :: u64 \<Rightarrow> bytes" le_word 8
  by (rule le_codec) simp

lemmas le_word_full = u8le.dec_enc u16le.dec_enc u32le.dec_enc u64le.dec_enc
lemmas le_bytes_full = u8le.enc_dec u16le.enc_dec u32le.enc_dec u64le.enc_dec

end
