(* ===== verification/Wire.thy ===== *)
theory Wire
  imports Byte_Codec
begin

text \<open>
  The wire format of \<open>native/core/include/veyra/protocol.h\<close> and the two serializers
  of \<open>native/core/src/protocol.cpp\<close>: constants, enumerations, the packed packet
  header and its \<open>memcpy\<close> image, the packed bodies of the binary control commands.
  The header layout satisfies the contract \<open>fixed_codec\<close>, so every later theory cuts
  a packet at \<open>VEYRA_HEADER_SIZE\<close> with the lemmas of that locale.
\<close>

subsection \<open>Constants and enumerations\<close>

definition VEYRA_PROTOCOL_MAGIC :: u32 where
  "VEYRA_PROTOCOL_MAGIC = 0x56455952"

definition VEYRA_PROTOCOL_VERSION :: u8 where
  "VEYRA_PROTOCOL_VERSION = 0x01"

definition VEYRA_MAX_PACKET_SIZE :: nat where
  "VEYRA_MAX_PACKET_SIZE = 1200"

definition FLAG_NONE :: u8 where "FLAG_NONE = 0x00"
definition FLAG_KEYFRAME :: u8 where "FLAG_KEYFRAME = 0x01"
definition FLAG_AUDIO :: u8 where "FLAG_AUDIO = 0x02"
definition FLAG_ENCRYPTED :: u8 where "FLAG_ENCRYPTED = 0x04"
definition FLAG_TELEMETRY :: u8 where "FLAG_TELEMETRY = 0x08"
definition FLAG_DISCONTINUITY :: u8 where "FLAG_DISCONTINUITY = 0x10"

text \<open>The test \<open>flags & FLAG\<close> of the C++ code.\<close>

definition has_flag :: "u8 \<Rightarrow> u8 \<Rightarrow> bool" where
  "has_flag flags f \<longleftrightarrow> flags AND f \<noteq> 0"

lemmas flag_defs = FLAG_NONE_def FLAG_KEYFRAME_def FLAG_AUDIO_def FLAG_ENCRYPTED_def
  FLAG_TELEMETRY_def FLAG_DISCONTINUITY_def

datatype CommandOpCode =
    HELLO | CAPABILITIES | START_STREAM | STOP_STREAM | SET_ZOOM | SET_EXPOSURE | SET_FOCUS
  | REQUEST_IDR | SET_BITRATE | TRANSPORT_SWITCH | PING | PONG | STATS

fun opcode_byte :: "CommandOpCode \<Rightarrow> u8" where
  "opcode_byte HELLO = 0x01"
| "opcode_byte CAPABILITIES = 0x02"
| "opcode_byte START_STREAM = 0x03"
| "opcode_byte STOP_STREAM = 0x04"
| "opcode_byte SET_ZOOM = 0x05"
| "opcode_byte SET_EXPOSURE = 0x06"
| "opcode_byte SET_FOCUS = 0x07"
| "opcode_byte REQUEST_IDR = 0x08"
| "opcode_byte SET_BITRATE = 0x09"
| "opcode_byte TRANSPORT_SWITCH = 0x0A"
| "opcode_byte PING = 0x0B"
| "opcode_byte PONG = 0x0C"
| "opcode_byte STATS = 0x0D"

datatype StreamProfileId = ULTRA_LOW | PROFILE_BLUETOOTH | LOW | BALANCED | HIGH | PERFORMANCE

fun profile_byte :: "StreamProfileId \<Rightarrow> u8" where
  "profile_byte ULTRA_LOW = 0"
| "profile_byte PROFILE_BLUETOOTH = 1"
| "profile_byte LOW = 2"
| "profile_byte BALANCED = 3"
| "profile_byte HIGH = 4"
| "profile_byte PERFORMANCE = 5"

datatype TransportType = AUTO | USB | WIFI_LAN | WIFI_DIRECT | BLUETOOTH

fun transport_byte :: "TransportType \<Rightarrow> u8" where
  "transport_byte AUTO = 0"
| "transport_byte USB = 1"
| "transport_byte WIFI_LAN = 2"
| "transport_byte WIFI_DIRECT = 3"
| "transport_byte BLUETOOTH = 4"

lemma transport_byte_inject [simp]: "transport_byte a = transport_byte b \<longleftrightarrow> a = b"
  by (cases a; cases b) auto

lemma opcode_byte_inject [simp]: "opcode_byte a = opcode_byte b \<longleftrightarrow> a = b"
  by (cases a; cases b) auto

subsection \<open>The packed packet header\<close>

record PacketHeader =
  hdr_magic :: u32
  hdr_version :: u8
  hdr_flags :: u8
  hdr_streamId :: u16
  hdr_sessionId :: u32
  hdr_frameId :: u32
  hdr_sequence :: u32
  hdr_fragmentIndex :: u16
  hdr_fragmentCount :: u16
  hdr_timestampUs :: u64
  hdr_payloadLength :: u16

text \<open>\<open>sizeof(PacketHeader)\<close> under \<open>#pragma pack(push, 1)\<close>.\<close>

definition VEYRA_HEADER_SIZE :: nat where
  "VEYRA_HEADER_SIZE = 4 + 1 + 1 + 2 + 4 + 4 + 4 + 2 + 2 + 8 + 2"

definition VEYRA_MAX_PAYLOAD_SIZE :: nat where
  "VEYRA_MAX_PAYLOAD_SIZE = VEYRA_MAX_PACKET_SIZE - VEYRA_HEADER_SIZE"

lemma header_size_34 [wire_simps]: "VEYRA_HEADER_SIZE = 34"
  by (simp add: VEYRA_HEADER_SIZE_def)

lemma max_payload_1166 [wire_simps]: "VEYRA_MAX_PAYLOAD_SIZE = 1166"
  by (simp add: VEYRA_MAX_PAYLOAD_SIZE_def VEYRA_MAX_PACKET_SIZE_def wire_simps)

definition header_bytes :: "PacketHeader \<Rightarrow> bytes" where
  "header_bytes h =
     le_bytes 4 (hdr_magic h) @ le_bytes 1 (hdr_version h) @ le_bytes 1 (hdr_flags h) @
     le_bytes 2 (hdr_streamId h) @ le_bytes 4 (hdr_sessionId h) @ le_bytes 4 (hdr_frameId h) @
     le_bytes 4 (hdr_sequence h) @ le_bytes 2 (hdr_fragmentIndex h) @
     le_bytes 2 (hdr_fragmentCount h) @ le_bytes 8 (hdr_timestampUs h) @
     le_bytes 2 (hdr_payloadLength h)"

definition field :: "nat \<Rightarrow> nat \<Rightarrow> bytes \<Rightarrow> bytes" where
  "field off n bs = take n (drop off bs)"

definition bytes_header :: "bytes \<Rightarrow> PacketHeader" where
  "bytes_header bs = \<lparr>
     hdr_magic = le_word (field 0 4 bs),
     hdr_version = le_word (field 4 1 bs),
     hdr_flags = le_word (field 5 1 bs),
     hdr_streamId = le_word (field 6 2 bs),
     hdr_sessionId = le_word (field 8 4 bs),
     hdr_frameId = le_word (field 12 4 bs),
     hdr_sequence = le_word (field 16 4 bs),
     hdr_fragmentIndex = le_word (field 20 2 bs),
     hdr_fragmentCount = le_word (field 22 2 bs),
     hdr_timestampUs = le_word (field 24 8 bs),
     hdr_payloadLength = le_word (field 32 2 bs)\<rparr>"

lemma length_header_bytes [simp]: "length (header_bytes h) = 34"
  by (simp add: header_bytes_def)

lemma bytes_header_of_bytes: "bytes_header (header_bytes h) = h"
  by (simp add: bytes_header_def header_bytes_def field_def le_word_full)

lemma length_field: "off + n \<le> length bs \<Longrightarrow> length (field off n bs) = n"
  by (simp add: field_def)

lemma le_bytes_field:
  "off + n \<le> length bs \<Longrightarrow> 8 * n = LENGTH('a) \<Longrightarrow>
     le_bytes n (le_word (field off n bs) :: 'a::len word) = field off n bs"
  using le_bytes_le_word [of "field off n bs", where 'a = 'a] by (simp add: length_field)

lemma field_append: "field off n bs @ field (off + n) m bs = field off (n + m) bs"
  by (simp only: field_def take_add drop_drop add.commute [of off n])

lemma header_bytes_of_header:
  assumes len: "length bs = 34"
  shows "header_bytes (bytes_header bs) = bs"
proof -
  note join = field_append [of 0 4 bs 1] field_append [of 0 5 bs 1] field_append [of 0 6 bs 2]
    field_append [of 0 8 bs 4] field_append [of 0 12 bs 4] field_append [of 0 16 bs 4]
    field_append [of 0 20 bs 2] field_append [of 0 22 bs 2] field_append [of 0 24 bs 8]
    field_append [of 0 32 bs 2]
  have "header_bytes (bytes_header bs) =
    ((((((((((field 0 4 bs @ field 4 1 bs) @ field 5 1 bs) @ field 6 2 bs) @ field 8 4 bs) @
      field 12 4 bs) @ field 16 4 bs) @ field 20 2 bs) @ field 22 2 bs) @ field 24 8 bs) @
      field 32 2 bs)"
    using len by (simp add: header_bytes_def bytes_header_def le_bytes_field
        del: One_nat_def le_bytes.simps)
  also have "\<dots> = field 0 34 bs" using join by simp
  finally show ?thesis using len by (simp add: field_def)
qed

interpretation hdr: fixed_codec header_bytes bytes_header 34
  by unfold_locales (simp_all add: bytes_header_of_bytes header_bytes_of_header)

text \<open>
  \<open>memcpy\<close> of a header out of a longer buffer reads its first 34 bytes.
\<close>

lemma bytes_header_take: "bytes_header (take 34 bs) = bytes_header bs"
  by (simp add: bytes_header_def field_def drop_take min_def)

lemma bytes_header_prefix [simp]: "bytes_header (header_bytes h @ rest) = h"
  using hdr.dec_prefix [of h rest] by (simp only: bytes_header_take)

subsection \<open>SerializeHeader and DeserializeHeader\<close>

text \<open>
  \<open>outBuffer\<close> is the memory behind the pointer, \<open>bufferSize\<close> the size the caller
  states; the caller's contract is that the buffer has at least that many bytes.
\<close>

definition SerializeHeader :: "PacketHeader \<Rightarrow> bytes option \<Rightarrow> nat \<Rightarrow> bool \<times> bytes option" where
  "SerializeHeader header outBuffer bufferSize =
     (case outBuffer of
        None \<Rightarrow> (False, None)
      | Some buf \<Rightarrow>
          if bufferSize < VEYRA_HEADER_SIZE then (False, Some buf)
          else (True, Some (header_bytes header @ drop VEYRA_HEADER_SIZE buf)))"

text \<open>The out parameter is overwritten before the magic and version are checked.\<close>

definition DeserializeHeader ::
  "bytes option \<Rightarrow> nat \<Rightarrow> PacketHeader \<Rightarrow> bool \<times> PacketHeader" where
  "DeserializeHeader inBuffer bufferSize outHeader =
     (case inBuffer of
        None \<Rightarrow> (False, outHeader)
      | Some buf \<Rightarrow>
          if bufferSize < VEYRA_HEADER_SIZE then (False, outHeader)
          else
            let h = bytes_header buf in
            if hdr_magic h \<noteq> VEYRA_PROTOCOL_MAGIC \<or> hdr_version h \<noteq> VEYRA_PROTOCOL_VERSION
            then (False, h)
            else (True, h))"

definition valid_header :: "PacketHeader \<Rightarrow> bool" where
  "valid_header h \<longleftrightarrow>
     hdr_magic h = VEYRA_PROTOCOL_MAGIC \<and> hdr_version h = VEYRA_PROTOCOL_VERSION"

lemma DeserializeHeader_Some:
  "DeserializeHeader (Some buf) n out =
     (if n < 34 then (False, out) else (valid_header (bytes_header buf), bytes_header buf))"
  by (simp add: DeserializeHeader_def valid_header_def Let_def wire_simps)

subsection \<open>Properties\<close>

definition demo_header :: PacketHeader where
  "demo_header = \<lparr>hdr_magic = VEYRA_PROTOCOL_MAGIC, hdr_version = VEYRA_PROTOCOL_VERSION,
     hdr_flags = FLAG_KEYFRAME, hdr_streamId = 0, hdr_sessionId = 0xDEADBEEF, hdr_frameId = 7,
     hdr_sequence = 4294967295, hdr_fragmentIndex = 2, hdr_fragmentCount = 3,
     hdr_timestampUs = 1234567890123, hdr_payloadLength = 1166\<rparr>"

text \<open>Wire round trip: a header that was serialized into a buffer is read back unchanged,
  whatever follows it in the buffer, and exactly the headers with the protocol's magic and
  version are accepted.\<close>

theorem header_roundtrip:
  assumes "SerializeHeader h (Some buf) n = (True, Some buf')" and "n \<le> length buf"
  shows "DeserializeHeader (Some buf') n out = (valid_header h, h) \<and> length buf' = length buf"
  using assms by (auto simp: SerializeHeader_def DeserializeHeader_Some wire_simps split: if_splits)

theorem header_roundtrip_witness:
  "DeserializeHeader (Some (header_bytes demo_header @ replicate 6 9)) 40 demo_header = (True, demo_header)"
proof -
  have "SerializeHeader demo_header (Some (replicate 40 9)) 40 =
      (True, Some (header_bytes demo_header @ replicate 6 9))"
    by (simp add: SerializeHeader_def wire_simps)
  from header_roundtrip [OF this] show ?thesis by (simp add: valid_header_def demo_header_def)
qed

text \<open>The parser accepts a datagram exactly when its first 34 bytes are the serialization
  of a header with the right magic and version, and it returns that header.\<close>

theorem header_parse_exact:
  assumes "n \<le> length d"
  shows "DeserializeHeader (Some d) n out = (True, h) \<longleftrightarrow>
    34 \<le> n \<and> valid_header h \<and> take 34 d = header_bytes h"
proof -
  have "bytes_header d = h \<longleftrightarrow> take 34 d = header_bytes h" if "34 \<le> n"
    using that assms header_bytes_of_header [of "take 34 d"] bytes_header_of_bytes
    by (metis bytes_header_take length_take min.absorb2 order_trans)
  then show ?thesis by (auto simp: DeserializeHeader_Some)
qed

theorem header_parse_exact_witness:
  "DeserializeHeader (Some (header_bytes demo_header)) 34 out = (True, demo_header)"
  using header_parse_exact [of 34 "header_bytes demo_header" out demo_header]
  by (simp add: valid_header_def demo_header_def)

end
