(* ===== verification/Crypto.thy ===== *)
theory Crypto
  imports Byte_Codec "HOL-Library.Monad_Syntax"
begin

text \<open>
  The session cryptography of \<open>native/core/src/crypto.cpp\<close> (class \<open>SessionCrypto\<close>).
  The primitives of mbedTLS are not part of the repository: they are the fields of
  the parameter record \<open>mbedtls\<close>, one per library call, where \<open>None\<close> stands for a
  nonzero status. What the code relies on is stated by the predicates
  \<open>chachapoly_correct\<close>, \<open>chachapoly_total\<close> and \<open>ecdh_agrees\<close>. The locale
  \<open>sealed_channel\<close> is the contract that the packetizer and the reassembler use.
\<close>

definition VEYRA_CRYPTO_KEY_SIZE :: nat where "VEYRA_CRYPTO_KEY_SIZE = 32"
definition VEYRA_CRYPTO_TAG_SIZE :: nat where "VEYRA_CRYPTO_TAG_SIZE = 16"
definition VEYRA_CRYPTO_NONCE_SIZE :: nat where "VEYRA_CRYPTO_NONCE_SIZE = 12"
definition VEYRA_PUBLIC_KEY_SIZE :: nat where "VEYRA_PUBLIC_KEY_SIZE = 32"
definition VEYRA_PRIVATE_KEY_SIZE :: nat where "VEYRA_PRIVATE_KEY_SIZE = 32"
definition VEYRA_SALT_SIZE :: nat where "VEYRA_SALT_SIZE = 8"

lemmas crypto_sizes [wire_simps] = VEYRA_CRYPTO_KEY_SIZE_def VEYRA_CRYPTO_TAG_SIZE_def
  VEYRA_CRYPTO_NONCE_SIZE_def VEYRA_PUBLIC_KEY_SIZE_def VEYRA_PRIVATE_KEY_SIZE_def
  VEYRA_SALT_SIZE_def

subsection \<open>The library interface\<close>

datatype cp_mode = CHACHAPOLY_ENCRYPT | CHACHAPOLY_DECRYPT

record ('ctx, 'mpi, 'point) mbedtls =
  chachapoly_init :: 'ctx
  chachapoly_setkey :: "'ctx \<Rightarrow> bytes \<Rightarrow> 'ctx option"
  chachapoly_starts :: "'ctx \<Rightarrow> bytes \<Rightarrow> cp_mode \<Rightarrow> 'ctx option"
  chachapoly_update_aad :: "'ctx \<Rightarrow> bytes \<Rightarrow> 'ctx option"
  chachapoly_update :: "'ctx \<Rightarrow> bytes \<Rightarrow> ('ctx \<times> bytes) option"
  chachapoly_finish :: "'ctx \<Rightarrow> bytes option"
  ecp_group_load_25519 :: "unit option"
  mpi_read_binary_le :: "bytes \<Rightarrow> 'mpi option"
  ecp_point_read_binary :: "bytes \<Rightarrow> 'point option"
  ecdh_compute_shared :: "'point \<Rightarrow> 'mpi \<Rightarrow> 'mpi option"
  mpi_write_binary :: "'mpi \<Rightarrow> nat \<Rightarrow> bytes option"
  ecdh_gen_public :: "bytes \<Rightarrow> ('mpi \<times> 'point) option"
  ecp_point_write_binary :: "'point \<Rightarrow> bytes option"
  mpi_write_binary_le :: "'mpi \<Rightarrow> nat \<Rightarrow> bytes option"
  hkdf_extract :: "bytes \<Rightarrow> bytes \<Rightarrow> bytes option"
  hkdf_expand :: "bytes \<Rightarrow> bytes \<Rightarrow> nat \<Rightarrow> bytes option"
  base64_encode :: "bytes \<Rightarrow> string option"
  base64_decode :: "string \<Rightarrow> bytes option"

subsection \<open>State\<close>

record KeyPair =
  publicKey :: bytes
  privateKey :: bytes

record SessionCrypto =
  rxKey :: bytes
  txKey :: bytes
  rxSalt :: bytes
  txSalt :: bytes
  hasKeys :: bool

definition SessionCrypto_new :: SessionCrypto where
  "SessionCrypto_new = \<lparr>rxKey = replicate 32 0, txKey = replicate 32 0,
     rxSalt = replicate 8 0, txSalt = replicate 8 0, hasKeys = False\<rparr>"

definition crypto_Reset :: "SessionCrypto \<Rightarrow> SessionCrypto" where
  "crypto_Reset c = c\<lparr>rxKey := replicate 32 0, txKey := replicate 32 0,
     rxSalt := replicate 8 0, txSalt := replicate 8 0, hasKeys := False\<rparr>"

definition IsKeySet :: "SessionCrypto \<Rightarrow> bool" where
  "IsKeySet c = hasKeys c"

lemma crypto_Reset_new: "crypto_Reset c = SessionCrypto_new"
  by (simp add: crypto_Reset_def SessionCrypto_new_def)

subsection \<open>Random identifiers, key pairs and text encoding\<close>

text \<open>
  \<open>RandomBytes\<close> fills \<open>b\<close> from the generator; the identifier is its big endian value.
\<close>

definition RandomId :: "u8 \<Rightarrow> u8 \<Rightarrow> u8 \<Rightarrow> u8 \<Rightarrow> u32" where
  "RandomId b0 b1 b2 b3 =
     push_bit 24 (ucast b0) OR push_bit 16 (ucast b1) OR push_bit 8 (ucast b2) OR ucast b3"

text \<open>
  \<open>GenerateKeyPair\<close> leaves the zero initialised pair (or, after a failure of the last
  call, a pair with a zero private key) when a library call fails. \<open>entropy\<close> is what
  the generator delivers to \<open>mbedtls_ecdh_gen_public\<close>.
\<close>

definition zero_pair :: KeyPair where
  "zero_pair = \<lparr>publicKey = replicate 32 0, privateKey = replicate 32 0\<rparr>"

definition GenerateKeyPair :: "('ctx, 'mpi, 'point) mbedtls \<Rightarrow> bytes \<Rightarrow> KeyPair" where
  "GenerateKeyPair P entropy =
     (case ecp_group_load_25519 P of
        None \<Rightarrow> zero_pair
      | Some _ \<Rightarrow> (case ecdh_gen_public P entropy of
          None \<Rightarrow> zero_pair
        | Some (d, Q) \<Rightarrow> (case ecp_point_write_binary P Q of
            None \<Rightarrow> zero_pair
          | Some pub \<Rightarrow>
              if length pub \<noteq> 32 then zero_pair\<lparr>publicKey := take 32 (pub @ drop (length pub) (publicKey zero_pair))\<rparr>
              else (case mpi_write_binary_le P d VEYRA_PRIVATE_KEY_SIZE of
                  None \<Rightarrow> zero_pair\<lparr>publicKey := pub\<rparr>
                | Some priv \<Rightarrow> \<lparr>publicKey = pub, privateKey = priv\<rparr>))))"

definition Base64Encode :: "('ctx, 'mpi, 'point) mbedtls \<Rightarrow> bytes \<Rightarrow> string" where
  "Base64Encode P data =
     (if data = [] then []
      else case base64_encode P data of None \<Rightarrow> [] | Some s \<Rightarrow> s)"

definition Base64Decode :: "('ctx, 'mpi, 'point) mbedtls \<Rightarrow> string \<Rightarrow> bytes" where
  "Base64Decode P b64 =
     (if b64 = [] then []
      else case base64_decode P b64 of None \<Rightarrow> [] | Some d \<Rightarrow> d)"

subsection \<open>Key derivation\<close>

definition ascii :: "string \<Rightarrow> bytes" where
  "ascii s = map of_char s"

definition kHkdfSalt :: bytes where
  "kHkdfSalt = ascii ''VeyraV1-session-kx''"

text \<open>\<open>std::memcmp(a, b, 32) <= 0\<close> on buffers of 32 bytes.\<close>

fun memcmp_le :: "bytes \<Rightarrow> bytes \<Rightarrow> bool" where
  "memcmp_le [] ys = True"
| "memcmp_le (x # xs) [] = False"
| "memcmp_le (x # xs) (y # ys) = (x < y \<or> x = y \<and> memcmp_le xs ys)"

definition shared_secret :: "('ctx, 'mpi, 'point) mbedtls \<Rightarrow> bytes \<Rightarrow> bytes \<Rightarrow> bytes option" where
  "shared_secret P peerPublicKey myPrivateKey = do {
     ecp_group_load_25519 P;
     d \<leftarrow> mpi_read_binary_le P myPrivateKey;
     Qpeer \<leftarrow> ecp_point_read_binary P peerPublicKey;
     z \<leftarrow> ecdh_compute_shared P Qpeer d;
     mpi_write_binary P z 32
   }"

definition lo_key :: "bytes \<Rightarrow> bytes \<Rightarrow> bytes" where
  "lo_key my peer = (if memcmp_le my peer then my else peer)"

definition hi_key :: "bytes \<Rightarrow> bytes \<Rightarrow> bytes" where
  "hi_key my peer = (if memcmp_le my peer then peer else my)"

definition buildInfo :: "bytes \<Rightarrow> bytes \<Rightarrow> string \<Rightarrow> bytes" where
  "buildInfo lo hi lbl = ascii lbl @ lo @ hi"

record session_keys =
  kS2C :: bytes
  kC2S :: bytes
  nS2C :: bytes
  nC2S :: bytes

definition expand_keys ::
  "('ctx, 'mpi, 'point) mbedtls \<Rightarrow> bytes \<Rightarrow> bytes \<Rightarrow> bytes \<Rightarrow> session_keys option" where
  "expand_keys P shared lo hi = do {
     prk \<leftarrow> hkdf_extract P kHkdfSalt shared;
     a \<leftarrow> hkdf_expand P prk (buildInfo lo hi ''VeyraV1|s2c|'') 32;
     b \<leftarrow> hkdf_expand P prk (buildInfo lo hi ''VeyraV1|c2s|'') 32;
     c \<leftarrow> hkdf_expand P prk (buildInfo lo hi ''VeyraV1|ns2c|'') 8;
     d \<leftarrow> hkdf_expand P prk (buildInfo lo hi ''VeyraV1|nc2s|'') 8;
     Some \<lparr>kS2C = a, kC2S = b, nS2C = c, nC2S = d\<rparr>
   }"

definition install_keys :: "bool \<Rightarrow> session_keys \<Rightarrow> SessionCrypto \<Rightarrow> SessionCrypto" where
  "install_keys serverRole k c =
     (if serverRole
      then c\<lparr>txKey := kS2C k, rxKey := kC2S k, txSalt := nS2C k, rxSalt := nC2S k\<rparr>
      else c\<lparr>rxKey := kS2C k, txKey := kC2S k, rxSalt := nS2C k, txSalt := nC2S k\<rparr>)"

definition DeriveSessionKeys ::
  "('ctx, 'mpi, 'point) mbedtls \<Rightarrow> bool \<Rightarrow> bytes option \<Rightarrow> bytes option \<Rightarrow> bytes option \<Rightarrow>
     SessionCrypto \<Rightarrow> bool \<times> SessionCrypto" where
  "DeriveSessionKeys P serverRole peerPublicKey myPublicKey myPrivateKey c =
     (case (peerPublicKey, myPublicKey, myPrivateKey) of
        (Some peer, Some my, Some priv) \<Rightarrow>
          (let c = crypto_Reset c in
           case Option.bind (shared_secret P peer priv)
                  (\<lambda>shared. expand_keys P shared (lo_key my peer) (hi_key my peer)) of
             Some k \<Rightarrow> (True, (install_keys serverRole k c)\<lparr>hasKeys := True\<rparr>)
           | None \<Rightarrow> (False, crypto_Reset c))
      | _ \<Rightarrow> (False, c))"

subsection \<open>Nonces\<close>

definition be32 :: "u32 \<Rightarrow> bytes" where
  "be32 s = [ucast (drop_bit 24 s AND 0xFF), ucast (drop_bit 16 s AND 0xFF),
     ucast (drop_bit 8 s AND 0xFF), ucast (s AND 0xFF)]"

definition BuildNonce :: "SessionCrypto \<Rightarrow> u32 \<Rightarrow> bool \<Rightarrow> bytes" where
  "BuildNonce c sequence tx = (if tx then txSalt c else rxSalt c) @ be32 sequence"

subsection \<open>Authenticated encryption\<close>

text \<open>
  One pass of the ChaCha20-Poly1305 context, the chain of calls that \<open>Encrypt\<close> and
  \<open>Decrypt\<close> share: output bytes and computed tag. Empty additional data and an empty
  message skip their calls.
\<close>

definition cp_run ::
  "('ctx, 'mpi, 'point) mbedtls \<Rightarrow> cp_mode \<Rightarrow> bytes \<Rightarrow> bytes \<Rightarrow> bytes \<Rightarrow> bytes \<Rightarrow> (bytes \<times> bytes) option" where
  "cp_run P mode key nonce aad input = do {
     ctx \<leftarrow> chachapoly_setkey P (chachapoly_init P) key;
     ctx \<leftarrow> chachapoly_starts P ctx nonce mode;
     ctx \<leftarrow> (if aad \<noteq> [] then chachapoly_update_aad P ctx aad else Some ctx);
     (ctx, out) \<leftarrow> (if input \<noteq> [] then chachapoly_update P ctx input else Some (ctx, []));
     tag \<leftarrow> chachapoly_finish P ctx;
     Some (out, tag)
   }"

text \<open>The number of bytes written, and the bytes in the output buffer.\<close>

definition Encrypt ::
  "('ctx, 'mpi, 'point) mbedtls \<Rightarrow> SessionCrypto \<Rightarrow> bytes option \<Rightarrow> nat \<Rightarrow> u32 \<Rightarrow> bytes \<Rightarrow> nat \<times> bytes" where
  "Encrypt P c plaintext plaintextSize sequence aad =
     (if \<not> hasKeys c \<or> (plaintext = None \<and> 0 < plaintextSize) then (0, [])
      else
        let input = (case plaintext of None \<Rightarrow> [] | Some p \<Rightarrow> take plaintextSize p) in
        case cp_run P CHACHAPOLY_ENCRYPT (txKey c) (BuildNonce c sequence True) aad input of
          None \<Rightarrow> (0, [])
        | Some (out, tag) \<Rightarrow> (plaintextSize + VEYRA_CRYPTO_TAG_SIZE, out @ tag))"

text \<open>\<open>None\<close> is \<open>SIZE_MAX\<close>; \<open>Some p\<close> returns the plaintext length with \<open>p\<close> in the buffer.\<close>

definition Decrypt ::
  "('ctx, 'mpi, 'point) mbedtls \<Rightarrow> SessionCrypto \<Rightarrow> bytes \<Rightarrow> nat \<Rightarrow> u32 \<Rightarrow> bytes \<Rightarrow> bytes option" where
  "Decrypt P c ciphertextAndTag inputLength sequence aad =
     (if \<not> hasKeys c \<or> inputLength < VEYRA_CRYPTO_TAG_SIZE then None
      else
        let cipherLen = inputLength - VEYRA_CRYPTO_TAG_SIZE;
            cipher = take cipherLen ciphertextAndTag;
            tag = take VEYRA_CRYPTO_TAG_SIZE (drop cipherLen ciphertextAndTag) in
        case cp_run P CHACHAPOLY_DECRYPT (rxKey c) (BuildNonce c sequence False) aad cipher of
          None \<Rightarrow> None
        | Some (out, computedTag) \<Rightarrow> if computedTag \<noteq> tag then None else Some out)"

subsection \<open>What the code relies on\<close>

text \<open>
  Documented behaviour of the AEAD: decrypting the output of an encryption under the
  same key, nonce and additional data gives the message back and computes the same
  16 byte tag; and, for the completeness results, no call fails on well sized input.
\<close>

definition chachapoly_correct :: "('ctx, 'mpi, 'point) mbedtls \<Rightarrow> bool" where
  "chachapoly_correct P \<longleftrightarrow>
     (\<forall>key nonce aad msg out tag.
        cp_run P CHACHAPOLY_ENCRYPT key nonce aad msg = Some (out, tag) \<longrightarrow>
        length out = length msg \<and> length tag = VEYRA_CRYPTO_TAG_SIZE \<and>
        cp_run P CHACHAPOLY_DECRYPT key nonce aad out = Some (msg, tag))"

definition chachapoly_total :: "('ctx, 'mpi, 'point) mbedtls \<Rightarrow> bool" where
  "chachapoly_total P \<longleftrightarrow>
     (\<forall>key nonce aad msg. length key = 32 \<and> length nonce = 12 \<longrightarrow>
        cp_run P CHACHAPOLY_ENCRYPT key nonce aad msg \<noteq> None)"

text \<open>X25519: both ends compute the same shared secret.\<close>

definition ecdh_agrees :: "('ctx, 'mpi, 'point) mbedtls \<Rightarrow> KeyPair \<Rightarrow> KeyPair \<Rightarrow> bool" where
  "ecdh_agrees P a b \<longleftrightarrow>
     shared_secret P (publicKey b) (privateKey a) = shared_secret P (publicKey a) (privateKey b)"

text \<open>HKDF delivers as many bytes as it is asked for.\<close>

definition hkdf_sized :: "('ctx, 'mpi, 'point) mbedtls \<Rightarrow> bool" where
  "hkdf_sized P \<longleftrightarrow> (\<forall>prk info n okm. hkdf_expand P prk info n = Some okm \<longrightarrow> length okm = n)"

subsection \<open>The two ends of a session\<close>

definition wf_crypto :: "SessionCrypto \<Rightarrow> bool" where
  "wf_crypto c \<longleftrightarrow>
     length (rxKey c) = VEYRA_CRYPTO_KEY_SIZE \<and> length (txKey c) = VEYRA_CRYPTO_KEY_SIZE \<and>
     length (rxSalt c) = VEYRA_SALT_SIZE \<and> length (txSalt c) = VEYRA_SALT_SIZE"

definition mirrored :: "SessionCrypto \<Rightarrow> SessionCrypto \<Rightarrow> bool" where
  "mirrored tx rx \<longleftrightarrow> hasKeys tx \<and> hasKeys rx \<and> txKey tx = rxKey rx \<and> txSalt tx = rxSalt rx"

lemma wf_SessionCrypto_new: "wf_crypto SessionCrypto_new"
  by (simp add: wf_crypto_def SessionCrypto_new_def wire_simps)

lemma memcmp_le_total: "\<not> memcmp_le xs ys \<Longrightarrow> memcmp_le ys xs"
  by (induction xs ys rule: memcmp_le.induct) auto

lemma memcmp_le_antisym:
  "memcmp_le xs ys \<Longrightarrow> memcmp_le ys xs \<Longrightarrow> length xs = length ys \<Longrightarrow> xs = ys"
  by (induction xs ys rule: memcmp_le.induct) auto

lemma lo_hi_swap:
  "length a = length b \<Longrightarrow> lo_key a b = lo_key b a \<and> hi_key a b = hi_key b a"
  by (auto simp: lo_key_def hi_key_def dest: memcmp_le_total memcmp_le_antisym)

lemma expand_keys_sized:
  "hkdf_sized P \<Longrightarrow> Option.bind x (\<lambda>s. expand_keys P s lo hi) = Some k \<Longrightarrow>
     length (kS2C k) = 32 \<and> length (kC2S k) = 32 \<and> length (nS2C k) = 8 \<and> length (nC2S k) = 8"
  by (auto simp: expand_keys_def hkdf_sized_def bind_eq_Some_conv)

lemma DeriveSessionKeys_Some:
  "DeriveSessionKeys P role (Some peer) (Some my) (Some priv) c =
     (case Option.bind (shared_secret P peer priv)
             (\<lambda>s. expand_keys P s (lo_key my peer) (hi_key my peer)) of
        Some k \<Rightarrow> (True, (install_keys role k SessionCrypto_new)\<lparr>hasKeys := True\<rparr>)
      | None \<Rightarrow> (False, SessionCrypto_new))"
  by (auto simp: DeriveSessionKeys_def crypto_Reset_new Let_def split: option.split)

lemma DeriveSessionKeys_wf:
  "hkdf_sized P \<Longrightarrow> wf_crypto c \<Longrightarrow> wf_crypto (snd (DeriveSessionKeys P role peer my priv c))"
  by (cases peer; cases my; cases priv)
    (auto simp: DeriveSessionKeys_Some DeriveSessionKeys_def [of P role None]
      DeriveSessionKeys_def [of P role "Some _" None]
      DeriveSessionKeys_def [of P role "Some _" "Some _" None] wf_crypto_def install_keys_def
      SessionCrypto_new_def wire_simps dest: expand_keys_sized split: option.split)

lemma derive_mirrored:
  assumes agree: "ecdh_agrees P server client"
    and len: "length (publicKey server) = length (publicKey client)"
    and s: "DeriveSessionKeys P True (Some (publicKey client)) (Some (publicKey server))
              (Some (privateKey server)) c1 = (True, sc)"
  shows "\<exists>cc. DeriveSessionKeys P False (Some (publicKey server)) (Some (publicKey client))
              (Some (privateKey client)) c2 = (True, cc) \<and> mirrored sc cc \<and> mirrored cc sc"
  using s agree lo_hi_swap [OF len]
  by (auto simp: DeriveSessionKeys_Some ecdh_agrees_def mirrored_def install_keys_def
      split: option.splits)

subsection \<open>Nonces do not repeat\<close>

lemma length_be32 [simp]: "length (be32 s) = 4"
  by (simp add: be32_def)

lemma be32_inject [simp]: "be32 a = be32 b \<longleftrightarrow> a = b"
proof
  assume "be32 a = be32 b"
  then have e: "(ucast (drop_bit 24 a AND 0xFF) :: u8) = ucast (drop_bit 24 b AND 0xFF)"
    "(ucast (drop_bit 16 a AND 0xFF) :: u8) = ucast (drop_bit 16 b AND 0xFF)"
    "(ucast (drop_bit 8 a AND 0xFF) :: u8) = ucast (drop_bit 8 b AND 0xFF)"
    "(ucast (a AND 0xFF) :: u8) = ucast (b AND 0xFF)"
    by (simp_all add: be32_def)
  have mask: "bit (0xFF :: u32) j" if "j < 8" for j
    using that by (auto simp: less_Suc_eq numeral_eq_Suc bit_simps)
  have byte: "bit a (k + j) = bit b (k + j)"
    if "(ucast (drop_bit k a AND 0xFF) :: u8) = ucast (drop_bit k b AND 0xFF)" "j < 8" for k j
  proof -
    from that(1) have "bit (ucast (drop_bit k a AND 0xFF) :: u8) j =
      bit (ucast (drop_bit k b AND 0xFF) :: u8) j" by simp
    with that(2) mask show ?thesis by (simp add: bit_simps)
  qed
  show "a = b"
  proof (rule bit_word_eqI)
    fix n
    assume "n < LENGTH(32)"
    then consider "n < 8" | "8 \<le> n" "n < 16" | "16 \<le> n" "n < 24" | "24 \<le> n" "n < 32"
      by fastforce
    then show "bit a n = bit b n"
      using byte [of 0 n] byte [of 8 "n - 8"] byte [of 16 "n - 16"] byte [of 24 "n - 24"] e
      by cases auto
  qed
qed simp

lemma BuildNonce_inject: "BuildNonce c s tx = BuildNonce c t tx \<longleftrightarrow> s = t"
  by (simp add: BuildNonce_def)

subsection \<open>The contract of a sealed channel\<close>

text \<open>
  What the packetizer (which seals) and the reassembler (which unseals) rely on:
  a message that was sealed completely opens at the paired end, under the same
  sequence number and additional data, to the same message. The extension adds that
  sealing never fails.
\<close>

locale sealed_channel =
  fixes paired :: "'tx \<Rightarrow> 'rx \<Rightarrow> bool"
    and seal :: "'tx \<Rightarrow> bytes option \<Rightarrow> nat \<Rightarrow> u32 \<Rightarrow> bytes \<Rightarrow> nat \<times> bytes"
    and unseal :: "'rx \<Rightarrow> bytes \<Rightarrow> nat \<Rightarrow> u32 \<Rightarrow> bytes \<Rightarrow> bytes option"
  assumes seal_opens: "paired tx rx \<Longrightarrow> seal tx (Some msg) (length msg) seq aad = (w, ct) \<Longrightarrow>
      w = length msg + 16 \<Longrightarrow>
      length ct = length msg + 16 \<and> unseal rx ct (length msg + 16) seq aad = Some msg"
begin

lemma sealed_open:
  "paired tx rx \<Longrightarrow> fst (seal tx (Some msg) (length msg) seq aad) = length msg + 16 \<Longrightarrow>
     ct = snd (seal tx (Some msg) (length msg) seq aad) \<Longrightarrow>
     length ct = length msg + 16 \<and> unseal rx ct (length ct) seq aad = Some msg"
  using seal_opens [of tx rx msg seq aad "length msg + 16" ct] by (simp add: prod_eq_iff)

end

locale total_sealed_channel = sealed_channel +
  assumes seal_succeeds: "paired tx rx \<Longrightarrow>
      fst (seal tx (Some msg) (length msg) seq aad) = length msg + 16"
begin

lemma seal_then_unseal:
  "paired tx rx \<Longrightarrow> ct = snd (seal tx (Some msg) (length msg) seq aad) \<Longrightarrow>
     length ct = length msg + 16 \<and> unseal rx ct (length ct) seq aad = Some msg"
  using sealed_open seal_succeeds by blast

end

definition session_paired ::
  "('ctx, 'mpi, 'point) mbedtls \<Rightarrow> SessionCrypto \<Rightarrow> SessionCrypto \<Rightarrow> bool" where
  "session_paired P tx rx \<longleftrightarrow> chachapoly_correct P \<and> mirrored tx rx"

definition session_live ::
  "('ctx, 'mpi, 'point) mbedtls \<Rightarrow> SessionCrypto \<Rightarrow> SessionCrypto \<Rightarrow> bool" where
  "session_live P tx rx \<longleftrightarrow>
     session_paired P tx rx \<and> chachapoly_total P \<and> wf_crypto tx \<and> wf_crypto rx"

lemma BuildNonce_mirrored: "mirrored tx rx \<Longrightarrow> BuildNonce rx s False = BuildNonce tx s True"
  by (simp add: BuildNonce_def mirrored_def)

lemma Encrypt_opens:
  assumes "session_paired P tx rx" and "Encrypt P tx (Some msg) (length msg) s aad = (w, ct)"
    and "w = length msg + 16"
  shows "length ct = length msg + 16 \<and> Decrypt P rx ct (length msg + 16) s aad = Some msg"
proof -
  from assms obtain out tag where
    run: "cp_run P CHACHAPOLY_ENCRYPT (txKey tx) (BuildNonce tx s True) aad msg = Some (out, tag)"
    and ct: "ct = out @ tag"
    by (auto simp: Encrypt_def session_paired_def mirrored_def split: option.splits if_splits)
  with assms(1) have "length out = length msg" "length tag = 16"
    and "cp_run P CHACHAPOLY_DECRYPT (rxKey rx) (BuildNonce rx s False) aad out = Some (msg, tag)"
    by (auto simp: session_paired_def chachapoly_correct_def BuildNonce_mirrored mirrored_def
        wire_simps)
  with ct assms(1) show ?thesis
    by (simp add: Decrypt_def session_paired_def mirrored_def wire_simps)
qed

interpretation session: sealed_channel "session_paired P" "Encrypt P" "Decrypt P"
  for P :: "('ctx, 'mpi, 'point) mbedtls"
  by unfold_locales (rule Encrypt_opens)

lemma Encrypt_succeeds:
  assumes "session_live P tx rx"
  shows "fst (Encrypt P tx (Some msg) (length msg) s aad) = length msg + 16"
proof -
  from assms have "length (txKey tx) = 32" "length (BuildNonce tx s True) = 12" "hasKeys tx"
    and "chachapoly_total P"
    by (auto simp: session_live_def session_paired_def mirrored_def wf_crypto_def BuildNonce_def
        wire_simps)
  then show ?thesis
    by (auto simp: Encrypt_def chachapoly_total_def wire_simps split: option.split)
qed

interpretation live: total_sealed_channel "session_live P" "Encrypt P" "Decrypt P"
  for P :: "('ctx, 'mpi, 'point) mbedtls"
proof unfold_locales
  fix tx rx msg s aad w ct
  assume "session_live P tx rx" and "Encrypt P tx (Some msg) (length msg) s aad = (w, ct)"
    and "w = length msg + 16"
  then show "length ct = length msg + 16 \<and> Decrypt P rx ct (length msg + 16) s aad = Some msg"
    using Encrypt_opens [of P tx rx msg s aad w ct] by (simp add: session_live_def)
next
  fix tx rx msg s aad
  assume "session_live P tx rx"
  then show "fst (Encrypt P tx (Some msg) (length msg) s aad) = length msg + 16"
    by (rule Encrypt_succeeds)
qed

subsection \<open>A concrete library\<close>

text \<open>
  A small executable library that satisfies every hypothesis above: a cipher that
  xors with the first key and nonce bytes, a tag that folds all the bytes, a
  commutative key agreement. The witnesses of the development evaluate on it.
\<close>

definition fold_xor :: "bytes \<Rightarrow> u8" where
  "fold_xor bs = foldr (XOR) bs 0"

definition demo_mask :: "bytes \<Rightarrow> u8" where
  "demo_mask bs = (case bs of [] \<Rightarrow> 0 | b # _ \<Rightarrow> b)"

definition demo_lib :: "(u8 \<times> u8 \<times> cp_mode, bytes, bytes) mbedtls" where
  "demo_lib = \<lparr>
     chachapoly_init = (0, 0, CHACHAPOLY_ENCRYPT),
     chachapoly_setkey = (\<lambda>(k, t, m) key. Some (demo_mask key, fold_xor key, m)),
     chachapoly_starts = (\<lambda>(k, t, m) nonce mode. Some (k, t XOR fold_xor nonce, mode)),
     chachapoly_update_aad = (\<lambda>(k, t, m) aad. Some (k, t XOR fold_xor aad, m)),
     chachapoly_update = (\<lambda>(k, t, m) msg.
        Some ((k, t XOR fold_xor (if m = CHACHAPOLY_ENCRYPT then map ((XOR) k) msg else msg), m),
              map ((XOR) k) msg)),
     chachapoly_finish = (\<lambda>(k, t, m). Some (replicate 16 t)),
     ecp_group_load_25519 = Some (),
     mpi_read_binary_le = (\<lambda>b. Some b),
     ecp_point_read_binary = (\<lambda>b. Some b),
     ecdh_compute_shared = (\<lambda>q d. Some (map (\<lambda>(x, y). x XOR y) (zip q d))),
     mpi_write_binary = (\<lambda>z n. Some z),
     ecdh_gen_public = (\<lambda>e. Some (e, e)),
     ecp_point_write_binary = (\<lambda>q. Some q),
     mpi_write_binary_le = (\<lambda>d n. Some d),
     hkdf_extract = (\<lambda>salt ikm. Some ikm),
     hkdf_expand = (\<lambda>prk info n. Some (replicate n (fold_xor (prk @ info)))),
     base64_encode = (\<lambda>b. Some (map (\<lambda>x. char_of (unat x)) b)),
     base64_decode = (\<lambda>s. Some (map of_char s))\<rparr>"

lemma cp_run_demo:
  "cp_run demo_lib mode key nonce aad msg =
     Some (map ((XOR) (demo_mask key)) msg,
       replicate 16 (fold_xor key XOR fold_xor nonce XOR fold_xor aad XOR
         fold_xor (if mode = CHACHAPOLY_ENCRYPT then map ((XOR) (demo_mask key)) msg else msg)))"
  by (simp add: cp_run_def demo_lib_def fold_xor_def xor.assoc)

lemma demo_correct: "chachapoly_correct demo_lib"
  by (simp add: chachapoly_correct_def cp_run_demo comp_def xor.assoc [symmetric] wire_simps)

lemma demo_total: "chachapoly_total demo_lib"
  by (simp add: chachapoly_total_def cp_run_demo)

lemma demo_hkdf_sized: "hkdf_sized demo_lib"
  by (auto simp: hkdf_sized_def demo_lib_def)

definition demo_phone :: KeyPair where
  "demo_phone = \<lparr>publicKey = replicate 32 3, privateKey = replicate 32 3\<rparr>"

definition demo_desktop :: KeyPair where
  "demo_desktop = \<lparr>publicKey = replicate 32 4, privateKey = replicate 32 4\<rparr>"

subsection \<open>Properties\<close>

text \<open>C13. Pairing gives a channel: when the server derives its session keys from the client's
  public key, the client derives successfully from the server's, and whatever one end seals
  the other end opens, in both directions.\<close>

theorem pairing_gives_a_channel:
  assumes "chachapoly_correct P" and "chachapoly_total P" and "hkdf_sized P"
    and "ecdh_agrees P server client"
    and "length (publicKey server) = length (publicKey client)"
    and "DeriveSessionKeys P True (Some (publicKey client)) (Some (publicKey server))
           (Some (privateKey server)) SessionCrypto_new = (True, sc)"
  shows "\<exists>cc. DeriveSessionKeys P False (Some (publicKey server)) (Some (publicKey client))
           (Some (privateKey client)) SessionCrypto_new = (True, cc) \<and>
    (\<forall>msg s aad. Decrypt P cc (snd (Encrypt P sc (Some msg) (length msg) s aad)) (length msg + 16) s aad
        = Some msg) \<and>
    (\<forall>msg s aad. Decrypt P sc (snd (Encrypt P cc (Some msg) (length msg) s aad)) (length msg + 16) s aad
        = Some msg)"
proof -
  obtain cc where cc: "DeriveSessionKeys P False (Some (publicKey server)) (Some (publicKey client))
           (Some (privateKey client)) SessionCrypto_new = (True, cc)" "mirrored sc cc" "mirrored cc sc"
    using derive_mirrored [OF assms(4-6)] by blast
  have "wf_crypto sc" "wf_crypto cc"
    using DeriveSessionKeys_wf [OF assms(3) wf_SessionCrypto_new] assms(6) cc(1) by (metis snd_conv)+
  then have "session_live P sc cc" "session_live P cc sc"
    using assms(1,2) cc by (simp_all add: session_live_def session_paired_def)
  with cc(1) show ?thesis
    using live.seal_then_unseal [of P sc cc, OF _ refl] live.seal_then_unseal [of P cc sc, OF _ refl]
    by metis
qed

theorem pairing_gives_a_channel_witness:
  "\<exists>cc. DeriveSessionKeys demo_lib False (Some (publicKey demo_desktop)) (Some (publicKey demo_phone))
       (Some (privateKey demo_phone)) SessionCrypto_new = (True, cc) \<and>
     Decrypt demo_lib cc (snd (Encrypt demo_lib (snd (DeriveSessionKeys demo_lib True
         (Some (publicKey demo_phone)) (Some (publicKey demo_desktop)) (Some (privateKey demo_desktop))
         SessionCrypto_new)) (Some [1, 2]) 2 7 [])) 18 7 [] = Some [1, 2]"
proof -
  let ?d = "DeriveSessionKeys demo_lib True (Some (publicKey demo_phone)) (Some (publicKey demo_desktop))
     (Some (privateKey demo_desktop)) SessionCrypto_new"
  have s: "?d = (True, snd ?d)" by code_simp
  have "ecdh_agrees demo_lib demo_desktop demo_phone" unfolding ecdh_agrees_def by code_simp
  moreover have "length (publicKey demo_desktop) = length (publicKey demo_phone)" by code_simp
  ultimately obtain cc where "DeriveSessionKeys demo_lib False (Some (publicKey demo_desktop))
      (Some (publicKey demo_phone)) (Some (privateKey demo_phone)) SessionCrypto_new = (True, cc)"
    "\<And>msg s aad. Decrypt demo_lib cc (snd (Encrypt demo_lib (snd ?d) (Some msg) (length msg) s aad))
       (length msg + 16) s aad = Some msg"
    using pairing_gives_a_channel [OF demo_correct demo_total demo_hkdf_sized _ _ s] by metis
  from this(1) this(2) [of "[1, 2]" 7 "[]"] show ?thesis
    by (intro exI [of _ cc]) (simp add: numeral_2_eq_2)
qed

end
