(* ===== verification/Packetizer.thy ===== *)
theory Packetizer
  imports Wire Crypto
begin

text \<open>
  Class \<open>Packetizer\<close> of \<open>native/core/src/packetizer.cpp\<close>: fragmentation of a video
  frame into packets of at most \<open>VEYRA_MAX_PACKET_SIZE\<close> bytes, and of an audio frame
  into one packet, with per packet encryption when a crypto object is armed. The
  operations take the sealing operation \<open>seal\<close> of that object as an argument (it is
  \<open>Encrypt P\<close> for a \<open>SessionCrypto\<close>); its contract is the locale \<open>sealed_channel\<close>.
\<close>

subsection \<open>State and operations\<close>

record 'c Packetizer =
  pkt_sessionId :: u32
  pkt_sequence :: u32
  pkt_crypto :: "'c option"

record VideoFrame =
  vf_frameId :: u32
  vf_timestampUs :: u64
  vf_isKeyframe :: bool
  vf_data :: bytes

definition Packetizer_new :: "u32 \<Rightarrow> 'c Packetizer" where
  "Packetizer_new sessionId = \<lparr>pkt_sessionId = sessionId, pkt_sequence = 0, pkt_crypto = None\<rparr>"

definition pkt_SetCrypto :: "'c option \<Rightarrow> 'c Packetizer \<Rightarrow> 'c Packetizer" where
  "pkt_SetCrypto crypto pk = pk\<lparr>pkt_crypto := crypto\<rparr>"

definition IsCryptoArmed :: "'c Packetizer \<Rightarrow> bool" where
  "IsCryptoArmed pk \<longleftrightarrow> pkt_crypto pk \<noteq> None"

definition kAeadTagSize :: nat where
  "kAeadTagSize = VEYRA_CRYPTO_TAG_SIZE"

definition maxPlaintext :: "'c option \<Rightarrow> nat" where
  "maxPlaintext crypto =
     (if crypto \<noteq> None then VEYRA_MAX_PAYLOAD_SIZE - kAeadTagSize else VEYRA_MAX_PAYLOAD_SIZE)"

definition fragmentCount :: "'c option \<Rightarrow> nat \<Rightarrow> u16" where
  "fragmentCount crypto frameSize =
     of_nat ((frameSize + maxPlaintext crypto - 1) div maxPlaintext crypto)"

definition video_header ::
  "'c Packetizer \<Rightarrow> u32 \<Rightarrow> u64 \<Rightarrow> bool \<Rightarrow> u16 \<Rightarrow> nat \<Rightarrow> nat \<Rightarrow> PacketHeader" where
  "video_header pk frameId timestampUs isKeyframe fragCount i payloadLen =
     (let flags = (if isKeyframe then FLAG_KEYFRAME else FLAG_NONE);
          flags = (if pkt_crypto pk \<noteq> None then flags OR FLAG_ENCRYPTED else flags)
      in \<lparr>hdr_magic = VEYRA_PROTOCOL_MAGIC, hdr_version = VEYRA_PROTOCOL_VERSION,
          hdr_flags = flags, hdr_streamId = 0, hdr_sessionId = pkt_sessionId pk,
          hdr_frameId = frameId, hdr_sequence = pkt_sequence pk,
          hdr_fragmentIndex = of_nat i, hdr_fragmentCount = fragCount,
          hdr_timestampUs = timestampUs, hdr_payloadLength = of_nat payloadLen\<rparr>)"

text \<open>One turn of the fragment loop: at most one packet, and the next sequence number.\<close>

definition packetize_fragment ::
  "('c \<Rightarrow> bytes option \<Rightarrow> nat \<Rightarrow> u32 \<Rightarrow> bytes \<Rightarrow> nat \<times> bytes) \<Rightarrow> bytes \<Rightarrow> nat \<Rightarrow> u32 \<Rightarrow> u64 \<Rightarrow>
     bool \<Rightarrow> u16 \<Rightarrow> 'c Packetizer \<Rightarrow> nat \<Rightarrow> bytes list \<times> 'c Packetizer" where
  "packetize_fragment seal frameData frameSize frameId timestampUs isKeyframe fragCount pk i =
     (let mp = maxPlaintext (pkt_crypto pk);
          offset = i * mp;
          currentChunkSize = min mp (frameSize - offset);
          payloadSrc = take currentChunkSize (drop offset frameData);
          payloadLen = (if pkt_crypto pk \<noteq> None then currentChunkSize + kAeadTagSize
                        else currentChunkSize);
          header = video_header pk frameId timestampUs isKeyframe fragCount i payloadLen;
          next = pk\<lparr>pkt_sequence := pkt_sequence pk + 1\<rparr>
      in case pkt_crypto pk of
           Some c \<Rightarrow>
             (let (written, cipherBuf) =
                seal c (Some payloadSrc) currentChunkSize (pkt_sequence pk) (header_bytes header)
              in if written \<noteq> currentChunkSize + kAeadTagSize then ([], next)
                 else ([header_bytes header @ take written cipherBuf], next))
         | None \<Rightarrow> ([header_bytes header @ payloadSrc], next))"

definition PacketizeFrame ::
  "('c \<Rightarrow> bytes option \<Rightarrow> nat \<Rightarrow> u32 \<Rightarrow> bytes \<Rightarrow> nat \<times> bytes) \<Rightarrow> bytes option \<Rightarrow> nat \<Rightarrow> u32 \<Rightarrow> u64 \<Rightarrow>
     bool \<Rightarrow> 'c Packetizer \<Rightarrow> bytes list \<times> 'c Packetizer" where
  "PacketizeFrame seal frameData frameSize frameId timestampUs isKeyframe pk =
     (case frameData of
        None \<Rightarrow> ([], pk)
      | Some data \<Rightarrow>
          if frameSize = 0 then ([], pk)
          else
            let fc = fragmentCount (pkt_crypto pk) frameSize in
            emits (packetize_fragment seal data frameSize frameId timestampUs isKeyframe fc)
              pk [0..<unat fc])"

definition audio_header :: "'c Packetizer \<Rightarrow> u32 \<Rightarrow> u64 \<Rightarrow> nat \<Rightarrow> PacketHeader" where
  "audio_header pk frameId timestampUs payloadLen =
     (let flags = (if pkt_crypto pk \<noteq> None then FLAG_AUDIO OR FLAG_ENCRYPTED else FLAG_AUDIO)
      in \<lparr>hdr_magic = VEYRA_PROTOCOL_MAGIC, hdr_version = VEYRA_PROTOCOL_VERSION,
          hdr_flags = flags, hdr_streamId = 1, hdr_sessionId = pkt_sessionId pk,
          hdr_frameId = frameId, hdr_sequence = pkt_sequence pk,
          hdr_fragmentIndex = 0, hdr_fragmentCount = 1,
          hdr_timestampUs = timestampUs, hdr_payloadLength = of_nat payloadLen\<rparr>)"

text \<open>The empty packet is the empty vector that the code returns on every refusal.\<close>

definition PacketizeAudio ::
  "('c \<Rightarrow> bytes option \<Rightarrow> nat \<Rightarrow> u32 \<Rightarrow> bytes \<Rightarrow> nat \<times> bytes) \<Rightarrow> bytes option \<Rightarrow> nat \<Rightarrow> u32 \<Rightarrow> u64 \<Rightarrow>
     'c Packetizer \<Rightarrow> bytes \<times> 'c Packetizer" where
  "PacketizeAudio seal audioData audioSize frameId timestampUs pk =
     (if audioData \<noteq> None \<and> VEYRA_MAX_PAYLOAD_SIZE - kAeadTagSize < audioSize then ([], pk)
      else if pkt_crypto pk \<noteq> None \<and> audioSize = 0 then ([], pk)
      else
        let payloadLen = (if pkt_crypto pk \<noteq> None then audioSize + kAeadTagSize else audioSize);
            header = audio_header pk frameId timestampUs payloadLen;
            next = pk\<lparr>pkt_sequence := pkt_sequence pk + 1\<rparr>
        in case pkt_crypto pk of
             Some c \<Rightarrow>
               (let (written, cipher) =
                  seal c audioData audioSize (pkt_sequence pk) (header_bytes header)
                in if written \<noteq> audioSize + kAeadTagSize then ([], next)
                   else (header_bytes header @ take written cipher, next))
           | None \<Rightarrow>
               (case audioData of
                  Some data \<Rightarrow> (header_bytes header @ take audioSize data, next)
                | None \<Rightarrow> (header_bytes header @ replicate payloadLen 0, next)))"

subsection \<open>One fragment\<close>

lemma maxPlaintext_bounds:
  "1150 \<le> maxPlaintext c" "maxPlaintext c \<le> 1166" "0 < maxPlaintext c"
  "c \<noteq> None \<Longrightarrow> maxPlaintext c + 16 = 1166"
  by (auto simp: maxPlaintext_def kAeadTagSize_def wire_simps)

lemma fragmentCount_unat:
  "pieces_needed n (maxPlaintext c) < 65536 \<Longrightarrow>
     unat (fragmentCount c n) = pieces_needed n (maxPlaintext c)"
  by (simp add: fragmentCount_def pieces_needed_def word_nat)

lemma packetize_fragment_state:
  "snd (packetize_fragment seal d n fid ts k fc pk i) = pk\<lparr>pkt_sequence := pkt_sequence pk + 1\<rparr>"
  by (auto simp: packetize_fragment_def Let_def split: option.splits prod.splits)

text \<open>
  The state of the packetizer before fragment \<open>i\<close> of a frame that starts in state \<open>pk\<close>.
\<close>

definition nth_state :: "'c Packetizer \<Rightarrow> nat \<Rightarrow> 'c Packetizer" where
  "nth_state pk i = pk\<lparr>pkt_sequence := pkt_sequence pk + of_nat i\<rparr>"

lemma nth_state_simps [simp]:
  "pkt_crypto (nth_state pk i) = pkt_crypto pk"
  "pkt_sessionId (nth_state pk i) = pkt_sessionId pk"
  "pkt_sequence (nth_state pk i) = pkt_sequence pk + of_nat i"
  "nth_state pk 0 = pk"
  by (simp_all add: nth_state_def)

lemma emits_fragments:
  "emits (packetize_fragment seal d n fid ts k fc) pk [0..<m] =
     (concat (map (\<lambda>i. fst (packetize_fragment seal d n fid ts k fc (nth_state pk i) i)) [0..<m]),
      nth_state pk m)"
proof (induction m)
  case 0
  then show ?case by simp
next
  case (Suc m)
  have "snd (packetize_fragment seal d n fid ts k fc (nth_state pk m) m) = nth_state pk (Suc m)"
    by (simp add: packetize_fragment_state nth_state_def algebra_simps)
  with Suc show ?case by (auto simp: emits_append split: prod.splits)
qed

lemma PacketizeFrame_emits:
  "0 < n \<Longrightarrow> PacketizeFrame seal (Some d) n fid ts k pk =
     (let fc = fragmentCount (pkt_crypto pk) n in
      (concat (map (\<lambda>i. fst (packetize_fragment seal d n fid ts k fc (nth_state pk i) i))
         [0..<unat fc]), nth_state pk (unat fc)))"
  by (simp add: PacketizeFrame_def emits_fragments Let_def)

end
