(* ===== verification/Sender.thy ===== *)
theory Sender
  imports Packetizer
begin

text \<open>
  What a \<open>Packetizer\<close> puts on the network over its whole life: a history of calls of
  \<open>PacketizeFrame\<close> and \<open>PacketizeAudio\<close> (\<open>send_all\<close>), the packets they return and the
  sequence numbers these carry. The lemmas describe one packet (\<open>packet_of\<close>); the
  properties are the size bound, the absence of plaintext when a key is armed, and the
  uniqueness of sequence numbers and nonces.
\<close>

subsection \<open>One packet\<close>

text \<open>
  \<open>packet_of seal pk s p\<close>: \<open>p\<close> is a well formed packet of the session of \<open>pk\<close> with sequence
  number \<open>s\<close>: a valid header, then the payload, which is a sealed message when a key is armed.
\<close>

definition packet_of ::
  "('c \<Rightarrow> bytes option \<Rightarrow> nat \<Rightarrow> u32 \<Rightarrow> bytes \<Rightarrow> nat \<times> bytes) \<Rightarrow> 'c Packetizer \<Rightarrow> u32 \<Rightarrow> bytes \<Rightarrow> bool" where
  "packet_of seal pk s p \<longleftrightarrow>
     length p \<le> VEYRA_MAX_PACKET_SIZE \<and>
     (\<exists>h b. p = header_bytes h @ b \<and> valid_header h \<and> hdr_sequence h = s \<and>
        hdr_sessionId h = pkt_sessionId pk \<and>
        (case pkt_crypto pk of
           None \<Rightarrow> \<not> has_flag (hdr_flags h) FLAG_ENCRYPTED
         | Some c \<Rightarrow> has_flag (hdr_flags h) FLAG_ENCRYPTED \<and>
             (\<exists>msg n. b = take (n + 16) (snd (seal c msg n s (header_bytes h))) \<and>
                fst (seal c msg n s (header_bytes h)) = n + 16)))"

lemma packet_of_sequence:
  "packet_of seal pk s p \<Longrightarrow> hdr_sequence (bytes_header p) = s"
  by (auto simp: packet_of_def)

lemma packet_of_cong:
  "pkt_sessionId pk' = pkt_sessionId pk \<Longrightarrow> pkt_crypto pk' = pkt_crypto pk \<Longrightarrow>
     packet_of seal pk' s p = packet_of seal pk s p"
  by (simp add: packet_of_def)

lemma video_header_simps [simp]:
  "hdr_sequence (video_header pk fid ts k fc i n) = pkt_sequence pk"
  "hdr_sessionId (video_header pk fid ts k fc i n) = pkt_sessionId pk"
  "valid_header (video_header pk fid ts k fc i n)"
  "has_flag (hdr_flags (video_header pk fid ts k fc i n)) FLAG_ENCRYPTED = (pkt_crypto pk \<noteq> None)"
  by (auto simp: video_header_def valid_header_def has_flag_def flag_defs)

lemma audio_header_simps [simp]:
  "hdr_sequence (audio_header pk fid ts n) = pkt_sequence pk"
  "hdr_sessionId (audio_header pk fid ts n) = pkt_sessionId pk"
  "valid_header (audio_header pk fid ts n)"
  "has_flag (hdr_flags (audio_header pk fid ts n)) FLAG_ENCRYPTED = (pkt_crypto pk \<noteq> None)"
  by (auto simp: audio_header_def valid_header_def has_flag_def flag_defs)

lemma packet_of_clear:
  "pkt_crypto pk = None \<Longrightarrow> valid_header h \<Longrightarrow> hdr_sessionId h = pkt_sessionId pk \<Longrightarrow>
     \<not> has_flag (hdr_flags h) FLAG_ENCRYPTED \<Longrightarrow> length b \<le> 1166 \<Longrightarrow>
     packet_of seal pk (hdr_sequence h) (header_bytes h @ b)"
  unfolding packet_of_def VEYRA_MAX_PACKET_SIZE_def
  by (intro conjI exI [of _ h] exI [of _ b]) simp_all

lemma packet_of_sealed:
  "pkt_crypto pk = Some c \<Longrightarrow> valid_header h \<Longrightarrow> hdr_sessionId h = pkt_sessionId pk \<Longrightarrow>
     has_flag (hdr_flags h) FLAG_ENCRYPTED \<Longrightarrow> n + 16 \<le> 1166 \<Longrightarrow>
     seal c msg n (hdr_sequence h) (header_bytes h) = (n + 16, ct) \<Longrightarrow>
     packet_of seal pk (hdr_sequence h) (header_bytes h @ take (n + 16) ct)"
  unfolding packet_of_def VEYRA_MAX_PACKET_SIZE_def
  by (intro conjI exI [of _ h] exI [of _ "take (n + 16) ct"]) (auto intro!: exI [of _ msg] exI [of _ n])

lemma fragment_packet:
  "\<forall>p \<in> set (fst (packetize_fragment seal d n fid ts k fc pk i)). packet_of seal pk (pkt_sequence pk) p"
proof (cases "pkt_crypto pk")
  case None
  show ?thesis
    using None maxPlaintext_bounds(2) [of "None :: 'a option"]
      packet_of_clear [of pk "video_header pk fid ts k fc i _"]
    by (auto simp: packetize_fragment_def Let_def)
next
  case (Some c)
  let ?n = "min (maxPlaintext (pkt_crypto pk)) (n - i * maxPlaintext (pkt_crypto pk))"
  have "?n + 16 \<le> 1166" using Some maxPlaintext_bounds(4) [of "pkt_crypto pk"] by simp
  then show ?thesis
    using Some packet_of_sealed [of pk c "video_header pk fid ts k fc i _" ?n seal]
    by (auto simp: packetize_fragment_def Let_def kAeadTagSize_def wire_simps split: prod.split)
qed

lemma fragment_at_most_one: "length (fst (packetize_fragment seal d n fid ts k fc pk i)) \<le> 1"
  by (auto simp: packetize_fragment_def Let_def split: option.split prod.split)

lemma audio_packet:
  "fst (PacketizeAudio seal a n fid ts pk) \<noteq> [] \<Longrightarrow> a \<noteq> None \<Longrightarrow>
     packet_of seal pk (pkt_sequence pk) (fst (PacketizeAudio seal a n fid ts pk))"
  using packet_of_sealed [of pk _ "audio_header pk fid ts _" n seal a]
    packet_of_clear [of pk "audio_header pk fid ts _" _ seal]
  by (cases a; cases "pkt_crypto pk")
    (auto simp: PacketizeAudio_def Let_def kAeadTagSize_def wire_simps split: prod.splits if_splits)

subsection \<open>Histories of calls\<close>

datatype send_op =
    SendFrame bytes u32 u64 bool
  | SendAudio bytes u32 u64

text \<open>The caller puts every non empty packet on the wire.\<close>

fun send ::
  "('c \<Rightarrow> bytes option \<Rightarrow> nat \<Rightarrow> u32 \<Rightarrow> bytes \<Rightarrow> nat \<times> bytes) \<Rightarrow> 'c Packetizer \<Rightarrow> send_op \<Rightarrow>
     bytes list \<times> 'c Packetizer" where
  "send seal pk (SendFrame d fid ts k) = PacketizeFrame seal (Some d) (length d) fid ts k pk"
| "send seal pk (SendAudio d fid ts) =
     (let (p, pk') = PacketizeAudio seal (Some d) (length d) fid ts pk
      in (if p = [] then [] else [p], pk'))"

definition send_all ::
  "('c \<Rightarrow> bytes option \<Rightarrow> nat \<Rightarrow> u32 \<Rightarrow> bytes \<Rightarrow> nat \<times> bytes) \<Rightarrow> 'c Packetizer \<Rightarrow> send_op list \<Rightarrow>
     bytes list \<times> 'c Packetizer" where
  "send_all seal = emits (send seal)"

text \<open>The sequence numbers a call may use: one per fragment, one per audio frame.\<close>

fun numbers_used :: "'c option \<Rightarrow> send_op \<Rightarrow> nat" where
  "numbers_used c (SendFrame d fid ts k) = (if d = [] then 0 else unat (fragmentCount c (length d)))"
| "numbers_used c (SendAudio d fid ts) = 1"

text \<open>
  Packets \<open>ps\<close> that carry increasing offsets below \<open>m\<close> from the sequence number of \<open>pk\<close>.
\<close>

definition numbered ::
  "('c \<Rightarrow> bytes option \<Rightarrow> nat \<Rightarrow> u32 \<Rightarrow> bytes \<Rightarrow> nat \<times> bytes) \<Rightarrow> 'c Packetizer \<Rightarrow> nat \<Rightarrow> bytes list \<Rightarrow> bool" where
  "numbered seal pk m ps \<longleftrightarrow>
     (\<exists>ks. sorted_wrt (<) ks \<and> (\<forall>k \<in> set ks. k < m) \<and>
        list_all2 (\<lambda>k. packet_of seal pk (pkt_sequence pk + of_nat k)) ks ps)"

lemma numbered_Nil [simp]: "numbered seal pk m []"
  by (auto simp: numbered_def)

lemma numbered_mono: "numbered seal pk m ps \<Longrightarrow> m \<le> m' \<Longrightarrow> numbered seal pk m' ps"
  unfolding numbered_def by (meson less_le_trans)

lemma numbered_append:
  assumes "numbered seal pk m ps" and "numbered seal (nth_state pk m) m' qs"
  shows "numbered seal pk (m + m') (ps @ qs)"
proof -
  from assms obtain ks ls where ks: "sorted_wrt (<) ks" "\<forall>k \<in> set ks. k < m"
      "list_all2 (\<lambda>k. packet_of seal pk (pkt_sequence pk + of_nat k)) ks ps"
    and ls: "sorted_wrt (<) ls" "\<forall>k \<in> set ls. k < m'"
      "list_all2 (\<lambda>k. packet_of seal (nth_state pk m) (pkt_sequence (nth_state pk m) + of_nat k)) ls qs"
    unfolding numbered_def by blast
  have "packet_of seal (nth_state pk m) = packet_of seal pk"
    by (intro ext packet_of_cong) simp_all
  with ls(3) have "list_all2 (\<lambda>k. packet_of seal pk (pkt_sequence pk + of_nat k)) (map ((+) m) ls) qs"
    by (simp add: list_all2_map1 algebra_simps)
  with ks ls show ?thesis unfolding numbered_def
    by (intro exI [of _ "ks @ map ((+) m) ls"])
      (auto simp: sorted_wrt_append sorted_wrt_map list_all2_appendI)
qed

lemma numbered_one: "packet_of seal pk (pkt_sequence pk) p \<Longrightarrow> numbered seal pk 1 [p]"
  unfolding numbered_def by (intro exI [of _ "[0]"]) simp

lemma fragment_numbered:
  "numbered seal pk 1 (fst (packetize_fragment seal d n fid ts k fc pk i))"
  using fragment_at_most_one [of seal d n fid ts k fc pk i] fragment_packet [of seal d n fid ts k fc pk i]
  by (cases "fst (packetize_fragment seal d n fid ts k fc pk i)")
    (simp_all add: numbered_one [unfolded One_nat_def])

lemma fragments_numbered:
  "numbered seal pk m
     (concat (map (\<lambda>i. fst (packetize_fragment seal d n fid ts k fc (nth_state pk i) i)) [0..<m]))"
proof (induction m)
  case 0
  then show ?case by simp
next
  case (Suc m)
  from numbered_append [OF Suc fragment_numbered] show ?case by simp
qed

lemma send_numbered:
  "\<exists>m \<le> numbers_used (pkt_crypto pk) x. snd (send seal pk x) = nth_state pk m \<and>
     numbered seal pk m (fst (send seal pk x))"
proof (cases x)
  case (SendFrame d fid ts k)
  show ?thesis
  proof (cases "d = []")
    case True
    with SendFrame show ?thesis by (simp add: PacketizeFrame_def)
  next
    case False
    with SendFrame show ?thesis
      by (auto simp: PacketizeFrame_emits Let_def fragments_numbered)
  qed
next
  case (SendAudio d fid ts)
  have "snd (PacketizeAudio seal (Some d) (length d) fid ts pk) = nth_state pk 1 \<or>
      snd (PacketizeAudio seal (Some d) (length d) fid ts pk) = nth_state pk 0 \<and>
      fst (PacketizeAudio seal (Some d) (length d) fid ts pk) = []"
    by (auto simp: PacketizeAudio_def Let_def nth_state_def split: option.split prod.split)
  then show ?thesis
    using SendAudio audio_packet [of seal "Some d" "length d" fid ts pk]
    by (auto simp: Let_def split_beta numbered_one [unfolded One_nat_def]
        intro: exI [of _ 0] exI [of _ "Suc 0"])
qed

lemma send_all_numbered:
  "\<exists>m \<le> sum_list (map (numbers_used (pkt_crypto pk)) ops).
     snd (send_all seal pk ops) = nth_state pk m \<and> numbered seal pk m (fst (send_all seal pk ops))"
proof (induction ops rule: rev_induct)
  case Nil
  then show ?case by (simp add: send_all_def)
next
  case (snoc x ops)
  then obtain m where m: "m \<le> sum_list (map (numbers_used (pkt_crypto pk)) ops)"
    "snd (send_all seal pk ops) = nth_state pk m" "numbered seal pk m (fst (send_all seal pk ops))"
    by blast
  obtain k where k: "k \<le> numbers_used (pkt_crypto pk) x"
    "snd (send seal (nth_state pk m) x) = nth_state (nth_state pk m) k"
    "numbered seal (nth_state pk m) k (fst (send seal (nth_state pk m) x))"
    using send_numbered [of "nth_state pk m" x seal] by auto
  have "send_all seal pk (ops @ [x]) =
      (fst (send_all seal pk ops) @ fst (send seal (nth_state pk m) x), nth_state pk (m + k))"
    using m(2) k(2) by (simp add: send_all_def emits_append split_beta nth_state_def add.assoc)
  with numbered_append [OF m(3) k(3)] m(1) k(1) show ?case
    by (intro exI [of _ "m + k"]) simp
qed

lemma send_all_packets:
  "p \<in> set (fst (send_all seal pk ops)) \<Longrightarrow> \<exists>s. packet_of seal pk s p"
  using send_all_numbered [of pk ops seal]
  by (auto simp: numbered_def list_all2_conv_all_nth in_set_conv_nth)

lemma numbered_sequences:
  assumes "numbered seal pk m ps" and "m \<le> 4294967296"
  shows "distinct (map (hdr_sequence \<circ> bytes_header) ps)"
proof -
  from assms(1) obtain ks where ks: "sorted_wrt (<) ks" "\<forall>k \<in> set ks. k < m"
    and all: "list_all2 (\<lambda>k. packet_of seal pk (pkt_sequence pk + of_nat k)) ks ps"
    unfolding numbered_def by blast
  have "map (hdr_sequence \<circ> bytes_header) ps = map (\<lambda>k. pkt_sequence pk + of_nat k) ks"
    using all by (intro nth_equalityI)
      (auto simp: list_all2_conv_all_nth dest: packet_of_sequence)
  moreover have "inj_on (\<lambda>k. pkt_sequence pk + of_nat k) (set ks)"
  proof (rule inj_onI)
    fix a b
    assume "a \<in> set ks" "b \<in> set ks" and "pkt_sequence pk + of_nat a = pkt_sequence pk + of_nat b"
    then have "(of_nat a :: u32) = of_nat b" "a < 4294967296" "b < 4294967296"
      using ks(2) assms(2) by auto
    then show "a = b" by (metis u32_cast_small)
  qed
  moreover have "distinct ks" using ks(1) by (simp add: strict_sorted_iff)
  ultimately show ?thesis by (simp add: distinct_map)
qed

subsection \<open>Properties\<close>

definition demo_packetizer :: "SessionCrypto Packetizer" where
  "demo_packetizer = (Packetizer_new 9)\<lparr>pkt_crypto := Some (SessionCrypto_new\<lparr>txKey := replicate 32 5,
     txSalt := replicate 8 1, hasKeys := True\<rparr>)\<rparr>"

definition demo_ops :: "send_op list" where
  "demo_ops = [SendFrame [1, 2, 3] 1 100 True, SendAudio [4] 2 200, SendFrame [] 3 300 False,
     SendFrame [5] 4 400 False]"

lemma demo_packets: "length (fst (send_all (Encrypt demo_lib) demo_packetizer demo_ops)) = 3"
  by code_simp

text \<open>Size: whatever is sent, every packet fits the 1200 byte limit of the protocol, and
  the receiver's parser accepts its header, with the session id and version of the sender.\<close>

theorem packets_fit_the_mtu:
  assumes "p \<in> set (fst (send_all seal pk ops))"
  shows "length p \<le> VEYRA_MAX_PACKET_SIZE \<and>
    (\<exists>h. DeserializeHeader (Some p) (length p) out = (True, h) \<and> hdr_sessionId h = pkt_sessionId pk)"
  using send_all_packets [OF assms]
  by (auto simp: packet_of_def DeserializeHeader_Some)

theorem packets_fit_the_mtu_witness:
  "length (fst (send_all (Encrypt demo_lib) demo_packetizer demo_ops) ! 1) \<le> 1200"
  using packets_fit_the_mtu [of "fst (send_all (Encrypt demo_lib) demo_packetizer demo_ops) ! 1"
      "Encrypt demo_lib" demo_packetizer demo_ops] demo_packets
  by (simp add: VEYRA_MAX_PACKET_SIZE_def)

text \<open>C10. No plaintext: while a crypto object is armed, every packet is flagged as encrypted and
  its payload is the output of one call of \<open>Encrypt\<close> that succeeded, with the packet's header
  as additional data and its sequence number in the nonce; when sealing fails, nothing is sent.\<close>

theorem armed_sender_sends_only_ciphertext:
  assumes "pkt_crypto pk = Some c" and "p \<in> set (fst (send_all (Encrypt P) pk ops))"
  shows "\<exists>h msg n. p = header_bytes h @ take (n + 16) (snd (Encrypt P c msg n (hdr_sequence h) (header_bytes h))) \<and>
    fst (Encrypt P c msg n (hdr_sequence h) (header_bytes h)) = n + 16 \<and>
    has_flag (hdr_flags h) FLAG_ENCRYPTED"
  using send_all_packets [OF assms(2)] assms(1) by (auto simp: packet_of_def)

theorem armed_sender_sends_only_ciphertext_witness:
  "\<exists>c h msg n. pkt_crypto demo_packetizer = Some c \<and>
     fst (send_all (Encrypt demo_lib) demo_packetizer demo_ops) ! 0 = header_bytes h @
       take (n + 16) (snd (Encrypt demo_lib c msg n (hdr_sequence h) (header_bytes h)))"
proof -
  obtain c where c: "pkt_crypto demo_packetizer = Some c" by (simp add: demo_packetizer_def)
  have "fst (send_all (Encrypt demo_lib) demo_packetizer demo_ops) ! 0 \<in>
      set (fst (send_all (Encrypt demo_lib) demo_packetizer demo_ops))"
    using demo_packets by simp
  from armed_sender_sends_only_ciphertext [OF c this] c show ?thesis by blast
qed

text \<open>C11. Nonces: over any history of video and audio sends that uses at most \<open>2 ^ 32\<close> sequence
  numbers, from any starting number, no two packets carry the same sequence number, hence no
  nonce is used twice under the key.\<close>

theorem nonces_never_repeat:
  assumes "sum_list (map (numbers_used (pkt_crypto pk)) ops) \<le> 2 ^ 32"
  shows "distinct (map (\<lambda>p. BuildNonce c (hdr_sequence (bytes_header p)) True)
    (fst (send_all (Encrypt P) pk ops)))"
proof -
  obtain m where "m \<le> sum_list (map (numbers_used (pkt_crypto pk)) ops)"
    "numbered (Encrypt P) pk m (fst (send_all (Encrypt P) pk ops))"
    using send_all_numbered [of pk ops "Encrypt P"] by blast
  with assms have "distinct (map (hdr_sequence \<circ> bytes_header) (fst (send_all (Encrypt P) pk ops)))"
    by (intro numbered_sequences [of "Encrypt P" pk m]) simp_all
  then show ?thesis by (auto simp: distinct_map inj_on_def BuildNonce_inject)
qed

theorem nonces_never_repeat_witness:
  "distinct (map (\<lambda>p. BuildNonce SessionCrypto_new (hdr_sequence (bytes_header p)) True)
    (fst (send_all (Encrypt demo_lib) demo_packetizer demo_ops)))"
  by (rule nonces_never_repeat)
    (simp add: demo_ops_def demo_packetizer_def fragmentCount_def maxPlaintext_def kAeadTagSize_def wire_simps)

text \<open>The number of packets of a frame in the clear is the number of pieces of 1166 bytes
  modulo \<open>2 ^ 16\<close>: the fragment count is a 16 bit value, so a frame of more than 65535 pieces
  is cut off without an error, and each packet uses one sequence number.\<close>

theorem frame_packet_count:
  assumes "d \<noteq> []" and "pkt_crypto pk = None"
  shows "length (fst (PacketizeFrame seal (Some d) (length d) fid ts k pk)) =
      (length d + 1165) div 1166 mod 65536 \<and>
    pkt_sequence (snd (PacketizeFrame seal (Some d) (length d) fid ts k pk)) =
      pkt_sequence pk + of_nat ((length d + 1165) div 1166 mod 65536)"
proof -
  have one: "length (fst (packetize_fragment seal d (length d) fid ts k fc (nth_state pk i) i)) = 1" for fc i
    using assms(2) by (simp add: packetize_fragment_def Let_def)
  have "unat (fragmentCount (pkt_crypto pk) (length d)) = (length d + 1165) div 1166 mod 65536"
    using assms(2) by (simp add: fragmentCount_def maxPlaintext_def unsigned_of_nat take_bit_eq_mod wire_simps
        add.commute [of "length d"])
  moreover have "length (fst (PacketizeFrame seal (Some d) (length d) fid ts k pk)) =
        unat (fragmentCount (pkt_crypto pk) (length d)) \<and>
      pkt_sequence (snd (PacketizeFrame seal (Some d) (length d) fid ts k pk)) =
        pkt_sequence pk + of_nat (unat (fragmentCount (pkt_crypto pk) (length d)))"
    using assms one
    by (simp add: PacketizeFrame_emits Let_def length_concat comp_def sum_list_triv)
  ultimately show ?thesis by (simp only:)
qed

theorem frame_packet_count_witness:
  "length (fst (PacketizeFrame (Encrypt demo_lib) (Some (replicate 1167 0)) 1167 1 2 True (Packetizer_new 9))) = 2"
  using frame_packet_count [of "replicate 1167 0" "Packetizer_new 9" "Encrypt demo_lib" 1 2 True]
  by (simp add: Packetizer_new_def)

end
