(* ===== verification/Replay.thy ===== *)
theory Replay
  imports Veyra_Prelude
begin

text \<open>
  The sliding window replay filter of \<open>native/core/src/packetizer.cpp\<close>
  (\<open>ReplayFilter::Accept\<close>, 64 packets wide), and the contract the frame reassembler
  relies on: the locale \<open>replay_guard\<close>. The filter keeps one 64 bit bitmap whose
  bit \<open>i\<close> stands for the sequence number \<open>highest - i\<close>; the relation \<open>replay_rel\<close>
  says that the bitmap is exactly the window of the set of numbers accepted so far.
\<close>

subsection \<open>The filter\<close>

definition kWindow :: nat where
  "kWindow = 64"

text \<open>
  The C++ array \<open>bitmap_\<close> has \<open>kWindow / 64 + 1 = 2\<close> words; only the first is used.
\<close>

record ReplayFilter =
  highest :: u32
  seenAny :: bool
  bitmap0 :: u64
  bitmap1 :: u64

definition ReplayFilter_init :: ReplayFilter where
  "ReplayFilter_init = \<lparr>highest = 0, seenAny = False, bitmap0 = 0, bitmap1 = 0\<rparr>"

definition Accept :: "ReplayFilter \<Rightarrow> u32 \<Rightarrow> bool \<times> ReplayFilter" where
  "Accept f sequence =
     (if \<not> seenAny f then
        (True, f\<lparr>seenAny := True, highest := sequence, bitmap0 := 1\<rparr>)
      else if highest f < sequence then
        (let advance = sequence - highest f;
             bm = (if kWindow \<le> unat advance then 1
                   else push_bit (unat advance) (bitmap0 f) OR 1)
         in (True, f\<lparr>bitmap0 := bm, highest := sequence\<rparr>))
      else
        (let behind = highest f - sequence in
         if kWindow \<le> unat behind then (False, f)
         else
           (let b = push_bit (unat behind) (1 :: u64) in
            if bitmap0 f AND b \<noteq> 0 then (False, f)
            else (True, f\<lparr>bitmap0 := bitmap0 f OR b\<rparr>))))"

text \<open>
  Feeding packet numbers to a guard in order of arrival: the numbers it accepted, in
  that order, and its final state.
\<close>

fun accept_all :: "('f \<Rightarrow> u32 \<Rightarrow> bool \<times> 'f) \<Rightarrow> 'f \<Rightarrow> u32 list \<Rightarrow> u32 list \<times> 'f" where
  "accept_all acc f [] = ([], f)"
| "accept_all acc f (x # xs) =
     (let (ok, f') = acc f x; (ys, f'') = accept_all acc f' xs
      in (if ok then x # ys else ys, f''))"

subsection \<open>The contract of a replay guard\<close>

text \<open>
  \<open>rel f S\<close>: the state \<open>f\<close> has accepted exactly the numbers in \<open>S\<close>. The client
  relies on one law: what was accepted once is never accepted again.
\<close>

locale replay_guard =
  fixes start :: 'f
    and acc :: "'f \<Rightarrow> u32 \<Rightarrow> bool \<times> 'f"
    and rel :: "'f \<Rightarrow> u32 set \<Rightarrow> bool"
  assumes rel_start: "rel start {}"
    and rel_accept: "rel f S \<Longrightarrow> acc f x = (True, f') \<Longrightarrow> rel f' (insert x S)"
    and rel_reject: "rel f S \<Longrightarrow> acc f x = (False, f') \<Longrightarrow> f' = f"
    and accept_fresh: "rel f S \<Longrightarrow> acc f x = (True, f') \<Longrightarrow> x \<notin> S"
begin

lemma rel_step: "rel f S \<Longrightarrow> acc f x = (b, f') \<Longrightarrow> rel f' (if b then insert x S else S)"
  using rel_accept [of f S x f'] rel_reject [of f S x f'] by (cases b) auto

lemma replayed_rejected: "rel f S \<Longrightarrow> x \<in> S \<Longrightarrow> acc f x = (False, f)"
  using accept_fresh [of f S x "snd (acc f x)"] rel_reject [of f S x "snd (acc f x)"]
  by (cases "acc f x") auto

lemma accepted_run_fresh:
  "rel f S \<Longrightarrow> accept_all acc f xs = (ys, g) \<Longrightarrow>
     distinct ys \<and> set ys \<inter> S = {} \<and> rel g (S \<union> set ys)"
proof (induction xs arbitrary: f S ys)
  case Nil
  then show ?case by simp
next
  case (Cons x xs)
  obtain ok f' where a: "acc f x = (ok, f')" by (cases "acc f x")
  obtain zs where r: "accept_all acc f' xs = (zs, g)" and ys: "ys = (if ok then x # zs else zs)"
    using Cons.prems(2) a by (auto split: prod.splits)
  have "rel f' (if ok then insert x S else S)" using Cons.prems(1) a by (rule rel_step)
  from Cons.IH [OF this r] show ?case
    using ys accept_fresh [OF Cons.prems(1), of x f'] a by (cases ok) auto
qed

end

subsection \<open>The filter keeps the window of the accepted set\<close>

definition replay_rel :: "ReplayFilter \<Rightarrow> u32 set \<Rightarrow> bool" where
  "replay_rel f S \<longleftrightarrow>
     (if seenAny f then
        highest f \<in> S \<and> (\<forall>x \<in> S. x \<le> highest f) \<and>
        (\<forall>i < 64. bit (bitmap0 f) i \<longleftrightarrow> i \<le> unat (highest f) \<and> highest f - of_nat i \<in> S)
      else S = {})"

lemma back_eq_iff:
  "i < 4294967296 \<Longrightarrow> h - of_nat i = (x :: u32) \<longleftrightarrow> i = unat (h - x)"
proof -
  assume i: "i < 4294967296"
  have "h - of_nat i = x \<longleftrightarrow> of_nat i = h - x" by (auto simp: algebra_simps)
  also have "\<dots> \<longleftrightarrow> unat (of_nat i :: u32) = unat (h - x)" by (simp only: word_unat_eq_iff)
  finally show ?thesis using i by (simp add: u32_cast_small)
qed

lemma back_unat: "i \<le> unat (h :: u32) \<Longrightarrow> unat (h - of_nat i) = unat h - i"
proof -
  assume i: "i \<le> unat h"
  then have "unat (of_nat i :: u32) = i" using u32_unat_bound [of h] by (simp add: u32_cast_small)
  moreover from this i have "of_nat i \<le> h" by (simp add: word_le_nat_alt)
  ultimately show ?thesis by (simp add: word_diff_unat)
qed

lemma back_shift:
  "h \<le> (x :: u32) \<Longrightarrow> unat (x - h) \<le> i \<Longrightarrow>
     h - of_nat (i - unat (x - h)) = x - of_nat i"
  by (simp add: of_nat_diff)

text \<open>Numbers strictly between the old and the new highest were never seen.\<close>

lemma not_seen_above:
  "\<forall>y \<in> S. y \<le> (h :: u32) \<Longrightarrow> i \<le> unat x \<Longrightarrow> unat h < unat x - i \<Longrightarrow> x - of_nat i \<notin> S"
  using back_unat [of i x] by (fastforce simp: word_le_nat_alt)

lemma Accept_first:
  "replay_rel f S \<Longrightarrow> \<not> seenAny f \<Longrightarrow>
     fst (Accept f x) \<and> replay_rel (snd (Accept f x)) {x}"
  by (auto simp: Accept_def replay_rel_def back_eq_iff bit_1_iff)

lemma advance_window:
  assumes S: "\<forall>y \<in> S. y \<le> h"
    and bits: "\<forall>i < 64. bit bm i \<longleftrightarrow> i \<le> unat h \<and> h - of_nat i \<in> S"
    and x: "h < (x :: u32)" and i: "i < 64"
  shows "bit (if 64 \<le> unat (x - h) then 1 else push_bit (unat (x - h)) bm OR 1 :: u64) i \<longleftrightarrow>
     i \<le> unat x \<and> x - of_nat i \<in> insert x S"
proof -
  let ?d = "unat (x - h)"
  have d: "?d = unat x - unat h" "unat h < unat x" "0 < ?d"
    using x by (auto simp: word_less_nat_alt word_diff_unat word_le_nat_alt)
  have self: "x - of_nat i = x \<longleftrightarrow> i = 0" using i by (auto simp: back_eq_iff)
  have gap: "x - of_nat i \<notin> S" if "i < ?d" "i \<le> unat x"
    using not_seen_above [OF S that(2)] that(1) d by simp
  show ?thesis
  proof (cases "?d \<le> i")
    case True
    with d i have "bit bm (i - ?d) \<longleftrightarrow> i - ?d \<le> unat h \<and> x - of_nat i \<in> S"
      using bits back_shift [of h x i] x by (auto simp: order.strict_implies_order)
    moreover have "i - ?d \<le> unat h \<longleftrightarrow> i \<le> unat x" using True d by linarith
    moreover have "i \<noteq> 0" using True d by linarith
    ultimately show ?thesis using True i self
      by (auto simp: bit_or_iff bit_push_bit_iff bit_1_iff)
  next
    case False
    then show ?thesis using gap self i d
      by (auto simp: bit_or_iff bit_push_bit_iff bit_1_iff)
  qed
qed

lemma Accept_advance:
  assumes "replay_rel f S" "seenAny f" "highest f < x"
  shows "fst (Accept f x) \<and> x \<notin> S \<and> replay_rel (snd (Accept f x)) (insert x S)"
proof -
  from assms have S: "\<forall>y \<in> S. y \<le> highest f"
    and bits: "\<forall>i < 64. bit (bitmap0 f) i \<longleftrightarrow> i \<le> unat (highest f) \<and> highest f - of_nat i \<in> S"
    by (auto simp: replay_rel_def)
  have "\<forall>y \<in> insert x S. y \<le> x" using S assms(3) by force
  moreover have "x \<notin> S" using S assms(3) by force
  ultimately show ?thesis
    using assms advance_window [OF S bits assms(3)]
    by (simp add: Accept_def replay_rel_def Let_def kWindow_def)
qed

lemma bit_test_iff: "(b AND (2 :: u64) ^ n \<noteq> 0) \<longleftrightarrow> n < 64 \<and> bit b n"
proof -
  have "b AND 2 ^ n = (if n < 64 \<and> bit b n then 2 ^ n else 0)"
    by (rule bit_word_eqI) (auto simp: bit_and_iff bit_exp_iff)
  moreover have "n < 64 \<Longrightarrow> bit ((2 :: u64) ^ n) n" by (simp add: bit_exp_iff)
  then have "n < 64 \<Longrightarrow> (2 :: u64) ^ n \<noteq> 0" by (metis bit_0_eq bot_apply bot_bool_def)
  ultimately show ?thesis by auto
qed

lemma Accept_behind:
  assumes rel: "replay_rel f S" "seenAny f" and le: "\<not> highest f < x"
  shows "fst (Accept f x) \<longleftrightarrow> unat (highest f - x) < 64 \<and> x \<notin> S"
    and "replay_rel (snd (Accept f x)) (if fst (Accept f x) then insert x S else S)"
    and "\<not> fst (Accept f x) \<longrightarrow> snd (Accept f x) = f"
proof -
  let ?n = "unat (highest f - x)"
  have d: "?n = unat (highest f) - unat x" using le by (simp add: word_diff_unat)
  have le': "x \<le> highest f" using le by simp
  have d': "?n \<le> unat (highest f)" by (simp add: d)
  have e: "highest f - of_nat (unat (highest f) - unat x) = x"
    unfolding d [symmetric] by simp
  have bit: "?n < 64 \<Longrightarrow> bit (bitmap0 f) ?n \<longleftrightarrow> x \<in> S"
    using rel d e by (simp add: replay_rel_def)
  show acc: "fst (Accept f x) \<longleftrightarrow> ?n < 64 \<and> x \<notin> S"
    using rel le bit by (auto simp: Accept_def Let_def bit_test_iff kWindow_def)
  show "replay_rel (snd (Accept f x)) (if fst (Accept f x) then insert x S else S)"
    using rel le bit le' d'
    by (auto simp: acc)
      (auto simp: Accept_def Let_def bit_test_iff kWindow_def replay_rel_def bit_simps
        back_eq_iff)
  show "\<not> fst (Accept f x) \<longrightarrow> snd (Accept f x) = f"
    using rel le by (auto simp: Accept_def Let_def)
qed

lemma Accept_cases:
  assumes rel: "replay_rel f S"
  shows "(fst (Accept f x) \<longrightarrow> x \<notin> S) \<and>
    replay_rel (snd (Accept f x)) (if fst (Accept f x) then insert x S else S) \<and>
    (\<not> fst (Accept f x) \<longrightarrow> snd (Accept f x) = f)"
proof (cases "seenAny f")
  case False
  with Accept_first [OF rel, of x] show ?thesis using rel by (auto simp: replay_rel_def [of f])
next
  case seen: True
  show ?thesis
  proof (cases "highest f < x")
    case True
    with Accept_advance [OF rel seen] show ?thesis by auto
  next
    case False
    with Accept_behind [OF rel seen] show ?thesis by auto
  qed
qed

lemma Accept_iff:
  assumes rel: "replay_rel f S"
  shows "fst (Accept f x) \<longleftrightarrow> x \<notin> S \<and> (\<forall>y \<in> S. unat y < unat x + 64)"
proof (cases "seenAny f")
  case False
  with Accept_first [OF rel, of x] show ?thesis using rel by (auto simp: replay_rel_def [of f])
next
  case seen: True
  then have S: "highest f \<in> S" "\<forall>y \<in> S. unat y \<le> unat (highest f)"
    using rel by (auto simp: replay_rel_def word_le_nat_alt)
  show ?thesis
  proof (cases "highest f < x")
    case True
    then have "unat (highest f) < unat x" by (simp add: word_less_nat_alt)
    with S have "\<forall>y \<in> S. unat y < unat x + 64" by fastforce
    with Accept_advance [OF rel seen True] show ?thesis by auto
  next
    case False
    then have le: "x \<le> highest f" by simp
    then have d: "unat (highest f - x) = unat (highest f) - unat x" by (rule word_diff_unat)
    have "unat x \<le> unat (highest f)" using le by (simp add: word_le_nat_alt)
    have "(\<forall>y \<in> S. unat y < unat x + 64) \<longleftrightarrow> unat (highest f) < unat x + 64"
      using S by fastforce
    with d show ?thesis using Accept_behind(1) [OF rel seen False] by auto
  qed
qed

interpretation replay: replay_guard ReplayFilter_init Accept replay_rel
proof unfold_locales
  show "replay_rel ReplayFilter_init {}"
    by (simp add: replay_rel_def ReplayFilter_init_def)
next
  fix f S x f'
  assume "replay_rel f S" and "Accept f x = (True, f')"
  with Accept_cases [of f S x] show "replay_rel f' (insert x S)" and "x \<notin> S" by auto
next
  fix f S x f'
  assume "replay_rel f S" and "Accept f x = (False, f')"
  with Accept_cases [of f S x] show "f' = f" by auto
qed

lemma rejected_forever:
  assumes rel: "replay_rel f S" and "\<not> fst (Accept f x)"
  shows "\<not> fst (Accept (snd (Accept f y)) x)"
  using assms(2) Accept_iff [OF rel] Accept_iff [OF replay.rel_step [OF rel prod.collapse [symmetric]], of y x]
  by (auto split: if_splits)

lemma accepted_then_rejected:
  assumes rel: "replay_rel f S"
  shows "\<not> fst (Accept (snd (Accept f x)) x)"
  using Accept_iff [OF rel] Accept_iff [OF replay.rel_step [OF rel prod.collapse [symmetric]], of x x]
    rejected_forever [OF rel, of x x]
  by (auto split: if_splits)

subsection \<open>Properties\<close>

text \<open>C14. Anti replay: on any sequence of packet numbers, in any order and with any
  duplicates, no number is accepted twice.\<close>

theorem replay_filter_accepts_once:
  "distinct (fst (accept_all Accept ReplayFilter_init xs))"
  using replay.accepted_run_fresh [OF replay.rel_start prod.collapse [symmetric]] by blast

text \<open>C15. Exactness of the 64 packet window: after any history, a number is accepted if
  and only if it was not accepted before and every accepted number is less than 64
  ahead of it. Reordering inside the window loses nothing.\<close>

theorem replay_window_exact:
  "fst (Accept (snd (accept_all Accept ReplayFilter_init xs)) x) \<longleftrightarrow>
     x \<notin> set (fst (accept_all Accept ReplayFilter_init xs)) \<and>
     (\<forall>y \<in> set (fst (accept_all Accept ReplayFilter_init xs)). unat y < unat x + 64)"
  using replay.accepted_run_fresh [OF replay.rel_start prod.collapse [symmetric]] Accept_iff
  by fastforce

theorem replay_window_exact_witness:
  "fst (Accept (snd (accept_all Accept ReplayFilter_init [5, 70, 5])) 7) \<and>
   \<not> fst (Accept (snd (accept_all Accept ReplayFilter_init [5, 70, 5])) 6)"
  unfolding replay_window_exact
  by (simp add: Accept_def ReplayFilter_init_def kWindow_def Let_def)

end
