(* ===== verification/Ordered_Map.thy ===== *)
theory Ordered_Map
  imports Veyra_Prelude
begin

text \<open>
  \<open>std::map\<close> as the list of its entries in iteration order: strictly increasing keys,
  \<open>begin()\<close> is the head, \<open>erase(begin())\<close> the tail, \<open>size()\<close> the length, \<open>find\<close> is
  \<open>map_of\<close>. The locale \<open>keyed_store\<close> is the contract the reassembler and the transport
  manager rely on.
\<close>

type_synonym ('k, 'v) omap = "('k \<times> 'v) list"

fun om_put :: "'k::linorder \<Rightarrow> 'v \<Rightarrow> ('k, 'v) omap \<Rightarrow> ('k, 'v) omap" where
  "om_put k v [] = [(k, v)]"
| "om_put k v ((k', v') # m) =
     (if k < k' then (k, v) # (k', v') # m
      else if k = k' then (k, v) # m
      else (k', v') # om_put k v m)"

definition om_wf :: "('k::linorder, 'v) omap \<Rightarrow> bool" where
  "om_wf m \<longleftrightarrow> sorted_wrt (<) (map fst m)"

text \<open>\<open>while (!m.empty() && m.begin()->first <= k) m.erase(m.begin())\<close>\<close>

fun om_erase_upto :: "'k::linorder \<Rightarrow> ('k, 'v) omap \<Rightarrow> ('k, 'v) omap" where
  "om_erase_upto k [] = []"
| "om_erase_upto k ((k', v) # m) = (if k' \<le> k then om_erase_upto k m else (k', v) # m)"

locale keyed_store =
  fixes empty :: 'm
    and put :: "'k \<Rightarrow> 'v \<Rightarrow> 'm \<Rightarrow> 'm"
    and find :: "'m \<Rightarrow> 'k \<Rightarrow> 'v option"
    and count :: "'m \<Rightarrow> nat"
    and wf :: "'m \<Rightarrow> bool"
  assumes wf_empty: "wf empty"
    and find_empty: "find empty k = None"
    and count_empty: "count empty = 0"
    and wf_put: "wf m \<Longrightarrow> wf (put k v m)"
    and find_put: "wf m \<Longrightarrow> find (put k v m) = (find m)(k \<mapsto> v)"
    and count_put: "wf m \<Longrightarrow> count (put k v m) = (if find m k = None then Suc (count m) else count m)"
begin

lemma find_put_same: "wf m \<Longrightarrow> find (put k v m) k = Some v"
  by (simp add: find_put)

lemma find_put_other: "wf m \<Longrightarrow> k' \<noteq> k \<Longrightarrow> find (put k v m) k' = find m k'"
  by (simp add: find_put)

lemma find_put_cases:
  "wf m \<Longrightarrow> find (put k v m) k' = Some v' \<Longrightarrow> (k' = k \<and> v' = v) \<or> (k' \<noteq> k \<and> find m k' = Some v')"
  by (auto simp: find_put split: if_splits)

text \<open>Storing the values of a function at a list of distinct keys.\<close>

fun put_all :: "('k \<Rightarrow> 'v) \<Rightarrow> 'k list \<Rightarrow> 'm \<Rightarrow> 'm" where
  "put_all g [] m = m"
| "put_all g (k # ks) m = put_all g ks (put k (g k) m)"

lemma put_all_props:
  "wf m \<Longrightarrow> distinct ks \<Longrightarrow> (\<And>k. k \<in> set ks \<Longrightarrow> find m k = None) \<Longrightarrow>
     wf (put_all g ks m) \<and> count (put_all g ks m) = count m + length ks \<and>
     (\<forall>k. find (put_all g ks m) k = (if k \<in> set ks then Some (g k) else find m k))"
proof (induction ks arbitrary: m)
  case Nil
  then show ?case by simp
next
  case (Cons k ks)
  have "find (put k (g k) m) k' = None" if "k' \<in> set ks" for k'
    using that Cons.prems by (auto simp: find_put)
  with Cons show ?case by (auto simp: wf_put count_put find_put)
qed

end

subsection \<open>The list implementation meets the contract\<close>

lemma fst_set_om_put: "fst ` set (om_put k v m) = insert k (fst ` set m)"
  by (induction k v m rule: om_put.induct) (simp_all add: insert_commute)

lemma set_om_put_subset: "set (om_put k v m) \<subseteq> insert (k, v) (set m)"
  by (induction m) (auto split: if_splits)

lemma om_wf_Cons: "om_wf ((k, v) # m) \<longleftrightarrow> (\<forall>k' \<in> fst ` set m. k < k') \<and> om_wf m"
  by (auto simp: om_wf_def)

lemma om_wf_Nil [simp]: "om_wf []"
  by (simp add: om_wf_def)

lemma om_wf_put: "om_wf m \<Longrightarrow> om_wf (om_put k v m)"
  by (induction m) (fastforce simp: om_wf_Cons fst_set_om_put not_less_iff_gr_or_eq intro: less_trans)+

lemma map_of_None_notin: "\<forall>k' \<in> fst ` set m. k < (k' :: 'k::order) \<Longrightarrow> map_of m k = None"
  by (auto simp: map_of_eq_None_iff)

lemma map_of_om_put: "om_wf m \<Longrightarrow> map_of (om_put k v m) = (map_of m)(k \<mapsto> v)"
  by (induction m) (auto simp: om_wf_Cons fun_eq_iff)

lemma length_om_put:
  "om_wf m \<Longrightarrow> length (om_put k v m) = (if map_of m k = None then Suc (length m) else length m)"
proof (induction m)
  case Nil
  then show ?case by simp
next
  case (Cons e m)
  obtain k' v' where e: "e = (k', v')" by (cases e)
  then show ?case using Cons map_of_None_notin [of m k]
    by (auto simp: om_wf_Cons intro: less_trans)
qed

interpretation om: keyed_store "[]" om_put map_of length om_wf
  by unfold_locales (simp_all add: om_wf_put map_of_om_put length_om_put)

lemma om_wf_tl: "om_wf m \<Longrightarrow> om_wf (tl m)"
  by (cases m) (auto simp: om_wf_def)

lemma om_erase_upto_suffix: "set (om_erase_upto k m) \<subseteq> set m" "length (om_erase_upto k m) \<le> length m"
  by (induction k m rule: om_erase_upto.induct) auto

lemma om_wf_erase_upto: "om_wf m \<Longrightarrow> om_wf (om_erase_upto k m)"
  by (induction k m rule: om_erase_upto.induct) (auto simp: om_wf_Cons)

lemma om_erase_upto_keys: "om_wf m \<Longrightarrow> set (om_erase_upto k m) = {e \<in> set m. k < fst e}"
  by (induction k m rule: om_erase_upto.induct) (force simp: om_wf_Cons)+

lemma map_of_in_wf: "om_wf m \<Longrightarrow> (k, v) \<in> set m \<longleftrightarrow> map_of m k = Some v"
  by (simp add: om_wf_def strict_sorted_iff map_of_eq_Some_iff)

end
