(* ===== verification/Reassembler.thy ===== *)
theory Reassembler
  imports Packetizer Replay Ordered_Map
begin

text \<open>
  Class \<open>FrameReassembler\<close> of \<open>native/core/src/packetizer.cpp\<close>: the receiver of media
  packets. \<open>PushPacket\<close> is the composition of three stages of the code: \<open>open_packet\<close>
  (lines before the replay check: header, bounds, stream id, decryption), the replay
  filter, and \<open>deliver\<close> (the part under the mutex: session pinning, keyframe gate,
  stale frames, reassembly). The callbacks are the events of the result.
\<close>

subsection \<open>State\<close>

record PendingFrame =
  pf_frameId :: u32
  pf_timestampUs :: u64
  pf_isKeyframe :: bool
  pf_totalFragments :: u16
  pf_receivedFragments :: u16
  pf_fragments :: "(u16, bytes) omap"

definition PendingFrame_default :: PendingFrame where
  "PendingFrame_default = \<lparr>pf_frameId = 0, pf_timestampUs = 0, pf_isKeyframe = False,
     pf_totalFragments = 0, pf_receivedFragments = 0, pf_fragments = []\<rparr>"

record 'c FrameReassembler =
  ra_onFrameReady :: bool
  ra_onMissingKeyframe :: bool
  ra_pending :: "(u32, PendingFrame) omap"
  ra_lastEmitted :: u32
  ra_waiting :: bool
  ra_crypto :: "'c option"
  ra_sessionLocked :: bool
  ra_expectedSession :: u32
  ra_replay :: ReplayFilter

datatype rx_event = FrameReady VideoFrame | MissingKeyframe u32

definition FrameReassembler_new :: "bool \<Rightarrow> bool \<Rightarrow> 'c FrameReassembler" where
  "FrameReassembler_new onFrameReady onMissingKeyframe = \<lparr>
     ra_onFrameReady = onFrameReady, ra_onMissingKeyframe = onMissingKeyframe,
     ra_pending = [], ra_lastEmitted = 0, ra_waiting = True, ra_crypto = None,
     ra_sessionLocked = False, ra_expectedSession = 0, ra_replay = ReplayFilter_init\<rparr>"

definition ra_SetCrypto :: "'c option \<Rightarrow> 'c FrameReassembler \<Rightarrow> 'c FrameReassembler" where
  "ra_SetCrypto crypto r =
     r\<lparr>ra_crypto := crypto, ra_replay := ReplayFilter_init, ra_sessionLocked := False\<rparr>"

definition SetExpectedSessionId :: "u32 \<Rightarrow> 'c FrameReassembler \<Rightarrow> 'c FrameReassembler" where
  "SetExpectedSessionId sessionId r =
     r\<lparr>ra_expectedSession := sessionId, ra_sessionLocked := True\<rparr>"

definition ra_Reset :: "'c FrameReassembler \<Rightarrow> 'c FrameReassembler" where
  "ra_Reset r = r\<lparr>ra_pending := [], ra_lastEmitted := 0, ra_waiting := True,
     ra_replay := ReplayFilter_init, ra_sessionLocked := False\<rparr>"

subsection \<open>Opening a packet\<close>

definition header_zero :: PacketHeader where
  "header_zero = \<lparr>hdr_magic = 0, hdr_version = 0, hdr_flags = 0, hdr_streamId = 0,
     hdr_sessionId = 0, hdr_frameId = 0, hdr_sequence = 0, hdr_fragmentIndex = 0,
     hdr_fragmentCount = 0, hdr_timestampUs = 0, hdr_payloadLength = 0\<rparr>"

definition open_packet ::
  "('c \<Rightarrow> bytes \<Rightarrow> nat \<Rightarrow> u32 \<Rightarrow> bytes \<Rightarrow> bytes option) \<Rightarrow> 'c option \<Rightarrow> bytes option \<Rightarrow> nat \<Rightarrow>
     (PacketHeader \<times> bytes) option" where
  "open_packet unseal crypto packetData packetLength =
     (case packetData of
        None \<Rightarrow> None
      | Some d \<Rightarrow>
         if packetLength < VEYRA_HEADER_SIZE then None
         else
          (let (ok, header) = DeserializeHeader (Some d) packetLength header_zero;
               payloadLen = unat (hdr_payloadLength header);
               payload = take payloadLen (drop VEYRA_HEADER_SIZE d)
           in if \<not> ok then None
              else if packetLength < VEYRA_HEADER_SIZE + payloadLen then None
              else if hdr_streamId header \<noteq> 0 \<and> hdr_streamId header \<noteq> 1 then None
              else if has_flag (hdr_flags header) FLAG_ENCRYPTED then
                (case crypto of
                   None \<Rightarrow> None
                 | Some c \<Rightarrow>
                    (case unseal c payload payloadLen (hdr_sequence header)
                            (take VEYRA_HEADER_SIZE d) of
                       None \<Rightarrow> None
                     | Some plaintext \<Rightarrow> Some (header, plaintext)))
              else if crypto \<noteq> None then None
              else Some (header, payload)))"

subsection \<open>Delivery under the mutex\<close>

text \<open>The entry \<open>pendingFrames_[header.frameId]\<close>, default constructed when it is new,
  initialised from the header while its \<open>frameId\<close> is zero.\<close>

definition pending_entry :: "PacketHeader \<Rightarrow> (u32, PendingFrame) omap \<Rightarrow> PendingFrame" where
  "pending_entry header m =
     (let p = (case map_of m (hdr_frameId header) of
                 None \<Rightarrow> PendingFrame_default | Some p \<Rightarrow> p)
      in if pf_frameId p = 0 then
           p\<lparr>pf_frameId := hdr_frameId header, pf_timestampUs := hdr_timestampUs header,
             pf_isKeyframe := has_flag (hdr_flags header) FLAG_KEYFRAME,
             pf_totalFragments := hdr_fragmentCount header, pf_receivedFragments := 0\<rparr>
         else p)"

definition add_fragment :: "PacketHeader \<Rightarrow> bytes \<Rightarrow> PendingFrame \<Rightarrow> PendingFrame" where
  "add_fragment header payload p =
     (if map_of (pf_fragments p) (hdr_fragmentIndex header) = None then
        p\<lparr>pf_fragments := om_put (hdr_fragmentIndex header) payload (pf_fragments p),
          pf_receivedFragments := pf_receivedFragments p + 1\<rparr>
      else p)"

definition frame_complete :: "PendingFrame \<Rightarrow> bool" where
  "frame_complete p \<longleftrightarrow>
     pf_receivedFragments p = pf_totalFragments p \<and> 0 < pf_totalFragments p"

definition fragment_at :: "PendingFrame \<Rightarrow> nat \<Rightarrow> bytes" where
  "fragment_at p i = (case map_of (pf_fragments p) (of_nat i) of None \<Rightarrow> [] | Some b \<Rightarrow> b)"

definition assemble :: "PendingFrame \<Rightarrow> VideoFrame" where
  "assemble p = \<lparr>vf_frameId = pf_frameId p, vf_timestampUs = pf_timestampUs p,
     vf_isKeyframe = pf_isKeyframe p,
     vf_data = concat (map (fragment_at p) [0..<unat (pf_totalFragments p)])\<rparr>"

definition trim_pending :: "(u32, PendingFrame) omap \<Rightarrow> (u32, PendingFrame) omap" where
  "trim_pending m = (if 16 < length m then tl m else m)"

definition store_fragment ::
  "PacketHeader \<Rightarrow> bytes \<Rightarrow> 'c FrameReassembler \<Rightarrow> bool \<times> rx_event list \<times> 'c FrameReassembler" where
  "store_fragment header payload r =
     (let pending = add_fragment header payload (pending_entry header (ra_pending r));
          m = om_put (hdr_frameId header) pending (ra_pending r)
      in if frame_complete pending then
           (let frame = assemble pending
            in (True, if ra_onFrameReady r then [FrameReady frame] else [],
                r\<lparr>ra_lastEmitted := vf_frameId frame, ra_waiting := False,
                  ra_pending := om_erase_upto (vf_frameId frame) m\<rparr>))
         else (True, [], r\<lparr>ra_pending := trim_pending m\<rparr>))"

definition stale :: "u32 \<Rightarrow> 'c FrameReassembler \<Rightarrow> bool" where
  "stale frameId r \<longleftrightarrow> \<not> ra_waiting r \<and> frameId \<le> ra_lastEmitted r \<and>
     ra_lastEmitted r - frameId < 0x7FFFFFFF"

definition deliver ::
  "PacketHeader \<Rightarrow> bytes \<Rightarrow> 'c FrameReassembler \<Rightarrow> bool \<times> rx_event list \<times> 'c FrameReassembler" where
  "deliver header payload r =
     (if ra_sessionLocked r \<and> hdr_sessionId header \<noteq> ra_expectedSession r then (False, [], r)
      else
        let r = (if ra_sessionLocked r then r
                 else r\<lparr>ra_expectedSession := hdr_sessionId header, ra_sessionLocked := True\<rparr>)
        in if ra_waiting r \<and> \<not> has_flag (hdr_flags header) FLAG_KEYFRAME then
             (False,
              if ra_onMissingKeyframe r then [MissingKeyframe (hdr_frameId header)] else [], r)
           else if stale (hdr_frameId header) r then (False, [], r)
           else store_fragment header payload r)"

definition PushPacket ::
  "('c \<Rightarrow> bytes \<Rightarrow> nat \<Rightarrow> u32 \<Rightarrow> bytes \<Rightarrow> bytes option) \<Rightarrow> bytes option \<Rightarrow> nat \<Rightarrow>
     'c FrameReassembler \<Rightarrow> bool \<times> rx_event list \<times> 'c FrameReassembler" where
  "PushPacket unseal packetData packetLength r =
     (case open_packet unseal (ra_crypto r) packetData packetLength of
        None \<Rightarrow> (False, [], r)
      | Some (header, payload) \<Rightarrow>
          (let (fresh, f) = Accept (ra_replay r) (hdr_sequence header)
           in if \<not> fresh then (False, [], r\<lparr>ra_replay := f\<rparr>)
              else deliver header payload (r\<lparr>ra_replay := f\<rparr>)))"

text \<open>The receive loop: the events of a list of datagrams.\<close>

definition receive ::
  "('c \<Rightarrow> bytes \<Rightarrow> nat \<Rightarrow> u32 \<Rightarrow> bytes \<Rightarrow> bytes option) \<Rightarrow> 'c FrameReassembler \<Rightarrow> bytes \<Rightarrow>
     rx_event list \<times> 'c FrameReassembler" where
  "receive unseal r d = snd (PushPacket unseal (Some d) (length d) r)"

definition receive_all ::
  "('c \<Rightarrow> bytes \<Rightarrow> nat \<Rightarrow> u32 \<Rightarrow> bytes \<Rightarrow> bytes option) \<Rightarrow> 'c FrameReassembler \<Rightarrow> bytes list \<Rightarrow>
     rx_event list \<times> 'c FrameReassembler" where
  "receive_all unseal = emits (receive unseal)"

end
