(* ===== verification/Reassembly_Safety.thy ===== *)
theory Reassembly_Safety
  imports Reassembler
begin

text \<open>
  Safety of the frame reassembler: the well-formedness invariant of its state over
  every operation (\<open>rx_reachable\<close>), bounded memory, the keyframe gate, order of the
  emitted frames, authenticity of the emitted bytes, replay, downgrade and session
  protection, and two places where the code loses frames.
\<close>

subsection \<open>The invariant\<close>

definition entry_ok :: "bool \<Rightarrow> u32 \<Rightarrow> PendingFrame \<Rightarrow> bool" where
  "entry_ok waiting k p \<longleftrightarrow>
     pf_frameId p = k \<and> om_wf (pf_fragments p) \<and> (waiting \<longrightarrow> pf_isKeyframe p) \<and>
     (k \<noteq> 0 \<longrightarrow> pf_receivedFragments p = of_nat (length (pf_fragments p)) \<and> \<not> frame_complete p)"

definition ra_inv :: "'c FrameReassembler \<Rightarrow> bool" where
  "ra_inv r \<longleftrightarrow>
     om_wf (ra_pending r) \<and> length (ra_pending r) \<le> 16 \<and>
     (\<forall>(k, p) \<in> set (ra_pending r). entry_ok (ra_waiting r) k p) \<and>
     (\<exists>S. replay_rel (ra_replay r) S)"

lemma ra_invD:
  assumes "ra_inv r"
  shows "om_wf (ra_pending r)" "length (ra_pending r) \<le> 16"
    "(k, p) \<in> set (ra_pending r) \<Longrightarrow> entry_ok (ra_waiting r) k p"
    "\<exists>S. replay_rel (ra_replay r) S"
  using assms by (auto simp: ra_inv_def)

lemma entry_ok_weaken: "entry_ok w k p \<Longrightarrow> entry_ok False k p"
  by (auto simp: entry_ok_def)

lemma pending_entry_ok:
  assumes inv: "ra_inv r" and key: "ra_waiting r \<longrightarrow> has_flag (hdr_flags h) FLAG_KEYFRAME"
  shows "pf_frameId (pending_entry h (ra_pending r)) = hdr_frameId h"
    and "om_wf (pf_fragments (pending_entry h (ra_pending r)))"
    and "ra_waiting r \<longrightarrow> pf_isKeyframe (pending_entry h (ra_pending r))"
    and "hdr_frameId h \<noteq> 0 \<longrightarrow> pf_receivedFragments (pending_entry h (ra_pending r)) =
           of_nat (length (pf_fragments (pending_entry h (ra_pending r))))"
proof -
  have "entry_ok (ra_waiting r) (hdr_frameId h) p"
    if "map_of (ra_pending r) (hdr_frameId h) = Some p" for p
    using that inv by (auto intro: ra_invD dest: map_of_SomeD)
  then show "pf_frameId (pending_entry h (ra_pending r)) = hdr_frameId h"
    "om_wf (pf_fragments (pending_entry h (ra_pending r)))"
    "ra_waiting r \<longrightarrow> pf_isKeyframe (pending_entry h (ra_pending r))"
    "hdr_frameId h \<noteq> 0 \<longrightarrow> pf_receivedFragments (pending_entry h (ra_pending r)) =
       of_nat (length (pf_fragments (pending_entry h (ra_pending r))))"
    using key
    by (auto simp: pending_entry_def PendingFrame_default_def entry_ok_def Let_def
        split: option.splits)
qed

lemma add_fragment_simps [simp]:
  "pf_frameId (add_fragment h b p) = pf_frameId p"
  "pf_isKeyframe (add_fragment h b p) = pf_isKeyframe p"
  "pf_timestampUs (add_fragment h b p) = pf_timestampUs p"
  "pf_totalFragments (add_fragment h b p) = pf_totalFragments p"
  by (auto simp: add_fragment_def)

lemma add_fragment_wf: "om_wf (pf_fragments p) \<Longrightarrow> om_wf (pf_fragments (add_fragment h b p))"
  by (simp add: add_fragment_def om.wf_put)

lemma add_fragment_count:
  "om_wf (pf_fragments p) \<Longrightarrow> pf_receivedFragments p = of_nat (length (pf_fragments p)) \<Longrightarrow>
     pf_receivedFragments (add_fragment h b p) = of_nat (length (pf_fragments (add_fragment h b p)))"
  by (simp add: add_fragment_def om.count_put)

lemma assemble_simps [simp]:
  "vf_frameId (assemble p) = pf_frameId p" "vf_isKeyframe (assemble p) = pf_isKeyframe p"
  by (simp_all add: assemble_def)

lemma store_fragment_inv:
  assumes inv: "ra_inv r" and key: "ra_waiting r \<longrightarrow> has_flag (hdr_flags h) FLAG_KEYFRAME"
  shows "ra_inv (snd (snd (store_fragment h b r)))"
proof -
  let ?p = "add_fragment h b (pending_entry h (ra_pending r))"
  let ?m = "om_put (hdr_frameId h) ?p (ra_pending r)"
  note p = pending_entry_ok [OF inv key]
  have wf: "om_wf ?m" using ra_invD [OF inv] by (simp add: om.wf_put)
  have len: "length ?m \<le> 17" using ra_invD [OF inv] by (simp add: om.count_put)
  have mem: "e = (hdr_frameId h, ?p) \<or> e \<in> set (ra_pending r)" if "e \<in> set ?m" for e
    using that set_om_put_subset by fastforce
  show ?thesis
  proof (cases "frame_complete ?p")
    case True
    have "entry_ok False k q" if "(k, q) \<in> set (om_erase_upto (hdr_frameId h) ?m)" for k q
      using that mem [of "(k, q)"] wf ra_invD(3) [OF inv, of k q]
      by (auto simp: om_erase_upto_keys intro: entry_ok_weaken)
    moreover have "length (om_erase_upto (hdr_frameId h) ?m) \<le> 16"
    proof -
      have "(hdr_frameId h, ?p) \<notin> set (om_erase_upto (hdr_frameId h) ?m)"
        using wf by (simp add: om_erase_upto_keys)
      then have "set (om_erase_upto (hdr_frameId h) ?m) \<subseteq> set (ra_pending r)"
        using mem om_erase_upto_suffix(1) by blast
      moreover have "distinct (om_erase_upto (hdr_frameId h) ?m)"
        using om_wf_erase_upto [OF wf] by (metis distinct_map om_wf_def strict_sorted_iff)
      ultimately have "length (om_erase_upto (hdr_frameId h) ?m) \<le> length (ra_pending r)"
        by (metis card_mono card_length distinct_card le_trans List.finite_set)
      then show ?thesis using ra_invD(2) [OF inv] by linarith
    qed
    ultimately show ?thesis
      using True wf p(1) ra_invD(4) [OF inv]
      by (auto simp: store_fragment_def Let_def ra_inv_def om_wf_erase_upto)
  next
    case False
    have "entry_ok (ra_waiting r) k q" if "(k, q) \<in> set ?m" for k q
      using mem [OF that] ra_invD(3) [OF inv] p False
      by (auto simp: entry_ok_def add_fragment_wf add_fragment_count)
    moreover have "set (trim_pending ?m) \<subseteq> set ?m" "length (trim_pending ?m) \<le> 16"
      "om_wf (trim_pending ?m)"
      using len wf by (auto simp: trim_pending_def om_wf_tl dest: list.set_sel(2))
        (metis list.set_sel(2) list.size(3) not_less_zero)
    ultimately show ?thesis
      using False ra_invD(4) [OF inv]
      by (auto simp: store_fragment_def Let_def ra_inv_def)
  qed
qed

subsection \<open>Every operation keeps the invariant\<close>

definition pinned :: "PacketHeader \<Rightarrow> 'c FrameReassembler \<Rightarrow> 'c FrameReassembler" where
  "pinned h r = (if ra_sessionLocked r then r
     else r\<lparr>ra_expectedSession := hdr_sessionId h, ra_sessionLocked := True\<rparr>)"

lemma pinned_simps [simp]:
  "ra_pending (pinned h r) = ra_pending r" "ra_waiting (pinned h r) = ra_waiting r"
  "ra_lastEmitted (pinned h r) = ra_lastEmitted r" "ra_replay (pinned h r) = ra_replay r"
  "ra_crypto (pinned h r) = ra_crypto r" "ra_onFrameReady (pinned h r) = ra_onFrameReady r"
  "stale fid (pinned h r) = stale fid r" "ra_sessionLocked (pinned h r)"
  by (simp_all add: pinned_def stale_def)

lemma ra_inv_pinned [simp]: "ra_inv (pinned h r) = ra_inv r"
  by (simp add: ra_inv_def)

text \<open>The five ways a delivery can go.\<close>

lemma deliver_cases:
  obtains (foreign) "ra_sessionLocked r" "hdr_sessionId h \<noteq> ra_expectedSession r"
      "deliver h b r = (False, [], r)"
  | (waits) "ra_waiting r" "\<not> has_flag (hdr_flags h) FLAG_KEYFRAME"
      "deliver h b r = (False,
         if ra_onMissingKeyframe r then [MissingKeyframe (hdr_frameId h)] else [], pinned h r)"
  | (old) "stale (hdr_frameId h) r" "deliver h b r = (False, [], pinned h r)"
  | (stored) "ra_sessionLocked r \<longrightarrow> hdr_sessionId h = ra_expectedSession r"
      "ra_waiting r \<longrightarrow> has_flag (hdr_flags h) FLAG_KEYFRAME" "\<not> stale (hdr_frameId h) r"
      "deliver h b r = store_fragment h b (pinned h r)"
proof -
  have "deliver h b r =
    (if ra_sessionLocked r \<and> hdr_sessionId h \<noteq> ra_expectedSession r then (False, [], r)
     else if ra_waiting r \<and> \<not> has_flag (hdr_flags h) FLAG_KEYFRAME then
       (False, if ra_onMissingKeyframe r then [MissingKeyframe (hdr_frameId h)] else [], pinned h r)
     else if stale (hdr_frameId h) r then (False, [], pinned h r)
     else store_fragment h b (pinned h r))"
    by (auto simp: deliver_def pinned_def stale_def)
  then show thesis using that by (auto split: if_splits)
qed

lemma deliver_inv: "ra_inv r \<Longrightarrow> ra_inv (snd (snd (deliver h b r)))"
  by (cases rule: deliver_cases [of r h b]) (simp_all add: store_fragment_inv)

text \<open>The two ways a packet can go: it changes nothing but the replay filter, or it is fresh.\<close>

lemma PushPacket_cases:
  obtains (dropped) "open_packet unseal (ra_crypto r) d n = None"
      "PushPacket unseal d n r = (False, [], r)"
  | (replayed) h b where "open_packet unseal (ra_crypto r) d n = Some (h, b)"
      "\<not> fst (Accept (ra_replay r) (hdr_sequence h))"
      "PushPacket unseal d n r =
         (False, [], r\<lparr>ra_replay := snd (Accept (ra_replay r) (hdr_sequence h))\<rparr>)"
  | (fresh) h b where "open_packet unseal (ra_crypto r) d n = Some (h, b)"
      "fst (Accept (ra_replay r) (hdr_sequence h))"
      "PushPacket unseal d n r =
         deliver h b (r\<lparr>ra_replay := snd (Accept (ra_replay r) (hdr_sequence h))\<rparr>)"
  by (cases "open_packet unseal (ra_crypto r) d n") (auto simp: PushPacket_def split_beta Let_def)

lemma ra_inv_replay:
  "ra_inv r \<Longrightarrow> ra_inv (r\<lparr>ra_replay := snd (Accept (ra_replay r) x)\<rparr>)"
  unfolding ra_inv_def using replay.rel_step [OF _ prod.collapse [symmetric]] by fastforce

lemma PushPacket_inv: "ra_inv r \<Longrightarrow> ra_inv (snd (snd (PushPacket unseal d n r)))"
  by (cases rule: PushPacket_cases [of unseal r d n]) (simp_all add: ra_inv_replay deliver_inv)

inductive rx_reachable ::
  "('c \<Rightarrow> bytes \<Rightarrow> nat \<Rightarrow> u32 \<Rightarrow> bytes \<Rightarrow> bytes option) \<Rightarrow> 'c FrameReassembler \<Rightarrow> bool"
  for unseal where
  created: "rx_reachable unseal (FrameReassembler_new f m)"
| pushed: "rx_reachable unseal r \<Longrightarrow> rx_reachable unseal (snd (snd (PushPacket unseal d n r)))"
| armed: "rx_reachable unseal r \<Longrightarrow> rx_reachable unseal (ra_SetCrypto c r)"
| session_set: "rx_reachable unseal r \<Longrightarrow> rx_reachable unseal (SetExpectedSessionId s r)"
| reset: "rx_reachable unseal r \<Longrightarrow> rx_reachable unseal (ra_Reset r)"

lemma rx_reachable_inv: "rx_reachable unseal r \<Longrightarrow> ra_inv r"
proof (induction rule: rx_reachable.induct)
  case (created f m)
  then show ?case using replay.rel_start by (auto simp: ra_inv_def FrameReassembler_new_def)
next
  case (pushed r d n)
  then show ?case by (simp add: PushPacket_inv)
next
  case (armed r c)
  then show ?case using replay.rel_start by (auto simp: ra_inv_def ra_SetCrypto_def)
next
  case (session_set r s)
  then show ?case by (auto simp: ra_inv_def SetExpectedSessionId_def)
next
  case (reset r)
  then show ?case using replay.rel_start by (auto simp: ra_inv_def ra_Reset_def)
qed

lemma receive_simps:
  "snd (receive unseal r d) = snd (snd (PushPacket unseal (Some d) (length d) r))"
  "fst (receive unseal r d) = fst (snd (PushPacket unseal (Some d) (length d) r))"
  by (simp_all add: receive_def)

lemma receive_all_inv: "ra_inv r \<Longrightarrow> ra_inv (snd (receive_all unseal r ds))"
  unfolding receive_all_def by (rule emits_invariant) (simp_all add: receive_simps PushPacket_inv)

subsection \<open>What an emitted frame tells\<close>

lemma store_fragment_emits:
  "FrameReady f \<in> set (fst (snd (store_fragment h b r))) \<Longrightarrow>
     (\<exists>p. p = add_fragment h b (pending_entry h (ra_pending r)) \<and> frame_complete p \<and>
        f = assemble p \<and> ra_lastEmitted (snd (snd (store_fragment h b r))) = vf_frameId f \<and>
        \<not> ra_waiting (snd (snd (store_fragment h b r))))"
  by (auto simp: store_fragment_def Let_def split: if_splits)

lemma PushPacket_emits:
  assumes "FrameReady f \<in> set (fst (snd (PushPacket unseal d n r)))"
  obtains h b p where "open_packet unseal (ra_crypto r) d n = Some (h, b)"
    "p = add_fragment h b (pending_entry h (ra_pending r))" "frame_complete p" "f = assemble p"
    "ra_waiting r \<longrightarrow> has_flag (hdr_flags h) FLAG_KEYFRAME" "\<not> stale (hdr_frameId h) r"
    "ra_lastEmitted (snd (snd (PushPacket unseal d n r))) = vf_frameId f"
    "\<not> ra_waiting (snd (snd (PushPacket unseal d n r)))"
proof (cases rule: PushPacket_cases [of unseal r d n])
  case (fresh h b)
  let ?r = "r\<lparr>ra_replay := snd (Accept (ra_replay r) (hdr_sequence h))\<rparr>"
  have e: "FrameReady f \<in> set (fst (snd (deliver h b ?r)))" using assms fresh by simp
  show thesis
  proof (cases rule: deliver_cases [of ?r h b])
    case stored
    with e fresh show thesis
      using store_fragment_emits [of f h b "pinned h ?r"] by (auto simp: stale_def intro!: that)
  qed (use e in \<open>auto split: if_splits\<close>)
qed (use assms in auto)

lemma PushPacket_crypto [simp]: "ra_crypto (snd (snd (PushPacket unseal d n r))) = ra_crypto r"
proof (cases rule: PushPacket_cases [of unseal r d n])
  case (fresh h b)
  then show ?thesis
    by (cases rule: deliver_cases
        [of "r\<lparr>ra_replay := snd (Accept (ra_replay r) (hdr_sequence h))\<rparr>" h b])
      (simp_all add: store_fragment_def Let_def)
qed simp_all

lemma PushPacket_replay:
  "ra_replay (snd (snd (PushPacket unseal d n r))) = ra_replay r \<or>
     (\<exists>x. ra_replay (snd (snd (PushPacket unseal d n r))) = snd (Accept (ra_replay r) x))"
proof (cases rule: PushPacket_cases [of unseal r d n])
  case (fresh h b)
  then show ?thesis
    by (cases rule: deliver_cases
        [of "r\<lparr>ra_replay := snd (Accept (ra_replay r) (hdr_sequence h))\<rparr>" h b])
      (auto simp: store_fragment_def Let_def)
qed auto

subsection \<open>Authenticated packets\<close>

text \<open>
  The datagram \<open>d\<close> is a well formed packet whose header is \<open>h\<close> and whose payload opens,
  under the armed key and with the header as additional data, to \<open>b\<close>.
\<close>

definition authentic ::
  "('c \<Rightarrow> bytes \<Rightarrow> nat \<Rightarrow> u32 \<Rightarrow> bytes \<Rightarrow> bytes option) \<Rightarrow> 'c \<Rightarrow> bytes \<Rightarrow> PacketHeader \<Rightarrow> bytes \<Rightarrow> bool" where
  "authentic unseal c d h b \<longleftrightarrow>
     h = bytes_header d \<and> valid_header h \<and> has_flag (hdr_flags h) FLAG_ENCRYPTED \<and>
     34 + unat (hdr_payloadLength h) \<le> length d \<and>
     unseal c (take (unat (hdr_payloadLength h)) (drop 34 d)) (unat (hdr_payloadLength h))
       (hdr_sequence h) (take 34 d) = Some b"

lemma open_packet_armed:
  "open_packet unseal (Some c) (Some d) (length d) = Some (h, b) \<Longrightarrow> authentic unseal c d h b"
  by (auto simp: open_packet_def DeserializeHeader_Some authentic_def wire_simps Let_def
      split: if_splits option.splits)

text \<open>
  Every fragment in the state was delivered by an authentic datagram of the session, except in the frames
  \<open>old\<close>, which were begun before the key was armed.
\<close>

definition delivered ::
  "('c \<Rightarrow> bytes \<Rightarrow> nat \<Rightarrow> u32 \<Rightarrow> bytes \<Rightarrow> bytes option) \<Rightarrow> 'c \<Rightarrow> u32 \<Rightarrow> bytes list \<Rightarrow>
     u32 \<Rightarrow> u16 \<Rightarrow> bytes \<Rightarrow> bool" where
  "delivered unseal c s ds fid i b \<longleftrightarrow>
     (\<exists>d \<in> set ds. \<exists>h. authentic unseal c d h b \<and> hdr_sessionId h = s \<and>
        hdr_frameId h = fid \<and> hdr_fragmentIndex h = i)"

definition only_delivered ::
  "('c \<Rightarrow> bytes \<Rightarrow> nat \<Rightarrow> u32 \<Rightarrow> bytes \<Rightarrow> bytes option) \<Rightarrow> 'c \<Rightarrow> u32 \<Rightarrow> u32 list \<Rightarrow> bytes list \<Rightarrow>
     'c FrameReassembler \<Rightarrow> bool" where
  "only_delivered unseal c s old ds r \<longleftrightarrow>
     ra_inv r \<and> ra_crypto r = Some c \<and> ra_sessionLocked r \<and> ra_expectedSession r = s \<and>
     (\<forall>(k, p) \<in> set (ra_pending r). k \<in> set old \<or>
        (\<forall>(i, b) \<in> set (pf_fragments p). delivered unseal c s ds k i b))"

lemma only_delivered_armed:
  assumes "rx_reachable unseal r"
  shows "only_delivered unseal c s (map fst (ra_pending r)) ds (SetExpectedSessionId s (ra_SetCrypto (Some c) r))"
proof -
  have "rx_reachable unseal (SetExpectedSessionId s (ra_SetCrypto (Some c) r))"
    by (intro rx_reachable.intros assms)
  then show ?thesis
    by (force simp: only_delivered_def rx_reachable_inv SetExpectedSessionId_def ra_SetCrypto_def)
qed

lemma store_fragment_pending:
  "(k, p) \<in> set (ra_pending (snd (snd (store_fragment h b r)))) \<Longrightarrow>
     (k, p) \<in> set (ra_pending r) \<or>
     (k = hdr_frameId h \<and> p = add_fragment h b (pending_entry h (ra_pending r)))"
proof -
  let ?m = "om_put (hdr_frameId h) (add_fragment h b (pending_entry h (ra_pending r))) (ra_pending r)"
  assume "(k, p) \<in> set (ra_pending (snd (snd (store_fragment h b r))))"
  then have "(k, p) \<in> set ?m"
    using om_erase_upto_suffix(1) list.set_sel(2) [of ?m]
    by (fastforce simp: store_fragment_def trim_pending_def Let_def split: if_splits)
  then show ?thesis using set_om_put_subset by fastforce
qed

lemma new_fragments:
  "(i, x) \<in> set (pf_fragments (add_fragment h b (pending_entry h m))) \<Longrightarrow>
     (i = hdr_fragmentIndex h \<and> x = b) \<or>
     (\<exists>p. (hdr_frameId h, p) \<in> set m \<and> (i, x) \<in> set (pf_fragments p))"
  using set_om_put_subset [of "hdr_fragmentIndex h" b "pf_fragments (pending_entry h m)"]
  by (fastforce simp: add_fragment_def pending_entry_def PendingFrame_default_def Let_def
      dest: map_of_SomeD split: if_splits option.splits)

lemma fragment_at_cases:
  "fragment_at p i = [] \<or> (of_nat i, fragment_at p i) \<in> set (pf_fragments p)"
  by (auto simp: fragment_at_def dest: map_of_SomeD split: option.splits)

definition assembled_from :: "(u16 \<Rightarrow> bytes \<Rightarrow> bool) \<Rightarrow> bytes \<Rightarrow> bool" where
  "assembled_from D data \<longleftrightarrow>
     (\<exists>parts. data = concat parts \<and> (\<forall>i < length parts. parts ! i = [] \<or> D (of_nat i) (parts ! i)))"

lemma assemble_from:
  "(\<And>i b. (i, b) \<in> set (pf_fragments p) \<Longrightarrow> D i b) \<Longrightarrow> assembled_from D (vf_data (assemble p))"
  unfolding assembled_from_def assemble_def using fragment_at_cases [of p]
  by (intro exI [of _ "map (fragment_at p) [0..<unat (pf_totalFragments p)]"]) force

lemma only_delivered_step:
  assumes K: "only_delivered unseal c s old ds r" and d: "d \<in> set ds"
  shows "only_delivered unseal c s old ds (snd (receive unseal r d)) \<and>
    (\<forall>e \<in> set (fst (receive unseal r d)). \<forall>f. e = FrameReady f \<longrightarrow> vf_frameId f \<in> set old \<or>
       assembled_from (delivered unseal c s ds (vf_frameId f)) (vf_data f))"
proof (cases rule: PushPacket_cases [of unseal r "Some d" "length d"])
  case dropped
  then show ?thesis using K by (simp add: receive_simps)
next
  case (replayed h b)
  then show ?thesis using K by (simp add: receive_simps only_delivered_def ra_inv_replay)
next
  case (fresh h b)
  let ?r = "r\<lparr>ra_replay := snd (Accept (ra_replay r) (hdr_sequence h))\<rparr>"
  have K': "only_delivered unseal c s old ds ?r" using K by (simp add: only_delivered_def ra_inv_replay)
  have auth: "authentic unseal c d h b"
    using fresh(1) K by (simp add: only_delivered_def open_packet_armed)
  show ?thesis
  proof (cases rule: deliver_cases [of ?r h b])
    case stored
    have same: "pinned h ?r = ?r" using K by (simp add: pinned_def only_delivered_def)
    let ?p = "add_fragment h b (pending_entry h (ra_pending r))"
    have frag: "delivered unseal c s ds (hdr_frameId h) i x"
      if "(i, x) \<in> set (pf_fragments ?p)" "hdr_frameId h \<notin> set old" for i x
      using new_fragments [OF that(1)] that(2) K auth d stored(1)
      by (fastforce simp: only_delivered_def delivered_def)
    have inv: "ra_inv (snd (snd (store_fragment h b ?r)))"
      using K' stored(2) by (simp add: only_delivered_def store_fragment_inv)
    have "only_delivered unseal c s old ds (snd (snd (store_fragment h b ?r)))"
    proof -
      have "delivered unseal c s ds k i x"
        if "(k, p) \<in> set (ra_pending (snd (snd (store_fragment h b ?r))))"
          "k \<notin> set old" "(i, x) \<in> set (pf_fragments p)" for k p i x
        using store_fragment_pending [OF that(1)] that(2,3) frag K'
        by (fastforce simp: only_delivered_def)
      moreover have "ra_crypto (snd (snd (store_fragment h b ?r))) = Some c"
        "ra_sessionLocked (snd (snd (store_fragment h b ?r)))"
        "ra_expectedSession (snd (snd (store_fragment h b ?r))) = s"
        using K by (simp_all add: store_fragment_def Let_def only_delivered_def)
      ultimately show ?thesis using inv by (auto simp: only_delivered_def)
    qed
    moreover have "vf_frameId f \<in> set old \<or> assembled_from (delivered unseal c s ds (vf_frameId f)) (vf_data f)"
      if "FrameReady f \<in> set (fst (snd (store_fragment h b ?r)))" for f
    proof -
      have "f = assemble ?p" using store_fragment_emits [OF that] by simp
      moreover have "pf_frameId ?p = hdr_frameId h"
        using pending_entry_ok(1) [of r h] K stored(2) by (simp add: only_delivered_def)
      ultimately show ?thesis using frag assemble_from [of ?p "delivered unseal c s ds (hdr_frameId h)"]
        by (cases "hdr_frameId h \<in> set old") auto
    qed
    ultimately show ?thesis using fresh(3) stored(4) same by (auto simp: receive_simps)
  qed (use K K' fresh in \<open>auto simp: receive_simps only_delivered_def pinned_def split: if_splits\<close>)
qed

subsection \<open>The order of the emitted frames\<close>

fun frame_ids :: "rx_event list \<Rightarrow> u32 list" where
  "frame_ids [] = []"
| "frame_ids (FrameReady f # es) = vf_frameId f # frame_ids es"
| "frame_ids (MissingKeyframe i # es) = frame_ids es"

lemma frame_ids_append [simp]: "frame_ids (a @ b) = frame_ids a @ frame_ids b"
  by (induction a rule: frame_ids.induct) auto

lemma not_stale_above:
  "\<not> stale i r \<Longrightarrow> \<not> ra_waiting r \<Longrightarrow> ra_lastEmitted r < 0x7FFFFFFF \<Longrightarrow> ra_lastEmitted r < i"
proof (rule ccontr)
  assume s: "\<not> stale i r" "\<not> ra_waiting r" "ra_lastEmitted r < 0x7FFFFFFF" "\<not> ra_lastEmitted r < i"
  then have le: "i \<le> ra_lastEmitted r" by simp
  then have "ra_lastEmitted r - i \<le> ra_lastEmitted r"
    by (simp add: word_le_nat_alt [of "_ - _"] word_diff_unat)
  with s le show False by (auto simp: stale_def)
qed

text \<open>One datagram emits no frame and leaves the last id alone, or emits one newer frame.\<close>

lemma receive_ids:
  assumes inv: "ra_inv r" and cb: "ra_onFrameReady r"
  shows "((frame_ids (fst (receive unseal r d)) = [] \<and>
      ra_lastEmitted (snd (receive unseal r d)) = ra_lastEmitted r \<and>
      ra_waiting (snd (receive unseal r d)) = ra_waiting r) \<or>
    (\<exists>i. frame_ids (fst (receive unseal r d)) = [i] \<and>
      ra_lastEmitted (snd (receive unseal r d)) = i \<and> \<not> ra_waiting (snd (receive unseal r d)) \<and>
      (\<not> ra_waiting r \<and> ra_lastEmitted r < 0x7FFFFFFF \<longrightarrow> ra_lastEmitted r < i))) \<and>
    ra_onFrameReady (snd (receive unseal r d))"
proof (cases rule: PushPacket_cases [of unseal r "Some d" "length d"])
  case (fresh h b)
  let ?r = "r\<lparr>ra_replay := snd (Accept (ra_replay r) (hdr_sequence h))\<rparr>"
  show ?thesis
  proof (cases rule: deliver_cases [of ?r h b])
    case stored
    have "pf_frameId (pending_entry h (ra_pending r)) = hdr_frameId h"
      using pending_entry_ok(1) [OF inv] stored(2) by simp
    moreover have "\<not> stale (hdr_frameId h) r" using stored(3) by (simp add: stale_def)
    ultimately show ?thesis using fresh(3) stored(4) cb not_stale_above [of "hdr_frameId h" r]
      by (auto simp: receive_simps store_fragment_def Let_def pinned_def)
  qed (use fresh cb in \<open>auto simp: receive_simps pinned_def\<close>)
qed (use cb in \<open>simp_all add: receive_simps\<close>)

lemma receive_all_ids:
  "ra_inv r \<Longrightarrow> ra_onFrameReady r \<Longrightarrow>
     (\<forall>i \<in> set (frame_ids (fst (receive_all unseal r ds))). i < 0x7FFFFFFF) \<Longrightarrow>
     sorted_wrt (<) (frame_ids (fst (receive_all unseal r ds))) \<and>
     (\<not> ra_waiting r \<and> ra_lastEmitted r < 0x7FFFFFFF \<longrightarrow>
        (\<forall>i \<in> set (frame_ids (fst (receive_all unseal r ds))). ra_lastEmitted r < i))"
proof (induction ds arbitrary: r)
  case Nil
  then show ?case by (simp add: receive_all_def)
next
  case (Cons d ds)
  let ?r1 = "snd (receive unseal r d)"
  have split: "frame_ids (fst (receive_all unseal r (d # ds))) =
    frame_ids (fst (receive unseal r d)) @ frame_ids (fst (receive_all unseal ?r1 ds))"
    by (simp add: receive_all_def split: prod.split)
  have inv1: "ra_inv ?r1" using Cons.prems(1) by (simp add: receive_simps PushPacket_inv)
  note step = receive_ids [OF Cons.prems(1,2), of unseal d, THEN conjunct1]
    receive_ids [OF Cons.prems(1,2), of unseal d, THEN conjunct2]
  note IH = Cons.IH [OF inv1 step(2)]
  from step(1) show ?case
  proof (elim disjE conjE exE)
    fix i
    assume "frame_ids (fst (receive unseal r d)) = [i]" "ra_lastEmitted ?r1 = i"
      "\<not> ra_waiting ?r1"
      "\<not> ra_waiting r \<and> ra_lastEmitted r < 0x7FFFFFFF \<longrightarrow> ra_lastEmitted r < i"
    with IH Cons.prems(3) show ?thesis by (auto simp: split)
  qed (use IH Cons.prems(3) in \<open>auto simp: split\<close>)
qed

subsection \<open>Example datagrams\<close>

text \<open>
  Datagrams of a sender without encryption (sequence numbers in the last argument), a
  receiver that has emitted frame 1, the two ends of an armed session, and a sealed
  datagram. The witnesses evaluate on these.
\<close>

definition demo_sender :: "u32 \<Rightarrow> SessionCrypto Packetizer" where
  "demo_sender seq = (Packetizer_new 9)\<lparr>pkt_sequence := seq\<rparr>"

definition demo_video :: "u32 \<Rightarrow> bool \<Rightarrow> u32 \<Rightarrow> bytes" where
  "demo_video fid key seq = hd (fst (PacketizeFrame (Encrypt demo_lib) (Some [7, 8, 9]) 3 fid 50000 key
     (demo_sender seq)))"

definition demo_audio :: "u32 \<Rightarrow> u32 \<Rightarrow> bytes" where
  "demo_audio fid seq = fst (PacketizeAudio (Encrypt demo_lib) (Some [1, 2]) 2 fid 50000 (demo_sender seq))"

definition demo_receiver :: "SessionCrypto FrameReassembler" where
  "demo_receiver = FrameReassembler_new True True"

definition demo_playing :: "SessionCrypto FrameReassembler" where
  "demo_playing = snd (receive (Decrypt demo_lib) demo_receiver (demo_video 1 True 0))"

lemma demo_reachable:
  "rx_reachable (Decrypt demo_lib) demo_receiver" "rx_reachable (Decrypt demo_lib) demo_playing"
  by (simp_all add: demo_playing_def demo_receiver_def receive_simps rx_reachable.intros)

definition demo_keys :: session_keys where
  "demo_keys = \<lparr>kS2C = replicate 32 5, kC2S = replicate 32 6, nS2C = replicate 8 1, nC2S = replicate 8 2\<rparr>"

definition demo_server :: SessionCrypto where
  "demo_server = (install_keys True demo_keys SessionCrypto_new)\<lparr>hasKeys := True\<rparr>"

definition demo_client :: SessionCrypto where
  "demo_client = (install_keys False demo_keys SessionCrypto_new)\<lparr>hasKeys := True\<rparr>"

lemma demo_session: "session_live demo_lib demo_server demo_client"
  by (simp add: session_live_def session_paired_def demo_correct demo_total mirrored_def wf_crypto_def
      demo_server_def demo_client_def demo_keys_def install_keys_def SessionCrypto_new_def wire_simps)

definition demo_sealed :: bytes where
  "demo_sealed = hd (fst (PacketizeFrame (Encrypt demo_lib) (Some [7, 8, 9]) 3 1 50000 True
     ((Packetizer_new 9)\<lparr>pkt_crypto := Some demo_server\<rparr>)))"

definition demo_armed :: "SessionCrypto FrameReassembler" where
  "demo_armed = SetExpectedSessionId 9 (ra_SetCrypto (Some demo_client) (FrameReassembler_new True True))"

subsection \<open>Properties\<close>

text \<open>C19. Bounded memory: after any sequence of operations and packets the reassembler
  holds at most 16 unfinished frames, in increasing order of frame id.\<close>

theorem pending_frames_bounded:
  assumes "rx_reachable unseal r"
  shows "length (ra_pending r) \<le> 16 \<and> sorted_wrt (<) (map fst (ra_pending r))"
  using ra_invD [OF rx_reachable_inv [OF assms]] by (simp add: om_wf_def)

theorem pending_frames_bounded_witness: "length (ra_pending demo_playing) \<le> 16"
  using pending_frames_bounded [OF demo_reachable(2)] by blast

text \<open>Keyframe gate: the first frame emitted after construction or \<open>Reset\<close> (while the
  reassembler waits for a keyframe) is a keyframe, whatever packets arrive.\<close>

theorem first_frame_is_keyframe:
  assumes reach: "rx_reachable unseal r" and wait: "ra_waiting r"
    and emit: "FrameReady f \<in> set (fst (snd (PushPacket unseal d n r)))"
  shows "vf_isKeyframe f"
proof -
  note inv = rx_reachable_inv [OF reach]
  from emit obtain h b where "ra_waiting r \<longrightarrow> has_flag (hdr_flags h) FLAG_KEYFRAME"
    and f: "f = assemble (add_fragment h b (pending_entry h (ra_pending r)))"
    by (rule PushPacket_emits) blast
  from pending_entry_ok(3) [OF inv this(1)] wait f show ?thesis by simp
qed

theorem first_frame_is_keyframe_witness:
  "FrameReady \<lparr>vf_frameId = 1, vf_timestampUs = 50000, vf_isKeyframe = True, vf_data = [7, 8, 9]\<rparr>
     \<in> set (fst (snd (PushPacket (Decrypt demo_lib) (Some (demo_video 1 True 0)) 37 demo_receiver))) \<and>
   vf_isKeyframe \<lparr>vf_frameId = 1, vf_timestampUs = 50000, vf_isKeyframe = True, vf_data = [7, 8, 9]\<rparr>"
proof -
  have e: "FrameReady \<lparr>vf_frameId = 1, vf_timestampUs = 50000, vf_isKeyframe = True, vf_data = [7, 8, 9]\<rparr>
     \<in> set (fst (snd (PushPacket (Decrypt demo_lib) (Some (demo_video 1 True 0)) 37 demo_receiver)))"
    by code_simp
  have w: "ra_waiting demo_receiver" by code_simp
  from first_frame_is_keyframe [OF demo_reachable(1) w e] e show ?thesis by blast
qed

text \<open>A packet that is not authentic under the armed key (forged, tampered in header or
  payload, truncated, or sent in the clear as a downgrade) has no effect at all: no event,
  no state change, not even in the replay filter.\<close>

theorem unauthentic_packet_has_no_effect:
  assumes "ra_crypto r = Some c" and "\<forall>h b. \<not> authentic unseal c d h b"
  shows "PushPacket unseal (Some d) (length d) r = (False, [], r)"
proof (cases "open_packet unseal (Some c) (Some d) (length d)")
  case None
  with assms show ?thesis by (simp add: PushPacket_def)
next
  case (Some x)
  then show ?thesis using assms(2) open_packet_armed [of unseal c d "fst x" "snd x"] by auto
qed

theorem unauthentic_packet_has_no_effect_witness:
  "PushPacket (Decrypt demo_lib) (Some (demo_video 1 True 0)) 37 demo_armed = (False, [], demo_armed)"
proof -
  have "bytes_header (demo_video 1 True 0) = video_header (demo_sender 0) 1 50000 True 1 0 3"
    by code_simp
  then have "\<forall>h b. \<not> authentic (Decrypt demo_lib) demo_client (demo_video 1 True 0) h b"
    by (simp add: authentic_def video_header_def demo_sender_def Packetizer_new_def flag_defs has_flag_def)
  moreover have "ra_crypto demo_armed = Some demo_client"
    by (simp add: demo_armed_def SetExpectedSessionId_def ra_SetCrypto_def)
  moreover have "length (demo_video 1 True 0) = 37" by code_simp
  ultimately show ?thesis
    using unauthentic_packet_has_no_effect [of demo_armed demo_client "Decrypt demo_lib"] by metis
qed

text \<open>Replays: once a datagram was processed, the same datagram is refused without
  any effect, after any number of other datagrams in between.\<close>

theorem replayed_datagram_has_no_effect:
  assumes reach: "rx_reachable unseal r"
    and first: "r1 = snd (receive unseal r d)" and more: "r2 = snd (receive_all unseal r1 ds)"
  shows "PushPacket unseal (Some d) (length d) r2 = (False, [], r2)"
proof -
  note inv = rx_reachable_inv [OF reach]
  define I where "I s \<longleftrightarrow> ra_inv s \<and> ra_crypto s = ra_crypto r \<and>
    (\<forall>h b. open_packet unseal (ra_crypto r) (Some d) (length d) = Some (h, b) \<longrightarrow>
       \<not> fst (Accept (ra_replay s) (hdr_sequence h)))" for s :: "'a FrameReassembler"
  obtain S where S: "replay_rel (ra_replay r) S" using inv by (auto simp: ra_inv_def)
  have "I r1"
  proof (cases rule: PushPacket_cases [of unseal r "Some d" "length d"])
    case (fresh h b)
    moreover have "ra_replay (snd (snd (deliver h b (r\<lparr>ra_replay := f\<rparr>)))) = f" for f
      by (cases rule: deliver_cases [of "r\<lparr>ra_replay := f\<rparr>" h b])
        (simp_all add: store_fragment_def Let_def)
    ultimately show ?thesis
      using inv PushPacket_inv [OF inv, of unseal "Some d" "length d"] accepted_then_rejected [OF S]
        PushPacket_crypto [of unseal "Some d" "length d" r]
      by (simp add: I_def first receive_simps)
  next
    case (replayed h b)
    then show ?thesis
      using ra_inv_replay [OF inv] accepted_then_rejected [OF S]
      by (simp add: I_def first receive_simps)
  qed (simp add: I_def first receive_simps inv)
  moreover have "I (snd (receive unseal s x))" if s: "I s" for s x
  proof -
    obtain T where T: "replay_rel (ra_replay s) T" using s by (auto simp: I_def ra_inv_def)
    show ?thesis
      using s PushPacket_replay [of unseal "Some x" "length x" s] rejected_forever [OF T]
      by (auto simp: I_def receive_simps PushPacket_inv)
  qed
  ultimately have "I r2" unfolding more receive_all_def by (rule emits_invariant)
  then obtain T where T: "replay_rel (ra_replay r2) T"
    and rej: "\<And>h b. open_packet unseal (ra_crypto r2) (Some d) (length d) = Some (h, b) \<Longrightarrow>
      \<not> fst (Accept (ra_replay r2) (hdr_sequence h))"
    by (auto simp: I_def ra_inv_def)
  show ?thesis
  proof (cases rule: PushPacket_cases [of unseal r2 "Some d" "length d"])
    case (replayed h b)
    then have "snd (Accept (ra_replay r2) (hdr_sequence h)) = ra_replay r2"
      using replay.rel_reject [OF T] by (metis prod.collapse)
    with replayed show ?thesis by simp
  qed (use rej in auto)
qed

theorem replayed_datagram_has_no_effect_witness:
  "let r = snd (receive_all (Decrypt demo_lib) demo_playing [demo_video 2 False 1])
   in PushPacket (Decrypt demo_lib) (Some (demo_video 1 True 0)) (length (demo_video 1 True 0)) r = (False, [], r)"
  unfolding Let_def by (rule replayed_datagram_has_no_effect [OF demo_reachable(1) demo_playing_def refl])

text \<open>C12. Authenticity of the output: let a receiver be armed with a key and a session id in any state it
  can reach. Every frame it emits from then on, as long as it is not armed again, either has the id of a
  frame that was already half received when the key was armed, or is made of bytes that were each
  delivered, for that frame and that fragment index, by a datagram of that session that opened under the
  key. A receiver with nothing pending when it is armed therefore emits only authenticated bytes.\<close>

theorem emitted_frames_are_authentic:
  assumes "rx_reachable unseal r0" and "r = SetExpectedSessionId s (ra_SetCrypto (Some c) r0)"
    and "FrameReady f \<in> set (fst (receive_all unseal r ds))"
  shows "vf_frameId f \<in> set (map fst (ra_pending r0)) \<or>
    assembled_from (delivered unseal c s ds (vf_frameId f)) (vf_data f)"
proof -
  let ?old = "map fst (ra_pending r0)"
  have "only_delivered unseal c s ?old ds r" unfolding assms(2) by (rule only_delivered_armed [OF assms(1)])
  then have "\<forall>e \<in> set (fst (receive_all unseal r ds)). \<forall>f. e = FrameReady f \<longrightarrow> vf_frameId f \<in> set ?old \<or>
      assembled_from (delivered unseal c s ds (vf_frameId f)) (vf_data f)"
    unfolding receive_all_def by (rule emits_outputs) (rule only_delivered_step)
  with assms(3) show ?thesis by blast
qed

theorem emitted_frames_are_authentic_witness:
  "assembled_from (delivered (Decrypt demo_lib) demo_client 9 [demo_sealed] 1) [7, 8, 9]"
proof -
  let ?f = "\<lparr>vf_frameId = 1, vf_timestampUs = 50000, vf_isKeyframe = True, vf_data = [7, 8, 9]\<rparr>"
  have "FrameReady ?f \<in> set (fst (receive_all (Decrypt demo_lib) demo_armed [demo_sealed]))"
    by code_simp
  from emitted_frames_are_authentic [OF rx_reachable.created demo_armed_def this] show ?thesis
    by (simp add: FrameReassembler_new_def)
qed

text \<open>C20. Order: while frame ids stay below half of their range, the frames emitted over
  any run have strictly increasing ids, whatever the order, loss and duplication of the
  datagrams; no frame is emitted twice.\<close>

theorem emitted_frame_ids_increase:
  assumes "rx_reachable unseal r" and "ra_onFrameReady r"
    and "\<forall>i \<in> set (frame_ids (fst (receive_all unseal r ds))). i < 0x7FFFFFFF"
  shows "sorted_wrt (<) (frame_ids (fst (receive_all unseal r ds)))"
  using receive_all_ids [OF rx_reachable_inv [OF assms(1)] assms(2,3)] by simp

theorem emitted_frame_ids_increase_witness:
  "sorted_wrt (<) (frame_ids (fst (receive_all (Decrypt demo_lib) demo_receiver
     [demo_video 1 True 0, demo_video 3 False 1, demo_video 2 False 2])))"
proof -
  have "frame_ids (fst (receive_all (Decrypt demo_lib) demo_receiver
     [demo_video 1 True 0, demo_video 3 False 1, demo_video 2 False 2])) = [1, 3]"
    by code_simp
  moreover have "ra_onFrameReady demo_receiver" by code_simp
  ultimately show ?thesis
    using emitted_frame_ids_increase [OF demo_reachable(1),
        of "[demo_video 1 True 0, demo_video 3 False 1, demo_video 2 False 2]"] by simp
qed

text \<open>Frame id zero is lost: the sentinel test \<open>pending.frameId == 0\<close> reinitialises the
  entry of frame 0 at each of its fragments, so a frame with id 0 and more than one fragment
  is never emitted (the sender's frame counter reaches 0 when it wraps).\<close>

theorem fragmented_frame_zero_is_lost:
  assumes reach: "rx_reachable unseal r"
    and "open_packet unseal (ra_crypto r) d n = Some (h, b)"
    and "hdr_frameId h = 0" and "1 < hdr_fragmentCount h"
  shows "FrameReady f \<notin> set (fst (snd (PushPacket unseal d n r)))"
proof
  note inv = rx_reachable_inv [OF reach]
  assume "FrameReady f \<in> set (fst (snd (PushPacket unseal d n r)))"
  then obtain p where p: "p = add_fragment h b (pending_entry h (ra_pending r))"
    and complete: "frame_complete p"
    by (rule PushPacket_emits) (use assms(2) in auto)
  have "pf_frameId q = 0" if "map_of (ra_pending r) 0 = Some q" for q
    using that inv by (auto dest!: map_of_SomeD ra_invD(3) simp: entry_ok_def)
  then have "pf_receivedFragments (pending_entry h (ra_pending r)) = 0"
    "pf_totalFragments (pending_entry h (ra_pending r)) = hdr_fragmentCount h"
    using assms(3) by (auto simp: pending_entry_def PendingFrame_default_def split: option.split)
  then have "pf_receivedFragments p = 0 \<or> pf_receivedFragments p = 1"
    "pf_totalFragments p = hdr_fragmentCount h"
    by (simp_all add: p) (simp add: add_fragment_def)
  with complete assms(4) show False by (auto simp: frame_complete_def)
qed

theorem fragmented_frame_zero_is_lost_witness:
  "\<forall>f. FrameReady f \<notin> set (fst (snd (PushPacket (Decrypt demo_lib)
     (Some (header_bytes (video_header (demo_sender 0) 0 50000 True 2 0 3) @ [7, 8, 9])) 37 demo_receiver)))"
proof (intro allI fragmented_frame_zero_is_lost [OF demo_reachable(1)])
  show "open_packet (Decrypt demo_lib) (ra_crypto demo_receiver)
      (Some (header_bytes (video_header (demo_sender 0) 0 50000 True 2 0 3) @ [7, 8, 9])) 37 =
    Some (video_header (demo_sender 0) 0 50000 True 2 0 3, [7, 8, 9])"
    by code_simp
qed (simp_all add: video_header_def Let_def)

text \<open>C40. Audio hides video: an audio packet goes through the same reassembly as video and is
  handed to the video callback as a frame; its counter then becomes the last emitted frame id,
  and every video frame whose id is not above it is dropped as stale.\<close>

theorem audio_packet_hides_video:
  assumes reach: "rx_reachable unseal r" and play: "\<not> ra_waiting r" and cb: "ra_onFrameReady r"
    and opened: "open_packet unseal (ra_crypto r) d n = Some (h, b)"
    and audio: "hdr_streamId h = 1" "hdr_fragmentIndex h = 0" "hdr_fragmentCount h = 1"
      "\<not> has_flag (hdr_flags h) FLAG_KEYFRAME"
    and fresh: "fst (Accept (ra_replay r) (hdr_sequence h))"
    and session: "ra_sessionLocked r" "hdr_sessionId h = ra_expectedSession r"
    and new: "\<not> stale (hdr_frameId h) r" "map_of (ra_pending r) (hdr_frameId h) = None"
  shows "\<exists>r'. PushPacket unseal d n r =
      (True, [FrameReady \<lparr>vf_frameId = hdr_frameId h, vf_timestampUs = hdr_timestampUs h,
         vf_isKeyframe = False, vf_data = b\<rparr>], r') \<and>
    (\<forall>v. hdr_streamId v = 0 \<and> hdr_frameId v \<le> hdr_frameId h \<and>
       hdr_frameId h - hdr_frameId v < 0x7FFFFFFF \<and> hdr_sessionId v = hdr_sessionId h \<longrightarrow>
       deliver v x r' = (False, [], r'))"
proof -
  let ?r = "r\<lparr>ra_replay := snd (Accept (ra_replay r) (hdr_sequence h))\<rparr>"
  let ?p = "add_fragment h b (pending_entry h (ra_pending r))"
  have p: "pf_frameId ?p = hdr_frameId h" "frame_complete ?p" "assemble ?p =
      \<lparr>vf_frameId = hdr_frameId h, vf_timestampUs = hdr_timestampUs h,
       vf_isKeyframe = False, vf_data = b\<rparr>"
    using new(2) audio
    by (simp_all add: pending_entry_def PendingFrame_default_def add_fragment_def frame_complete_def
        assemble_def fragment_at_def Let_def)
  have "PushPacket unseal d n r = store_fragment h b ?r"
    using opened fresh play session new(1)
    by (auto simp: PushPacket_def split_beta deliver_def stale_def Let_def)
  then show ?thesis
    using p cb session play
    by (auto simp: store_fragment_def Let_def deliver_def stale_def)
qed

theorem audio_packet_hides_video_witness:
  "\<exists>r'. PushPacket (Decrypt demo_lib) (Some (demo_audio 5 1)) 36 demo_playing =
      (True, [FrameReady \<lparr>vf_frameId = 5, vf_timestampUs = 50000, vf_isKeyframe = False, vf_data = [1, 2]\<rparr>], r') \<and>
    deliver (video_header (demo_sender 2) 5 50000 True 1 0 3) [7, 8, 9] r' = (False, [], r')"
proof -
  let ?h = "audio_header (demo_sender 1) 5 50000 2"
  have "open_packet (Decrypt demo_lib) (ra_crypto demo_playing) (Some (demo_audio 5 1)) 36 = Some (?h, [1, 2])"
    by code_simp
  moreover have "\<not> ra_waiting demo_playing" "ra_onFrameReady demo_playing"
    "fst (Accept (ra_replay demo_playing) (hdr_sequence ?h))" "ra_sessionLocked demo_playing"
    "hdr_sessionId ?h = ra_expectedSession demo_playing" "\<not> stale (hdr_frameId ?h) demo_playing"
    "map_of (ra_pending demo_playing) (hdr_frameId ?h) = None"
    by code_simp+
  moreover have "hdr_streamId ?h = 1" "hdr_fragmentIndex ?h = 0" "hdr_fragmentCount ?h = 1"
    "\<not> has_flag (hdr_flags ?h) FLAG_KEYFRAME"
    by code_simp+
  ultimately have "\<exists>r'. PushPacket (Decrypt demo_lib) (Some (demo_audio 5 1)) 36 demo_playing =
      (True, [FrameReady \<lparr>vf_frameId = hdr_frameId ?h, vf_timestampUs = hdr_timestampUs ?h,
         vf_isKeyframe = False, vf_data = [1, 2]\<rparr>], r') \<and>
    (\<forall>v. hdr_streamId v = 0 \<and> hdr_frameId v \<le> hdr_frameId ?h \<and>
       hdr_frameId ?h - hdr_frameId v < 0x7FFFFFFF \<and> hdr_sessionId v = hdr_sessionId ?h \<longrightarrow>
       deliver v [7, 8, 9] r' = (False, [], r'))"
    by (intro audio_packet_hides_video [OF demo_reachable(2)])
  then show ?thesis
    by (auto simp: audio_header_def video_header_def Let_def demo_sender_def Packetizer_new_def)
qed

end
