(* ===== verification/Reassembly_Roundtrip.thy ===== *)
theory Reassembly_Roundtrip
  imports Reassembly_Safety "HOL-Library.Multiset"
begin

text \<open>
  The sender and the receiver together: the packets of \<open>PacketizeFrame\<close>, received in
  any order the replay window tolerates, give back exactly the frame. The part about
  one packet is proved inside the contract \<open>total_sealed_channel\<close> of the cipher and
  used through its interpretation on \<open>Encrypt\<close> and \<open>Decrypt\<close>; the part about the
  order of fragments is a property of the reassembler alone.
\<close>

subsection \<open>One packet\<close>

definition channel_ok :: "('tx \<Rightarrow> 'rx \<Rightarrow> bool) \<Rightarrow> 'tx option \<Rightarrow> 'rx option \<Rightarrow> bool" where
  "channel_ok paired tx rx =
     (case (tx, rx) of
        (None, None) \<Rightarrow> True
      | (Some t, Some r) \<Rightarrow> paired t r
      | _ \<Rightarrow> False)"

lemma channel_ok_cases:
  assumes "channel_ok paired tx rx"
  obtains (clear) "tx = None" "rx = None" | (armed) t r where "tx = Some t" "rx = Some r" "paired t r"
  using assms by (auto simp: channel_ok_def split: option.splits)

definition chunk_header ::
  "'c Packetizer \<Rightarrow> u32 \<Rightarrow> u64 \<Rightarrow> bool \<Rightarrow> bytes \<Rightarrow> u16 \<Rightarrow> nat \<Rightarrow> PacketHeader" where
  "chunk_header pk fid ts key d fc i =
     video_header pk fid ts key fc i
       (length (piece (maxPlaintext (pkt_crypto pk)) d i) + (if pkt_crypto pk = None then 0 else 16))"

lemma length_piece: "length (piece m d i) = min m (length d - i * m)"
  by (simp add: piece_def)

lemma chunk_header_simps [simp]:
  "hdr_frameId (chunk_header pk fid ts key d fc i) = fid"
  "hdr_streamId (chunk_header pk fid ts key d fc i) = 0"
  "hdr_sessionId (chunk_header pk fid ts key d fc i) = pkt_sessionId pk"
  "hdr_sequence (chunk_header pk fid ts key d fc i) = pkt_sequence pk"
  "hdr_fragmentIndex (chunk_header pk fid ts key d fc i) = of_nat i"
  "hdr_fragmentCount (chunk_header pk fid ts key d fc i) = fc"
  "hdr_timestampUs (chunk_header pk fid ts key d fc i) = ts"
  "valid_header (chunk_header pk fid ts key d fc i)"
  "has_flag (hdr_flags (chunk_header pk fid ts key d fc i)) FLAG_KEYFRAME = key"
  "has_flag (hdr_flags (chunk_header pk fid ts key d fc i)) FLAG_ENCRYPTED = (pkt_crypto pk \<noteq> None)"
  by (simp_all add: chunk_header_def video_header_def valid_header_def has_flag_def flag_defs)

lemma chunk_header_payload:
  "unat (hdr_payloadLength (chunk_header pk fid ts key d fc i)) =
     length (piece (maxPlaintext (pkt_crypto pk)) d i) + (if pkt_crypto pk = None then 0 else 16)"
proof -
  have "length (piece (maxPlaintext (pkt_crypto pk)) d i) \<le> 1166"
    using maxPlaintext_bounds(2) [of "pkt_crypto pk"] by (simp add: length_piece)
  then have "length (piece (maxPlaintext (pkt_crypto pk)) d i) + (if pkt_crypto pk = None then 0 else 16)
      < 65536" by (cases "pkt_crypto pk") auto
  from u16_cast_small [OF this] show ?thesis
    by (simp only: chunk_header_def video_header_def Let_def PacketHeader.select_convs)
qed

context total_sealed_channel
begin

lemma fragment_opens:
  assumes ch: "channel_ok paired (pkt_crypto pk) rxc"
  shows "\<exists>pkt. fst (packetize_fragment seal d (length d) fid ts key fc pk i) = [pkt] \<and>
    open_packet unseal rxc (Some pkt) (length pkt) =
      Some (chunk_header pk fid ts key d fc i, piece (maxPlaintext (pkt_crypto pk)) d i) \<and>
    length pkt \<le> VEYRA_MAX_PACKET_SIZE"
proof -
  let ?h = "chunk_header pk fid ts key d fc i"
  let ?b = "piece (maxPlaintext (pkt_crypto pk)) d i"
  have src: "take (min (maxPlaintext (pkt_crypto pk)) (length d - i * maxPlaintext (pkt_crypto pk)))
      (drop (i * maxPlaintext (pkt_crypto pk)) d) = ?b"
    by (simp add: piece_def)
  have len: "min (maxPlaintext (pkt_crypto pk)) (length d - i * maxPlaintext (pkt_crypto pk)) = length ?b"
    by (simp add: length_piece)
  from ch show ?thesis
  proof (cases rule: channel_ok_cases)
    case clear
    have "packetize_fragment seal d (length d) fid ts key fc pk i =
        ([header_bytes ?h @ ?b], pk\<lparr>pkt_sequence := pkt_sequence pk + 1\<rparr>)"
      using clear src len by (simp add: packetize_fragment_def chunk_header_def Let_def)
    moreover have "length ?b \<le> 1166" using maxPlaintext_bounds(2) [of "pkt_crypto pk"] by (simp add: length_piece)
    ultimately show ?thesis using clear chunk_header_payload [of pk fid ts key d fc i]
      by (simp add: open_packet_def DeserializeHeader_Some wire_simps VEYRA_MAX_PACKET_SIZE_def)
  next
    case (armed t r)
    let ?ct = "snd (seal t (Some ?b) (length ?b) (pkt_sequence pk) (header_bytes ?h))"
    have ct: "length ?ct = length ?b + 16"
      "unseal r ?ct (length ?b + 16) (pkt_sequence pk) (header_bytes ?h) = Some ?b"
      using seal_then_unseal [OF armed(3) refl, of ?b "pkt_sequence pk" "header_bytes ?h"] by auto
    have wr: "fst (seal t (Some ?b) (length ?b) (pkt_sequence pk) (header_bytes ?h)) = length ?b + 16"
      using armed(3) by (rule seal_succeeds)
    have "packetize_fragment seal d (length d) fid ts key fc pk i =
        ([header_bytes ?h @ ?ct], pk\<lparr>pkt_sequence := pkt_sequence pk + 1\<rparr>)"
      using armed src len wr ct(1)
      by (simp add: packetize_fragment_def chunk_header_def Let_def split_beta kAeadTagSize_def wire_simps)
    moreover have "length ?b + 16 \<le> 1166"
      using maxPlaintext_bounds(4) [of "pkt_crypto pk"] armed by (simp add: length_piece)
    ultimately show ?thesis using armed ct chunk_header_payload [of pk fid ts key d fc i]
      by (simp add: open_packet_def DeserializeHeader_Some wire_simps VEYRA_MAX_PACKET_SIZE_def)
  qed
qed

end

subsection \<open>Collecting the fragments of one frame\<close>

text \<open>
  \<open>frag_chunk seq sid fid ts key d m fc i\<close>: fragment \<open>i\<close> as the reassembler sees it, a header
  with sequence number \<open>seq + i\<close> and the \<open>i\<close>-th piece of the frame.
\<close>

definition is_chunk ::
  "u32 \<Rightarrow> u32 \<Rightarrow> u32 \<Rightarrow> u64 \<Rightarrow> bool \<Rightarrow> nat \<Rightarrow> nat \<Rightarrow> PacketHeader \<Rightarrow> bool" where
  "is_chunk seq sid fid ts key k i h \<longleftrightarrow>
     hdr_frameId h = fid \<and> hdr_sessionId h = sid \<and> hdr_sequence h = seq + of_nat i \<and>
     hdr_fragmentIndex h = of_nat i \<and> hdr_fragmentCount h = of_nat k \<and> hdr_timestampUs h = ts \<and>
     has_flag (hdr_flags h) FLAG_KEYFRAME = key"

text \<open>The entry of a frame of \<open>k\<close> fragments of which those in \<open>done\<close> have arrived.\<close>

definition collected ::
  "u32 \<Rightarrow> u64 \<Rightarrow> bool \<Rightarrow> (nat \<Rightarrow> bytes) \<Rightarrow> nat \<Rightarrow> nat list \<Rightarrow> PendingFrame \<Rightarrow> bool" where
  "collected fid ts key g k done p \<longleftrightarrow>
     pf_frameId p = fid \<and> pf_timestampUs p = ts \<and> pf_isKeyframe p = key \<and>
     pf_totalFragments p = of_nat k \<and> pf_receivedFragments p = of_nat (length done) \<and>
     om_wf (pf_fragments p) \<and>
     (\<forall>i < k. map_of (pf_fragments p) (of_nat i) = (if i \<in> set done then Some (g i) else None))"

lemma u16_of_nat_inject: "i < 65536 \<Longrightarrow> j < 65536 \<Longrightarrow> (of_nat i :: u16) = of_nat j \<longleftrightarrow> i = j"
  using u16_cast_small by metis

lemma collected_empty:
  "map_of m fid = None \<Longrightarrow> is_chunk seq sid fid ts key k i h \<Longrightarrow>
     collected fid ts key g k [] (pending_entry h m)"
  by (simp add: collected_def pending_entry_def PendingFrame_default_def is_chunk_def)

lemma collected_entry:
  "map_of m fid = Some p \<Longrightarrow> fid \<noteq> 0 \<Longrightarrow> is_chunk seq sid fid ts key k i h \<Longrightarrow>
     collected fid ts key g k done p \<Longrightarrow> pending_entry h m = p"
  by (simp add: collected_def pending_entry_def is_chunk_def)

lemma collected_add:
  assumes "collected fid ts key g k done p" "is_chunk seq sid fid ts key k i h"
    and "i < k" "i \<notin> set done" "k < 65536"
  shows "collected fid ts key g k (done @ [i]) (add_fragment h (g i) p)"
  using assms
  by (auto simp: collected_def add_fragment_def is_chunk_def om.wf_put om.find_put u16_of_nat_inject)

lemma collected_complete:
  assumes "collected fid ts key g k done p" "distinct done" "set done \<subseteq> {..<k}" "0 < k" "k < 65536"
  shows "frame_complete p \<longleftrightarrow> length done = k"
proof -
  have "length done \<le> k" using assms(2,3) by (metis card_lessThan card_mono distinct_card finite_lessThan)
  with assms show ?thesis
    by (auto simp: collected_def frame_complete_def u16_of_nat_inject word_less_nat_alt word_nat)
qed

lemma collected_assemble:
  assumes "collected fid ts key g k done p" "set done = {..<k}" "k < 65536"
  shows "assemble p = \<lparr>vf_frameId = fid, vf_timestampUs = ts, vf_isKeyframe = key,
    vf_data = concat (map g [0..<k])\<rparr>"
proof -
  have "map (fragment_at p) [0..<k] = map g [0..<k]"
    using assms by (auto simp: collected_def fragment_at_def)
  then have "concat (map (fragment_at p) [0..<k]) = concat (map g [0..<k])" by (rule arg_cong)
  with assms show ?thesis by (simp add: assemble_def collected_def word_nat)
qed

subsection \<open>The reassembler while one frame arrives\<close>

text \<open>\<open>ready r \<dots>\<close>: the receiver can take a new frame \<open>fid\<close> of session \<open>sid\<close>; \<open>arriving\<close>: the
  fragments in \<open>done\<close> of that frame have arrived.\<close>

definition arriving ::
  "'c FrameReassembler \<Rightarrow> u32 set \<Rightarrow> u32 \<Rightarrow> u32 \<Rightarrow> u32 \<Rightarrow> u64 \<Rightarrow> bool \<Rightarrow> (nat \<Rightarrow> bytes) \<Rightarrow> nat \<Rightarrow>
     nat list \<Rightarrow> 'c FrameReassembler \<Rightarrow> bool" where
  "arriving r0 S seq sid fid ts key g k done r \<longleftrightarrow>
     ra_crypto r = ra_crypto r0 \<and> ra_onFrameReady r \<and>
     (ra_sessionLocked r \<longrightarrow> ra_expectedSession r = sid) \<and>
     (ra_waiting r \<longrightarrow> key) \<and> \<not> stale fid r \<and>
     om_wf (ra_pending r) \<and> length (ra_pending r) \<le> (if done = [] then 15 else 16) \<and>
     replay_rel (ra_replay r) (S \<union> (\<lambda>i. seq + of_nat i) ` set done) \<and>
     (if done = [] then map_of (ra_pending r) fid = None
      else \<exists>p. map_of (ra_pending r) fid = Some p \<and> collected fid ts key g k done p)"

lemma arriving_entry:
  assumes "arriving r0 S seq sid fid ts key g k done r" "is_chunk seq sid fid ts key k i h" "fid \<noteq> 0"
  shows "collected fid ts key g k done (pending_entry h (ra_pending r))"
proof (cases "done = []")
  case True
  with assms show ?thesis by (auto simp: arriving_def intro: collected_empty)
next
  case False
  with assms(1) obtain p where "map_of (ra_pending r) fid = Some p" "collected fid ts key g k done p"
    by (auto simp: arriving_def)
  with collected_entry [OF _ assms(3,2)] show ?thesis by simp
qed

lemma arriving_delivers:
  assumes ar: "arriving r0 S seq sid fid ts key g k done r" and h: "is_chunk seq sid fid ts key k i h"
  shows "deliver h b r = store_fragment h b (pinned h r)"
  using ar h
  by (cases rule: deliver_cases [of r h b]) (auto simp: arriving_def is_chunk_def)

text \<open>One more fragment, accepted by the replay filter.\<close>

definition push_fresh :: "PacketHeader \<Rightarrow> bytes \<Rightarrow> 'c FrameReassembler \<Rightarrow> rx_event list \<times> 'c FrameReassembler" where
  "push_fresh h b r = snd (deliver h b (r\<lparr>ra_replay := snd (Accept (ra_replay r) (hdr_sequence h))\<rparr>))"

lemma arriving_replay:
  assumes ar: "arriving r0 S seq sid fid ts key g k done r"
    and fresh: "fst (Accept (ra_replay r) (seq + of_nat i))"
  shows "replay_rel (snd (Accept (ra_replay r) (seq + of_nat i)))
    (S \<union> (\<lambda>i. seq + of_nat i) ` set (done @ [i]))"
proof -
  have "replay_rel (ra_replay r) (S \<union> (\<lambda>i. seq + of_nat i) ` set done)"
    using ar by (simp add: arriving_def)
  from replay.rel_step [OF this prod.collapse [symmetric], of "seq + of_nat i"] fresh
  show ?thesis by simp
qed

lemma arriving_step:
  assumes ar: "arriving r0 S seq sid fid ts key g k done r" and h: "is_chunk seq sid fid ts key k i h"
    and fresh: "fst (Accept (ra_replay r) (hdr_sequence h))"
    and i: "i < k" "i \<notin> set done" and k: "k < 65536" and fid: "fid \<noteq> 0"
    and dn: "distinct done" "set done \<subseteq> {..<k}"
  shows "length (done @ [i]) < k \<Longrightarrow>
      fst (push_fresh h (g i) r) = [] \<and>
      arriving r0 S seq sid fid ts key g k (done @ [i]) (snd (push_fresh h (g i) r))"
    and "length (done @ [i]) = k \<Longrightarrow>
      fst (push_fresh h (g i) r) = [FrameReady \<lparr>vf_frameId = fid, vf_timestampUs = ts,
         vf_isKeyframe = key, vf_data = concat (map g [0..<k])\<rparr>] \<and>
      ra_lastEmitted (snd (push_fresh h (g i) r)) = fid \<and> \<not> ra_waiting (snd (push_fresh h (g i) r))"
proof -
  let ?f = "snd (Accept (ra_replay r) (hdr_sequence h))"
  let ?r = "r\<lparr>ra_replay := ?f\<rparr>"
  let ?p = "add_fragment h (g i) (pending_entry h (ra_pending r))"
  have seq: "hdr_sequence h = seq + of_nat i" "hdr_frameId h = fid" using h by (auto simp: is_chunk_def)
  have "deliver h (g i) ?r = store_fragment h (g i) (pinned h ?r)"
    using ar h by (cases rule: deliver_cases [of ?r h "g i"]) (auto simp: arriving_def is_chunk_def stale_def)
  then have push: "push_fresh h (g i) r = snd (store_fragment h (g i) (pinned h ?r))"
    by (simp add: push_fresh_def)
  have col: "collected fid ts key g k (done @ [i]) ?p"
    using collected_add [OF arriving_entry [OF ar h fid] h i k] .
  have dist: "distinct (done @ [i])" "set (done @ [i]) \<subseteq> {..<k}" using dn i by auto
  have comp: "frame_complete ?p \<longleftrightarrow> length (done @ [i]) = k"
    using collected_complete [OF col dist _ k] i by simp
  have id: "pf_frameId ?p = fid" using col by (simp add: collected_def)
  {
    assume "length (done @ [i]) < k"
    then have nc: "\<not> frame_complete ?p" using comp by simp
    let ?m = "om_put fid ?p (ra_pending r)"
    have m: "om_wf ?m" "length ?m \<le> 16" "map_of ?m fid = Some ?p"
      using ar by (auto simp: arriving_def om.wf_put om.count_put om.find_put split: if_splits)
    have res: "snd (push_fresh h (g i) r) = (pinned h ?r)\<lparr>ra_pending := ?m\<rparr>" "fst (push_fresh h (g i) r) = []"
      using nc m(2) seq by (simp_all add: push store_fragment_def Let_def trim_pending_def)
    have "arriving r0 S seq sid fid ts key g k (done @ [i]) ((pinned h ?r)\<lparr>ra_pending := ?m\<rparr>)"
      using ar h m col arriving_replay [OF ar, of i] fresh
      by (auto simp: arriving_def is_chunk_def pinned_def stale_def)
    with res show "fst (push_fresh h (g i) r) = [] \<and>
        arriving r0 S seq sid fid ts key g k (done @ [i]) (snd (push_fresh h (g i) r))"
      by simp
  }
  {
    assume full: "length (done @ [i]) = k"
    then have "set (done @ [i]) = {..<k}"
      using dist by (metis card_lessThan card_subset_eq distinct_card finite_lessThan)
    from collected_assemble [OF col this k] comp full id ar
    show "fst (push_fresh h (g i) r) = [FrameReady \<lparr>vf_frameId = fid, vf_timestampUs = ts,
         vf_isKeyframe = key, vf_data = concat (map g [0..<k])\<rparr>] \<and>
      ra_lastEmitted (snd (push_fresh h (g i) r)) = fid \<and> \<not> ra_waiting (snd (push_fresh h (g i) r))"
      by (simp add: push store_fragment_def Let_def arriving_def)
  }
qed

subsection \<open>All the fragments, in any order the window tolerates\<close>

lemma seq_unat:
  "unat (seq :: u32) + k \<le> 4294967296 \<Longrightarrow> i < k \<Longrightarrow> unat (seq + of_nat i) = unat seq + i"
  by (simp add: unat_word_ariths u32_cast_small)

lemma arriving_fresh:
  assumes ar: "arriving r0 S seq sid fid ts key g k done r"
    and S: "\<forall>y \<in> S. unat y < unat seq" and wrap: "unat seq + k \<le> 4294967296"
    and i: "i < k" "i \<notin> set done" "\<forall>j \<in> set done. j < k \<and> j < i + 64"
  shows "fst (Accept (ra_replay r) (seq + of_nat i))"
proof -
  have rel: "replay_rel (ra_replay r) (S \<union> (\<lambda>i. seq + of_nat i) ` set done)"
    using ar by (simp add: arriving_def)
  note at = seq_unat [OF wrap]
  have "seq + of_nat i \<notin> S \<union> (\<lambda>i. seq + of_nat i) ` set done"
  proof
    assume "seq + of_nat i \<in> S \<union> (\<lambda>i. seq + of_nat i) ` set done"
    then consider "seq + of_nat i \<in> S" | j where "j \<in> set done" "seq + of_nat i = seq + of_nat j"
      by auto
    then show False
    proof cases
      case 1
      with S have "unat (seq + of_nat i) < unat seq" by blast
      then show False by (simp add: at [OF i(1)])
    next
      case (2 j)
      then have "unat seq + i = unat seq + j" using i at [OF i(1)] at [of j] by metis
      with 2 i(2) show False by simp
    qed
  qed
  moreover have "unat y < unat (seq + of_nat i) + 64"
    if "y \<in> S \<union> (\<lambda>i. seq + of_nat i) ` set done" for y
  proof -
    from that consider "y \<in> S" | j where "j \<in> set done" "y = seq + of_nat j" by auto
    then show ?thesis
    proof cases
      case 1
      with S have "unat y < unat seq" by blast
      then show ?thesis by (simp add: at [OF i(1)])
    next
      case (2 j)
      then have "j < k" "j < i + 64" using i(3) by auto
      with 2 show ?thesis by (simp add: at [OF i(1)] at [of j])
    qed
  qed
  ultimately show ?thesis unfolding Accept_iff [OF rel] by blast
qed

lemma receive_fresh:
  assumes "open_packet unseal (ra_crypto r) (Some d) (length d) = Some (h, b)"
    and "fst (Accept (ra_replay r) (hdr_sequence h))"
  shows "receive unseal r d = push_fresh h b r"
  using assms by (simp add: receive_def PushPacket_def push_fresh_def split_beta)

lemma arriving_run:
  assumes S: "\<forall>y \<in> S. unat y < unat seq" and wrap: "unat seq + k \<le> 4294967296"
    and k: "k < 65536" and fid: "fid \<noteq> 0"
    and opened: "\<And>i. i < k \<Longrightarrow> open_packet unseal (ra_crypto r0) (Some (pkt i)) (length (pkt i)) = Some (h i, g i)"
    and chunk: "\<And>i. i < k \<Longrightarrow> is_chunk seq sid fid ts key k i (h i)"
  shows "arriving r0 S seq sid fid ts key g k done r \<Longrightarrow> rest \<noteq> [] \<Longrightarrow>
      distinct (done @ rest) \<Longrightarrow> set (done @ rest) = {..<k} \<Longrightarrow>
      sorted_wrt (\<lambda>j i. j < i + 64) (done @ rest) \<Longrightarrow>
      fst (receive_all unseal r (map pkt rest)) = [FrameReady \<lparr>vf_frameId = fid, vf_timestampUs = ts,
         vf_isKeyframe = key, vf_data = concat (map g [0..<k])\<rparr>] \<and>
      ra_lastEmitted (snd (receive_all unseal r (map pkt rest))) = fid"
proof (induction rest arbitrary: "done" r)
  case Nil
  then show ?case by simp
next
  case (Cons i rest)
  note ar = Cons.prems(1)
  have i: "i < k" "i \<notin> set done" and before: "\<forall>j \<in> set done. j < k \<and> j < i + 64"
    using Cons.prems by (auto simp: sorted_wrt_append)
  have dn: "distinct done" "set done \<subseteq> {..<k}" using Cons.prems by auto
  have fr: "fst (Accept (ra_replay r) (hdr_sequence (h i)))"
    using arriving_fresh [OF ar S wrap i before] chunk [OF i(1)] by (simp add: is_chunk_def)
  have rcv: "receive unseal r (pkt i) = push_fresh (h i) (g i) r"
    using opened [OF i(1)] ar fr by (intro receive_fresh) (simp_all add: arriving_def)
  have len: "length (done @ i # rest) = k"
    using Cons.prems(3,4) by (metis card_lessThan distinct_card)
  note step = arriving_step [OF ar chunk [OF i(1)] fr i k fid dn]
  show ?case
  proof (cases "rest = []")
    case True
    then show ?thesis using step(2) len rcv by (simp add: receive_all_def split_beta)
  next
    case False
    then have "length (done @ [i]) < k" using len by (cases rest) auto
    note st = step(1) [OF this]
    have "fst (receive_all unseal (snd (push_fresh (h i) (g i) r)) (map pkt rest)) =
        [FrameReady \<lparr>vf_frameId = fid, vf_timestampUs = ts,
         vf_isKeyframe = key, vf_data = concat (map g [0..<k])\<rparr>] \<and>
      ra_lastEmitted (snd (receive_all unseal (snd (push_fresh (h i) (g i) r)) (map pkt rest))) = fid"
      using Cons.prems(3-5) by (intro Cons.IH [OF conjunct2 [OF st] False]) simp_all
    then show ?thesis using st rcv by (simp add: receive_all_def split_beta)
  qed
qed

subsection \<open>The sender's packets\<close>

definition can_take :: "'c FrameReassembler \<Rightarrow> u32 \<Rightarrow> u32 \<Rightarrow> u32 \<Rightarrow> bool \<Rightarrow> bool" where
  "can_take r sid fid seq key \<longleftrightarrow>
     ra_onFrameReady r \<and> (ra_sessionLocked r \<longrightarrow> ra_expectedSession r = sid) \<and>
     (ra_waiting r \<longrightarrow> key) \<and> \<not> stale fid r \<and> length (ra_pending r) \<le> 15 \<and>
     map_of (ra_pending r) fid = None \<and>
     (\<exists>S. replay_rel (ra_replay r) S \<and> (\<forall>y \<in> S. unat y < unat seq))"

lemma can_take_arriving:
  assumes "ra_inv r" and "can_take r sid fid seq key"
  obtains S where "arriving r S seq sid fid ts key g k [] r" "\<forall>y \<in> S. unat y < unat seq"
  using assms that by (auto simp: can_take_def arriving_def ra_inv_def)

lemma chunk_header_is_chunk:
  "unat fc = k \<Longrightarrow>
     is_chunk (pkt_sequence pk) (pkt_sessionId pk) fid ts key k i
       (chunk_header (nth_state pk i) fid ts key d fc i)"
  by (auto simp: is_chunk_def)

definition frame_packets ::
  "('c \<Rightarrow> bytes option \<Rightarrow> nat \<Rightarrow> u32 \<Rightarrow> bytes \<Rightarrow> nat \<times> bytes) \<Rightarrow> 'c Packetizer \<Rightarrow> bytes \<Rightarrow> u32 \<Rightarrow> u64 \<Rightarrow>
     bool \<Rightarrow> bytes list" where
  "frame_packets seal pk d fid ts key = fst (PacketizeFrame seal (Some d) (length d) fid ts key pk)"

definition packet_count :: "'c Packetizer \<Rightarrow> bytes \<Rightarrow> nat" where
  "packet_count pk d = pieces_needed (length d) (maxPlaintext (pkt_crypto pk))"

text \<open>The frame fits the 16 bit fragment counter and the sequence numbers do not wrap.\<close>

definition fits :: "'c Packetizer \<Rightarrow> bytes \<Rightarrow> bool" where
  "fits pk d \<longleftrightarrow> d \<noteq> [] \<and> packet_count pk d < 65536 \<and>
     unat (pkt_sequence pk) + packet_count pk d \<le> 4294967296"

context total_sealed_channel
begin

lemma packets_exist:
  assumes ch: "channel_ok paired (pkt_crypto pk) rxc" and fits: "fits pk d"
  shows "\<exists>pkt. frame_packets seal pk d fid ts key = map pkt [0..<packet_count pk d] \<and>
    (\<forall>i. length (pkt i) \<le> VEYRA_MAX_PACKET_SIZE \<and>
       open_packet unseal rxc (Some (pkt i)) (length (pkt i)) =
         Some (chunk_header (nth_state pk i) fid ts key d (fragmentCount (pkt_crypto pk) (length d)) i,
               piece (maxPlaintext (pkt_crypto pk)) d i))"
proof -
  let ?fc = "fragmentCount (pkt_crypto pk) (length d)"
  have "\<exists>p. fst (packetize_fragment seal d (length d) fid ts key ?fc (nth_state pk i) i) = [p] \<and>
      open_packet unseal rxc (Some p) (length p) =
        Some (chunk_header (nth_state pk i) fid ts key d ?fc i, piece (maxPlaintext (pkt_crypto pk)) d i) \<and>
      length p \<le> VEYRA_MAX_PACKET_SIZE" for i
    using fragment_opens [of "nth_state pk i" rxc d fid ts key ?fc i] ch by simp
  then obtain pkt where pkt: "\<And>i. fst (packetize_fragment seal d (length d) fid ts key ?fc (nth_state pk i) i) = [pkt i]"
    "\<And>i. open_packet unseal rxc (Some (pkt i)) (length (pkt i)) =
        Some (chunk_header (nth_state pk i) fid ts key d ?fc i, piece (maxPlaintext (pkt_crypto pk)) d i)"
    "\<And>i. length (pkt i) \<le> VEYRA_MAX_PACKET_SIZE"
    by metis
  have "unat ?fc = packet_count pk d" "0 < length d"
    using fits by (simp_all add: fits_def packet_count_def fragmentCount_unat)
  then have "frame_packets seal pk d fid ts key = map pkt [0..<packet_count pk d]"
    by (simp add: frame_packets_def PacketizeFrame_emits Let_def pkt(1) map_concat [symmetric]
        concat_map_singleton)
  with pkt show ?thesis by blast
qed

lemma frame_arrives:
  assumes ch: "channel_ok paired (pkt_crypto pk) (ra_crypto r)" and fits: "fits pk d"
    and inv: "ra_inv r" and take: "can_take r (pkt_sessionId pk) fid (pkt_sequence pk) key"
    and fid: "fid \<noteq> 0"
    and order: "distinct order" "set order = {..<packet_count pk d}"
      "sorted_wrt (\<lambda>j i. j < i + 64) order"
  shows "fst (receive_all unseal r (map ((!) (frame_packets seal pk d fid ts key)) order)) =
    [FrameReady \<lparr>vf_frameId = fid, vf_timestampUs = ts, vf_isKeyframe = key, vf_data = d\<rparr>]"
proof -
  let ?k = "packet_count pk d" and ?m = "maxPlaintext (pkt_crypto pk)"
  let ?h = "\<lambda>i. chunk_header (nth_state pk i) fid ts key d (fragmentCount (pkt_crypto pk) (length d)) i"
  obtain pkt where pkts: "frame_packets seal pk d fid ts key = map pkt [0..<?k]"
    and opened: "\<And>i. open_packet unseal (ra_crypto r) (Some (pkt i)) (length (pkt i)) =
      Some (?h i, piece ?m d i)"
    using packets_exist [OF ch fits, of fid ts key] by blast
  have pos: "0 < ?k" using fits maxPlaintext_bounds(3) [of "pkt_crypto pk"]
    by (simp add: fits_def packet_count_def pieces_needed_pos)
  have fc: "unat (fragmentCount (pkt_crypto pk) (length d)) = ?k"
    using fits by (simp add: fits_def packet_count_def fragmentCount_unat)
  obtain S where ar: "arriving r S (pkt_sequence pk) (pkt_sessionId pk) fid ts key (piece ?m d) ?k [] r"
    and S: "\<forall>y \<in> S. unat y < unat (pkt_sequence pk)"
    using can_take_arriving [OF inv take] by blast
  have same: "map ((!) (frame_packets seal pk d fid ts key)) order = map pkt order"
  proof (rule map_cong [OF refl])
    fix i
    assume "i \<in> set order"
    then have "i < ?k" unfolding order(2) by simp
    then show "frame_packets seal pk d fid ts key ! i = pkt i" unfolding pkts by simp
  qed
  have "order \<noteq> []" using order(2) pos by (metis empty_iff lessThan_iff list.set(1))
  moreover have "concat (map (piece ?m d) [0..<?k]) = d"
    using maxPlaintext_bounds(3) [of "pkt_crypto pk"]
    by (simp add: packet_count_def concat_pieces_all pieces_needed_covers)
  moreover have "fst (receive_all unseal r (map pkt order)) =
      [FrameReady \<lparr>vf_frameId = fid, vf_timestampUs = ts, vf_isKeyframe = key,
         vf_data = concat (map (piece ?m d) [0..<?k])\<rparr>]"
  proof (rule conjunct1 [OF arriving_run])
    show "arriving r S (pkt_sequence pk) (pkt_sessionId pk) fid ts key (piece ?m d) ?k [] r" by (rule ar)
    show "\<And>i. is_chunk (pkt_sequence pk) (pkt_sessionId pk) fid ts key ?k i (?h i)"
      by (rule chunk_header_is_chunk [OF fc])
    show "\<And>i. open_packet unseal (ra_crypto r) (Some (pkt i)) (length (pkt i)) = Some (?h i, piece ?m d i)"
      by (rule opened)
    show "unat (pkt_sequence pk) + ?k \<le> 4294967296" "?k < 65536" using fits by (simp_all add: fits_def)
    show "\<forall>y \<in> S. unat y < unat (pkt_sequence pk)" by (rule S)
    show "fid \<noteq> 0" "order \<noteq> []" by fact+
    show "distinct ([] @ order)" "set ([] @ order) = {..<?k}" "sorted_wrt (\<lambda>j i. j < i + 64) ([] @ order)"
      unfolding append_Nil by (rule order)+
  qed
  ultimately show ?thesis by (simp only: same)
qed

lemma packets_sized:
  assumes ch: "channel_ok paired (pkt_crypto pk) rxc" and fits: "fits pk d"
    and p: "p \<in> set (frame_packets seal pk d fid ts key)"
  shows "p \<noteq> [] \<and> length p \<le> VEYRA_MAX_PACKET_SIZE"
proof -
  obtain i h b where "open_packet unseal rxc (Some p) (length p) = Some (h, b)" "length p \<le> VEYRA_MAX_PACKET_SIZE"
    using packets_exist [OF ch fits, of fid ts key] p by auto
  then show ?thesis by (auto simp: open_packet_def wire_simps)
qed

lemma frame_arrives_in_order:
  assumes ch: "channel_ok paired (pkt_crypto pk) (ra_crypto r)" and fits: "fits pk d"
    and inv: "ra_inv r" and take: "can_take r (pkt_sessionId pk) fid (pkt_sequence pk) key"
    and fid: "fid \<noteq> 0"
  shows "fst (receive_all unseal r (frame_packets seal pk d fid ts key)) =
    [FrameReady \<lparr>vf_frameId = fid, vf_timestampUs = ts, vf_isKeyframe = key, vf_data = d\<rparr>]"
proof -
  have "sorted_wrt (\<lambda>j i. j < i + 64) [0..<packet_count pk d]"
    by (rule sorted_wrt_mono_rel [OF _ sorted_wrt_upt]) simp
  note arrives = frame_arrives [OF assms _ _ this]
  have "length (frame_packets seal pk d fid ts key) = packet_count pk d"
    using packets_exist [OF ch fits, of fid ts key] by auto
  then have "map ((!) (frame_packets seal pk d fid ts key)) [0..<packet_count pk d] = frame_packets seal pk d fid ts key"
    by (metis map_nth)
  with arrives [of ts] show ?thesis by (simp only: distinct_upt set_upt atLeast0LessThan simp_thms)
qed

end

lemma window_small: "set order \<subseteq> {..<64} \<Longrightarrow> sorted_wrt (\<lambda>j i. j < i + (64 :: nat)) order"
  by (induction order) auto

lemma reordering_indices:
  "mset ds = image_mset f M \<Longrightarrow> \<exists>order. mset order = M \<and> ds = map f order"
proof (induction ds arbitrary: M)
  case Nil
  then show ?case by simp
next
  case (Cons x ds)
  then obtain M1 a where M: "M = add_mset a M1" "f a = x" "image_mset f M1 = mset ds"
    by (metis mset.simps(2) msed_map_invR)
  with Cons.IH [of M1] obtain order where "mset order = M1" "ds = map f order" by auto
  with M show ?case by (intro exI [of _ "a # order"]) simp
qed

lemma frame_packets_length:
  assumes "channel_ok (session_live P) (pkt_crypto pk) rxc" "fits pk d"
  shows "length (frame_packets (Encrypt P) pk d fid ts key) = packet_count pk d"
  using live.packets_exist [OF assms, of fid ts key] by auto

lemma can_take_fresh:
  assumes "ra_onFrameReady r" "\<not> ra_sessionLocked r \<or> ra_expectedSession r = sid" "ra_waiting r"
    "ra_pending r = []" "ra_replay r = ReplayFilter_init"
  shows "can_take r sid fid seq True"
  using assms replay.rel_start by (auto simp: can_take_def stale_def)

lemma demo_armed_takes: "can_take demo_armed 9 1 0 True"
  by (rule can_take_fresh) (simp_all add: demo_armed_def SetExpectedSessionId_def ra_SetCrypto_def
      FrameReassembler_new_def)

lemma demo_receiver_takes: "can_take demo_receiver 9 1 5 True"
  by (rule can_take_fresh) (simp_all add: demo_receiver_def FrameReassembler_new_def)

subsection \<open>Properties\<close>

text \<open>End to end, in order: every frame that fits the fragment counter, of up to 65535
  fragments, packetized (in the clear or sealed under the session keys) and received in order
  by a reassembler that can take it, comes out as exactly one frame: the same id, time stamp,
  keyframe flag and bytes.\<close>

theorem frame_roundtrip_in_order:
  assumes "channel_ok (session_live P) (pkt_crypto pk) (ra_crypto r)"
    and "fits pk d" and "rx_reachable (Decrypt P) r"
    and "can_take r (pkt_sessionId pk) fid (pkt_sequence pk) key" and "fid \<noteq> 0"
  shows "fst (receive_all (Decrypt P) r (frame_packets (Encrypt P) pk d fid ts key)) =
    [FrameReady \<lparr>vf_frameId = fid, vf_timestampUs = ts, vf_isKeyframe = key, vf_data = d\<rparr>]"
  by (rule live.frame_arrives_in_order [OF assms(1,2) rx_reachable_inv [OF assms(3)] assms(4,5)])

theorem frame_roundtrip_in_order_witness:
  "fst (receive_all (Decrypt demo_lib) demo_armed
     (frame_packets (Encrypt demo_lib) ((Packetizer_new 9)\<lparr>pkt_crypto := Some demo_server\<rparr>)
        (replicate 1200 7) 1 50000 True)) =
   [FrameReady \<lparr>vf_frameId = 1, vf_timestampUs = 50000, vf_isKeyframe = True, vf_data = replicate 1200 7\<rparr>]"
proof (rule frame_roundtrip_in_order)
  show "channel_ok (session_live demo_lib) (pkt_crypto ((Packetizer_new 9)\<lparr>pkt_crypto := Some demo_server\<rparr>))
      (ra_crypto demo_armed)"
    by (simp add: channel_ok_def demo_session demo_armed_def SetExpectedSessionId_def ra_SetCrypto_def)
  show "fits ((Packetizer_new 9)\<lparr>pkt_crypto := Some demo_server\<rparr>) (replicate 1200 7)"
    by (simp add: fits_def packet_count_def pieces_needed_def maxPlaintext_def kAeadTagSize_def
        Packetizer_new_def wire_simps)
  show "rx_reachable (Decrypt demo_lib) demo_armed"
    by (simp add: demo_armed_def rx_reachable.intros)
qed (simp_all add: demo_armed_takes Packetizer_new_def)

text \<open>C1. End to end, reordered: a frame of at most 64 packets survives any reordering of its
  packets by the network.\<close>

theorem frame_roundtrip_reordered:
  assumes "channel_ok (session_live P) (pkt_crypto pk) (ra_crypto r)"
    and "fits pk d" and "rx_reachable (Decrypt P) r"
    and "can_take r (pkt_sessionId pk) fid (pkt_sequence pk) key" and "fid \<noteq> 0"
    and "packet_count pk d \<le> 64" and "mset ds = mset (frame_packets (Encrypt P) pk d fid ts key)"
  shows "fst (receive_all (Decrypt P) r ds) =
    [FrameReady \<lparr>vf_frameId = fid, vf_timestampUs = ts, vf_isKeyframe = key, vf_data = d\<rparr>]"
proof -
  let ?ps = "frame_packets (Encrypt P) pk d fid ts key" and ?k = "packet_count pk d"
  have "mset ?ps = image_mset ((!) ?ps) (mset [0..<?k])"
    by (metis frame_packets_length [OF assms(1,2)] map_nth mset_map)
  with assms(7) obtain order where order: "mset order = mset [0..<?k]" "ds = map ((!) ?ps) order"
    using reordering_indices by metis
  then have dist: "distinct order" by (metis distinct_upt mset_eq_imp_distinct_iff)
  have idx: "set order = {..<?k}"
    using order(1) by (metis atLeast0LessThan set_mset_mset set_upt)
  have window: "sorted_wrt (\<lambda>j i. j < i + 64) order"
    using idx assms(6) by (intro window_small) auto
  show ?thesis
    unfolding order(2)
    by (rule live.frame_arrives [OF assms(1,2) rx_reachable_inv [OF assms(3)] assms(4,5) dist idx window])
qed

theorem frame_roundtrip_reordered_witness:
  "fst (receive_all (Decrypt demo_lib) demo_receiver
     (rev (frame_packets (Encrypt demo_lib) (demo_sender 5) (replicate 1200 7) 1 50000 True))) =
   [FrameReady \<lparr>vf_frameId = 1, vf_timestampUs = 50000, vf_isKeyframe = True, vf_data = replicate 1200 7\<rparr>]"
proof (rule frame_roundtrip_reordered)
  show "channel_ok (session_live demo_lib) (pkt_crypto (demo_sender 5)) (ra_crypto demo_receiver)"
    by (simp add: channel_ok_def demo_receiver_def demo_sender_def Packetizer_new_def FrameReassembler_new_def)
  show "fits (demo_sender 5) (replicate 1200 7)" "packet_count (demo_sender 5) (replicate 1200 7) \<le> 64"
    by (simp_all add: fits_def packet_count_def pieces_needed_def maxPlaintext_def kAeadTagSize_def
        Packetizer_new_def demo_sender_def wire_simps)
  show "can_take demo_receiver (pkt_sessionId (demo_sender 5)) 1 (pkt_sequence (demo_sender 5)) True"
    using demo_receiver_takes by (simp add: demo_sender_def Packetizer_new_def)
qed (simp_all add: demo_reachable)

end
