(* ===== verification/Arming.thy ===== *)
theory Arming
  imports Reassembly_Safety
begin

text \<open>
  What arming a key leaves behind: \<open>FrameReassembler::SetCrypto\<close> installs the key, clears the
  replay filter and unlocks the session, but keeps the pending frames and the last emitted frame
  id that were formed from unauthenticated packets. The receiver of the Windows service listens
  before pairing, so these are states an outsider can choose.
\<close>

definition armed_later :: "'c \<Rightarrow> u32 \<Rightarrow> 'c FrameReassembler \<Rightarrow> 'c FrameReassembler" where
  "armed_later c s r = SetExpectedSessionId s (ra_SetCrypto (Some c) r)"

lemma armed_later_simps [simp]:
  "ra_crypto (armed_later c s r) = Some c" "ra_pending (armed_later c s r) = ra_pending r"
  "ra_lastEmitted (armed_later c s r) = ra_lastEmitted r" "ra_waiting (armed_later c s r) = ra_waiting r"
  "ra_sessionLocked (armed_later c s r)" "ra_expectedSession (armed_later c s r) = s"
  by (simp_all add: armed_later_def SetExpectedSessionId_def ra_SetCrypto_def)

text \<open>Frames that are not newer than the last emitted one are dropped without an event.\<close>

definition blocked :: "u32 \<Rightarrow> 'c \<Rightarrow> 'c FrameReassembler \<Rightarrow> bool" where
  "blocked i c r \<longleftrightarrow> ra_crypto r = Some c \<and> \<not> ra_waiting r \<and> ra_lastEmitted r = i"

definition not_newer ::
  "('c \<Rightarrow> bytes \<Rightarrow> nat \<Rightarrow> u32 \<Rightarrow> bytes \<Rightarrow> bytes option) \<Rightarrow> 'c \<Rightarrow> u32 \<Rightarrow> bytes \<Rightarrow> bool" where
  "not_newer unseal c i d \<longleftrightarrow>
     (case open_packet unseal (Some c) (Some d) (length d) of
        None \<Rightarrow> True
      | Some (h, b) \<Rightarrow> hdr_frameId h \<le> i \<and> i - hdr_frameId h < 0x7FFFFFFF)"

lemma not_newer_dropped:
  assumes "blocked i c r" and "not_newer unseal c i d"
  shows "blocked i c (snd (receive unseal r d)) \<and> fst (receive unseal r d) = []"
proof (cases rule: PushPacket_cases [of unseal r "Some d" "length d"])
  case dropped
  then show ?thesis using assms(1) by (simp add: receive_simps)
next
  case (replayed h b)
  then show ?thesis using assms(1) by (simp add: receive_simps blocked_def)
next
  case (fresh h b)
  let ?r = "r\<lparr>ra_replay := snd (Accept (ra_replay r) (hdr_sequence h))\<rparr>"
  have "stale (hdr_frameId h) ?r"
    using assms fresh(1) by (simp add: blocked_def not_newer_def stale_def)
  then show ?thesis using fresh(3) assms(1)
    by (cases rule: deliver_cases [of ?r h b]) (simp_all add: receive_simps blocked_def)
qed

lemma blocked_silent:
  assumes "blocked i c r" and "\<forall>d \<in> set ds. not_newer unseal c i d"
  shows "fst (receive_all unseal r ds) = []"
proof -
  have "\<forall>e \<in> set (fst (receive_all unseal r ds)). False"
    unfolding receive_all_def using assms(1)
    by (rule emits_outputs [where I = "blocked i c"]) (use assms(2) not_newer_dropped in fastforce)
  then show ?thesis by simp
qed

text \<open>A complete keyframe of one packet, without encryption, that a fresh receiver emits.\<close>

lemma clear_keyframe_is_emitted:
  assumes "ra_pending r = []" "ra_waiting r" "ra_crypto r = None" "\<not> ra_sessionLocked r"
    "ra_replay r = ReplayFilter_init"
    and "open_packet unseal None (Some d) (length d) = Some (h, b)"
    and "has_flag (hdr_flags h) FLAG_KEYFRAME" "hdr_fragmentIndex h = 0" "hdr_fragmentCount h = 1"
  shows "ra_lastEmitted (snd (receive unseal r d)) = hdr_frameId h \<and> \<not> ra_waiting (snd (receive unseal r d))"
  using assms
  by (auto simp: receive_def PushPacket_def deliver_def stale_def store_fragment_def Let_def Accept_def
      ReplayFilter_init_def pending_entry_def PendingFrame_default_def add_fragment_def
      frame_complete_def assemble_def)

subsection \<open>Properties\<close>

text \<open>C37. Blocking before pairing: a fresh receiver takes one unencrypted keyframe of a single packet, and is
  armed with a key and a session id afterwards. For every sequence of datagrams that do not open under the
  key, or whose frame id is not above that of the keyframe and less than \<open>2 ^ 31 - 1\<close> below it, the
  receiver then emits nothing: no frame, and no request for a keyframe either. With the id \<open>2 ^ 31 - 1\<close>
  in the forged packet these are all frames 1 to \<open>2 ^ 31 - 1\<close> of the paired session.\<close>

theorem packet_before_pairing_blocks_the_session:
  assumes "open_packet (Decrypt P) None (Some d) (length d) = Some (h, b)"
    and "has_flag (hdr_flags h) FLAG_KEYFRAME" and "hdr_fragmentIndex h = 0" and "hdr_fragmentCount h = 1"
    and "r = armed_later c s (snd (receive (Decrypt P) (FrameReassembler_new True True) d))"
    and "\<forall>d' \<in> set ds. not_newer (Decrypt P) c (hdr_frameId h) d'"
  shows "fst (receive_all (Decrypt P) r ds) = []"
proof -
  have "ra_lastEmitted (snd (receive (Decrypt P) (FrameReassembler_new True True) d)) = hdr_frameId h \<and>
    \<not> ra_waiting (snd (receive (Decrypt P) (FrameReassembler_new True True) d))"
    using assms(1-4) by (intro clear_keyframe_is_emitted) (simp_all add: FrameReassembler_new_def)
  then have "blocked (hdr_frameId h) c r" using assms(5) by (simp add: blocked_def)
  then show ?thesis using assms(6) by (rule blocked_silent)
qed

theorem packet_before_pairing_blocks_the_session_witness:
  "fst (receive_all (Decrypt demo_lib)
     (armed_later demo_client 9 (snd (receive (Decrypt demo_lib) (FrameReassembler_new True True) (demo_video 1000 True 0))))
     [demo_sealed, [], demo_sealed]) = [] \<and>
   fst (receive_all (Decrypt demo_lib) (armed_later demo_client 9 (FrameReassembler_new True True)) [demo_sealed]) \<noteq> []"
proof -
  let ?h = "video_header (demo_sender 0) 1000 50000 True 1 0 3"
  have o1: "open_packet (Decrypt demo_lib) None (Some (demo_video 1000 True 0)) (length (demo_video 1000 True 0)) =
      Some (?h, [7, 8, 9])" by code_simp
  have h: "has_flag (hdr_flags ?h) FLAG_KEYFRAME" "hdr_fragmentIndex ?h = 0" "hdr_fragmentCount ?h = 1"
    by code_simp+
  have "list_all (not_newer (Decrypt demo_lib) demo_client (hdr_frameId ?h)) [demo_sealed, [], demo_sealed]" by code_simp
  then have n: "\<forall>d' \<in> set [demo_sealed, [], demo_sealed]. not_newer (Decrypt demo_lib) demo_client (hdr_frameId ?h) d'"
    by (simp add: list_all_iff)
  have "fst (receive_all (Decrypt demo_lib) (armed_later demo_client 9 (FrameReassembler_new True True)) [demo_sealed]) \<noteq> []"
    by code_simp
  with packet_before_pairing_blocks_the_session [OF o1 h refl n] show ?thesis by blast
qed

text \<open>C36. Mixing: let a fresh receiver take an unencrypted packet with the first of two fragments of a keyframe
  with a nonzero id, and be armed afterwards with a key and a session id. The second fragment of that frame,
  from a packet of the session that opens under the key, then completes it: the armed receiver emits a frame
  that begins with the unauthenticated bytes.\<close>

theorem unauthenticated_fragment_survives_arming:
  assumes "open_packet (Decrypt P) None (Some d) (length d) = Some (h, b)"
    and "has_flag (hdr_flags h) FLAG_KEYFRAME" and "hdr_fragmentIndex h = 0" and "hdr_fragmentCount h = 2"
    and "r = armed_later c s (snd (receive (Decrypt P) (FrameReassembler_new True True) d))"
    and "open_packet (Decrypt P) (Some c) (Some d') (length d') = Some (h', b')"
    and "has_flag (hdr_flags h') FLAG_KEYFRAME" and "hdr_fragmentIndex h' = 1"
    and "hdr_frameId h' = hdr_frameId h" and "hdr_frameId h \<noteq> 0" and "hdr_sessionId h' = s"
  shows "fst (receive_all (Decrypt P) r [d']) = [FrameReady \<lparr>vf_frameId = hdr_frameId h,
      vf_timestampUs = hdr_timestampUs h, vf_isKeyframe = True, vf_data = b @ b'\<rparr>] \<and>
    (\<forall>h b. \<not> authentic (Decrypt P) c d h b)"
proof -
  let ?p = "\<lparr>pf_frameId = hdr_frameId h, pf_timestampUs = hdr_timestampUs h, pf_isKeyframe = True,
    pf_totalFragments = 2, pf_receivedFragments = 1, pf_fragments = [(0, b)]\<rparr>"
  let ?q = "snd (receive (Decrypt P) (FrameReassembler_new True True) d)"
  have clear: "\<not> has_flag (hdr_flags h) FLAG_ENCRYPTED" "h = bytes_header d"
    using assms(1) by (auto simp: open_packet_def DeserializeHeader_Some Let_def split: if_splits prod.splits option.splits)
  have q: "ra_pending ?q = [(hdr_frameId h, ?p)]" "ra_waiting ?q" "ra_onFrameReady ?q"
    using assms(1-4)
    by (simp_all add: receive_def PushPacket_def FrameReassembler_new_def Accept_def ReplayFilter_init_def
        deliver_def stale_def store_fragment_def pending_entry_def PendingFrame_default_def add_fragment_def
        frame_complete_def trim_pending_def Let_def)
  have "fst (receive_all (Decrypt P) r [d']) = [FrameReady \<lparr>vf_frameId = hdr_frameId h,
      vf_timestampUs = hdr_timestampUs h, vf_isKeyframe = True, vf_data = b @ b'\<rparr>]"
    using assms(5-11) q
    by (simp add: receive_all_def receive_def PushPacket_def Accept_def armed_later_def ra_SetCrypto_def
        SetExpectedSessionId_def ReplayFilter_init_def deliver_def stale_def store_fragment_def pending_entry_def
        add_fragment_def frame_complete_def assemble_def fragment_at_def Let_def upt_rec)
  then show ?thesis using clear by (simp add: authentic_def)
qed

theorem unauthenticated_fragment_survives_arming_witness:
  "\<exists>d d'. fst (receive_all (Decrypt demo_lib)
       (armed_later demo_client 9 (snd (receive (Decrypt demo_lib) (FrameReassembler_new True True) d))) [d']) =
     [FrameReady \<lparr>vf_frameId = 1, vf_timestampUs = 50000, vf_isKeyframe = True, vf_data = [0xBA, 8]\<rparr>]"
proof -
  let ?h = "video_header (demo_sender 0) 1 50000 True 2 0 1"
  let ?d = "header_bytes ?h @ [0xBA]"
  let ?pk = "(Packetizer_new 9)\<lparr>pkt_crypto := Some demo_server\<rparr>"
  let ?h' = "video_header ?pk 1 50000 True 2 1 17"
  let ?d' = "header_bytes ?h' @ snd (Encrypt demo_lib demo_server (Some [8]) 1 0 (header_bytes ?h'))"
  have o: "open_packet (Decrypt demo_lib) None (Some ?d) (length ?d) = Some (?h, [0xBA])"
    "open_packet (Decrypt demo_lib) (Some demo_client) (Some ?d') (length ?d') = Some (?h', [8])" by code_simp+
  have h: "has_flag (hdr_flags ?h) FLAG_KEYFRAME" "hdr_fragmentIndex ?h = 0" "hdr_fragmentCount ?h = 2"
    "has_flag (hdr_flags ?h') FLAG_KEYFRAME" "hdr_fragmentIndex ?h' = 1" "hdr_frameId ?h' = hdr_frameId ?h"
    "hdr_frameId ?h \<noteq> 0" "hdr_sessionId ?h' = 9" "hdr_frameId ?h = 1" "hdr_timestampUs ?h = 50000" by code_simp+
  from unauthenticated_fragment_survives_arming [OF o(1) h(1-3) refl o(2) h(4-8)] h(9,10) show ?thesis
    by (intro exI [of _ ?d] exI [of _ ?d']) simp
qed

end
