(* ===== verification/Arming_Race.thy ===== *)
theory Arming_Race
  imports Arming
begin

text \<open>
  Arming while a packet is on its way. The media thread runs \<open>FrameReassembler::PushPacket\<close>
  (\<open>native/core/src/packetizer.cpp\<close>), the control thread arms the receiver in
  \<open>ServiceManager::HandlePairingChallenge\<close>. \<open>PushPacket\<close> reads \<open>crypto_\<close> and updates \<open>replayFilter_\<close>
  before it takes the mutex, so the control thread can run between these accesses. A step here is one
  of them: opening, the replay check, the part under the mutex; \<open>SetCrypto\<close> and
  \<open>SetExpectedSessionId\<close> are steps of their own.
\<close>

subsection \<open>The two threads\<close>

text \<open>What the media thread holds between two of its steps.\<close>

datatype in_flight = Idle | Opened PacketHeader bytes | Checked PacketHeader bytes

datatype 'c race_step = Open bytes | Check | Deliver | Arm 'c | Pin u32

text \<open>A step that does not fit the state of the media thread does nothing.\<close>

fun race ::
  "('c \<Rightarrow> bytes \<Rightarrow> nat \<Rightarrow> u32 \<Rightarrow> bytes \<Rightarrow> bytes option) \<Rightarrow> 'c FrameReassembler \<times> in_flight \<Rightarrow> 'c race_step \<Rightarrow>
     rx_event list \<times> ('c FrameReassembler \<times> in_flight)" where
  "race unseal (r, Idle) (Open d) =
     ([], r, case open_packet unseal (ra_crypto r) (Some d) (length d) of None \<Rightarrow> Idle | Some (h, b) \<Rightarrow> Opened h b)"
| "race unseal (r, Opened h b) Check =
     (let (fresh, f) = Accept (ra_replay r) (hdr_sequence h)
      in ([], r\<lparr>ra_replay := f\<rparr>, if fresh then Checked h b else Idle))"
| "race unseal (r, Checked h b) Deliver = (let (_, es, r') = deliver h b r in (es, r', Idle))"
| "race unseal (r, l) (Arm c) = ([], ra_SetCrypto (Some c) r, l)"
| "race unseal (r, l) (Pin s) = ([], SetExpectedSessionId s r, l)"
| "race unseal (r, l) _ = ([], r, l)"

text \<open>The packets that a schedule hands to the part under the mutex.\<close>

definition handed :: "in_flight \<Rightarrow> 'c race_step \<Rightarrow> (PacketHeader \<times> bytes) list" where
  "handed l x = (case (l, x) of (Checked h b, Deliver) \<Rightarrow> [(h, b)] | _ \<Rightarrow> [])"

fun handed_over ::
  "('c \<Rightarrow> bytes \<Rightarrow> nat \<Rightarrow> u32 \<Rightarrow> bytes \<Rightarrow> bytes option) \<Rightarrow> 'c FrameReassembler \<times> in_flight \<Rightarrow> 'c race_step list \<Rightarrow>
     (PacketHeader \<times> bytes) list" where
  "handed_over unseal s [] = []"
| "handed_over unseal s (x # xs) = handed (snd s) x @ handed_over unseal (snd (race unseal s x)) xs"

definition uninterrupted :: "bytes list \<Rightarrow> 'c race_step list" where
  "uninterrupted ds = concat (map (\<lambda>d. [Open d, Check, Deliver]) ds)"

subsection \<open>Lemmas\<close>

text \<open>Without interruption the three steps are \<open>PushPacket\<close>.\<close>

lemma three_steps:
  "emits (race unseal) (r, Idle) [Open d, Check, Deliver] =
     (fst (receive unseal r d), snd (receive unseal r d), Idle)"
  by (cases "open_packet unseal (ra_crypto r) (Some d) (length d)")
    (auto simp: receive_def PushPacket_def Let_def split_beta)

lemma uninterrupted_Cons: "uninterrupted (d # ds) = [Open d, Check, Deliver] @ uninterrupted ds"
  by (simp add: uninterrupted_def)

lemma uninterrupted_run:
  "emits (race unseal) (r, Idle) (uninterrupted ds) =
     (fst (receive_all unseal r ds), snd (receive_all unseal r ds), Idle)"
proof (induction ds arbitrary: r)
  case Nil
  then show ?case by (simp add: uninterrupted_def receive_all_def)
next
  case (Cons d ds)
  have step: "emits (race unseal) (r, Idle) (uninterrupted (d # ds)) =
      (let (o2, s2) = emits (race unseal) (snd (receive unseal r d), Idle) (uninterrupted ds)
       in (fst (receive unseal r d) @ o2, s2))"
    by (simp only: uninterrupted_Cons emits_append three_steps Let_def case_prod_conv prod.case)
  show ?case unfolding step using Cons.IH by (simp add: receive_all_def split_beta)
qed

text \<open>Under a key that stays, what the media thread opens is authentic.\<close>

definition clean :: "('c \<Rightarrow> bytes \<Rightarrow> nat \<Rightarrow> u32 \<Rightarrow> bytes \<Rightarrow> bytes option) \<Rightarrow> 'c \<Rightarrow> in_flight \<Rightarrow> bool" where
  "clean unseal c l =
     (case l of Idle \<Rightarrow> True | Opened h b \<Rightarrow> \<exists>d. authentic unseal c d h b
      | Checked h b \<Rightarrow> \<exists>d. authentic unseal c d h b)"

fun is_arm :: "'c race_step \<Rightarrow> bool" where
  "is_arm (Arm c) = True"
| "is_arm _ = False"

lemma deliver_crypto: "ra_crypto (snd (snd (deliver h b r))) = ra_crypto r"
  by (cases rule: deliver_cases [of r h b]) (auto simp: store_fragment_def Let_def)

lemma race_crypto:
  "\<not> is_arm x \<Longrightarrow> ra_crypto (fst (snd (race unseal (r, l) x))) = ra_crypto r"
  by (cases "(unseal, (r, l), x)" rule: race.cases)
    (auto simp: Let_def split_beta deliver_crypto SetExpectedSessionId_def)

lemma race_clean:
  assumes "\<not> is_arm x" and "ra_crypto r = Some c" and "clean unseal c l"
  shows "clean unseal c (snd (snd (race unseal (r, l) x))) \<and>
    (\<forall>(h, b) \<in> set (handed l x). \<exists>d. authentic unseal c d h b)"
  using assms open_packet_armed [of unseal c]
  by (cases "(unseal, (r, l), x)" rule: race.cases)
    (auto simp: clean_def handed_def Let_def split_beta split: option.splits)

lemma race_idle:
  assumes "\<not> is_arm x" and "handed l x \<noteq> []"
  shows "snd (snd (race unseal (r, l) x)) = Idle \<and> length (handed l x) = 1"
  using assms by (cases l; cases x) (auto simp: handed_def split_beta)

lemma handed_clean:
  "list_all (Not \<circ> is_arm) xs \<Longrightarrow> ra_crypto r = Some c \<Longrightarrow> clean unseal c l \<Longrightarrow>
     \<forall>(h, b) \<in> set (handed_over unseal (r, l) xs). \<exists>d. authentic unseal c d h b"
proof (induction xs arbitrary: r l)
  case Nil
  then show ?case by simp
next
  case (Cons x xs)
  obtain r' l' where n: "snd (race unseal (r, l) x) = (r', l')" by (cases "snd (race unseal (r, l) x)")
  from Cons.prems have "\<not> is_arm x" by simp
  from race_clean [OF this Cons.prems(2,3)] n
  have "clean unseal c l'" "\<forall>(h, b) \<in> set (handed l x). \<exists>d. authentic unseal c d h b" by simp_all
  moreover from race_crypto [OF \<open>\<not> is_arm x\<close>, of unseal r l] n Cons.prems(2) have "ra_crypto r' = Some c" by simp
  ultimately show ?case using Cons.IH [of r' l'] Cons.prems(1) n by auto
qed

lemma handed_after_first:
  "list_all (Not \<circ> is_arm) xs \<Longrightarrow> ra_crypto r = Some c \<Longrightarrow>
     \<forall>(h, b) \<in> set (tl (handed_over unseal (r, l) xs)). \<exists>d. authentic unseal c d h b"
proof (induction xs arbitrary: r l)
  case Nil
  then show ?case by simp
next
  case (Cons x xs)
  obtain r' l' where n: "snd (race unseal (r, l) x) = (r', l')" by (cases "snd (race unseal (r, l) x)")
  from Cons.prems have x: "\<not> is_arm x" by simp
  with race_crypto [of x unseal r l] n Cons.prems(2) have c: "ra_crypto r' = Some c" by simp
  show ?case
  proof (cases "handed l x = []")
    case True
    with Cons n c show ?thesis by simp
  next
    case False
    from race_idle [OF x False, of unseal r] n have "l' = Idle" "length (handed l x) = 1" by simp_all
    moreover have "\<forall>(h, b) \<in> set (handed_over unseal (r', Idle) xs). \<exists>d. authentic unseal c d h b"
      by (rule handed_clean [OF _ c]) (use Cons.prems(1) in \<open>simp_all add: clean_def comp_def\<close>)
    ultimately show ?thesis using n by (cases "handed l x") simp_all
  qed
qed

subsection \<open>Properties\<close>

text \<open>A packet in flight survives arming: an unencrypted keyframe packet that the media thread has
  opened and checked before the control thread arms the receiver and pins the session is emitted as
  a frame of the paired session afterwards, although the key is installed and the packet is not
  authentic.\<close>

theorem packet_in_flight_survives_arming:
  assumes "open_packet (Decrypt P) None (Some d) (length d) = Some (h, b)"
    and "has_flag (hdr_flags h) FLAG_KEYFRAME" and "hdr_fragmentIndex h = 0" and "hdr_fragmentCount h = 1"
  shows "\<exists>r f. emits (race (Decrypt P)) (FrameReassembler_new True True, Idle)
      [Open d, Check, Arm c, Pin (hdr_sessionId h), Deliver] = ([FrameReady f], r, Idle) \<and>
    vf_data f = b \<and> ra_crypto r = Some c \<and> \<not> authentic (Decrypt P) c d h b"
proof -
  have "\<not> has_flag (hdr_flags h) FLAG_ENCRYPTED"
    using assms(1) by (auto simp: open_packet_def Let_def split: if_splits prod.splits option.splits)
  then have "\<not> authentic (Decrypt P) c d h b" by (simp add: authentic_def)
  with assms show ?thesis
    by (simp add: FrameReassembler_new_def ra_SetCrypto_def SetExpectedSessionId_def deliver_def stale_def
        store_fragment_def Let_def Accept_def ReplayFilter_init_def pending_entry_def PendingFrame_default_def
        add_fragment_def frame_complete_def assemble_def fragment_at_def)
qed

theorem packet_in_flight_survives_arming_witness:
  "\<exists>r f. emits (race (Decrypt demo_lib)) (FrameReassembler_new True True, Idle)
      [Open (demo_video 1 True 0), Check, Arm demo_client, Pin 9, Deliver] = ([FrameReady f], r, Idle) \<and>
    vf_data f = [7, 8, 9] \<and> ra_crypto r = Some demo_client"
proof -
  let ?d = "demo_video 1 True 0"
  let ?h = "bytes_header ?d"
  have o1: "open_packet (Decrypt demo_lib) None (Some ?d) (length ?d) = Some (?h, [7, 8, 9])" by code_simp
  have "has_flag (hdr_flags ?h) FLAG_KEYFRAME" "hdr_fragmentIndex ?h = 0" "hdr_fragmentCount ?h = 1"
    and s: "hdr_sessionId ?h = 9" by code_simp+
  from packet_in_flight_survives_arming [OF o1 this(1-3), of demo_client] s show ?thesis by auto
qed

text \<open>C38. At most one packet escapes: once a key is armed, whatever the interleaving of the media thread
  with the pinning of the session, every packet that reaches the reassembly after the first one is
  authentic under that key, and so is the first when the media thread was idle; and a media thread
  that is not interrupted behaves as the sequence of its \<open>PushPacket\<close> calls.\<close>

theorem one_packet_escapes_arming:
  assumes "list_all (Not \<circ> is_arm) xs" and "ra_crypto r = Some c"
  shows "(\<forall>(h, b) \<in> set (tl (handed_over unseal (r, l) xs)). \<exists>d. authentic unseal c d h b) \<and>
    (\<forall>(h, b) \<in> set (handed_over unseal (r, Idle) xs). \<exists>d. authentic unseal c d h b) \<and>
    emits (race unseal) (r, Idle) (uninterrupted ds) =
      (fst (receive_all unseal r ds), snd (receive_all unseal r ds), Idle)"
  using handed_after_first [OF assms] handed_clean [OF assms, of unseal Idle] uninterrupted_run
  by (simp add: clean_def)

theorem one_packet_escapes_arming_witness:
  "\<exists>h b. handed_over (Decrypt demo_lib) (demo_armed, Idle) [Open demo_sealed, Check, Pin 9, Deliver] = [(h, b)] \<and>
     (\<exists>d. authentic (Decrypt demo_lib) demo_client d h b)"
proof -
  have "map snd (handed_over (Decrypt demo_lib) (demo_armed, Idle) [Open demo_sealed, Check, Pin 9, Deliver]) = [[7, 8, 9]]"
    by code_simp
  then obtain h b where hb: "handed_over (Decrypt demo_lib) (demo_armed, Idle) [Open demo_sealed, Check, Pin 9, Deliver] = [(h, b)]"
    by (auto simp del: handed_over.simps)
  have "ra_crypto demo_armed = Some demo_client"
    by (simp add: demo_armed_def SetExpectedSessionId_def ra_SetCrypto_def)
  from one_packet_escapes_arming [of "[Open demo_sealed, Check, Pin 9, Deliver]", OF _ this, of "Decrypt demo_lib"] hb
  show ?thesis by (auto simp del: handed_over.simps)
qed

end
