(* ===== verification/Ring_Buffer.thy ===== *)
theory Ring_Buffer
  imports Veyra_Prelude
begin

text \<open>
  \<open>LockFreeRingBuffer\<close> and \<open>MemoryPool\<close> of \<open>native/core/include/veyra/ring_buffer.h\<close> and
  \<open>native/core/src/ring_buffer.cpp\<close>. The operations run to completion refine a bounded queue
  that drops its oldest element when full (locale \<open>dropping_queue\<close>). The two threads the
  class is written for are modelled by the atomic accesses of \<open>Push\<close> and \<open>Pop\<close> as single
  steps (\<open>rb_step\<close>), which shows the interleaving that loses elements.
\<close>

subsection \<open>The ring\<close>

text \<open>
  \<open>Capacity\<close> is the template argument; \<open>buffer_\<close> always has that many elements. The popped
  slot keeps its (moved from) element, which no operation reads before it is overwritten.
\<close>

record 'a ring =
  rb_buffer :: "'a list"
  rb_head :: nat
  rb_tail :: nat
  rb_dropped :: u64

definition ring_new :: "nat \<Rightarrow> 'a \<Rightarrow> 'a ring" where
  "ring_new Capacity dflt = \<lparr>rb_buffer = replicate Capacity dflt, rb_head = 0, rb_tail = 0, rb_dropped = 0\<rparr>"

definition rb_Push :: "nat \<Rightarrow> 'a \<Rightarrow> 'a ring \<Rightarrow> bool \<times> 'a ring" where
  "rb_Push Capacity item r =
     (let currentTail = rb_tail r;
          currentHead = rb_head r;
          nextTail = (currentTail + 1) mod Capacity;
          r = (if nextTail = currentHead
               then r\<lparr>rb_head := (currentHead + 1) mod Capacity, rb_dropped := rb_dropped r + 1\<rparr>
               else r)
      in (True, r\<lparr>rb_buffer := (rb_buffer r)[currentTail := item], rb_tail := nextTail\<rparr>))"

definition rb_Pop :: "nat \<Rightarrow> 'a ring \<Rightarrow> 'a option \<times> 'a ring" where
  "rb_Pop Capacity r =
     (if rb_head r = rb_tail r then (None, r)
      else (Some (rb_buffer r ! rb_head r), r\<lparr>rb_head := (rb_head r + 1) mod Capacity\<rparr>))"

definition rb_IsEmpty :: "'a ring \<Rightarrow> bool" where
  "rb_IsEmpty r \<longleftrightarrow> rb_head r = rb_tail r"

definition rb_Size :: "nat \<Rightarrow> 'a ring \<Rightarrow> nat" where
  "rb_Size Capacity r =
     (if rb_head r \<le> rb_tail r then rb_tail r - rb_head r
      else Capacity - (rb_head r - rb_tail r))"

definition rb_Clear :: "'a ring \<Rightarrow> 'a ring" where
  "rb_Clear r = r\<lparr>rb_head := 0, rb_tail := 0\<rparr>"

subsection \<open>The contract of a queue that drops its oldest element\<close>

definition keep_last :: "nat \<Rightarrow> 'a list \<Rightarrow> 'a list" where
  "keep_last n xs = drop (length xs - n) xs"

lemma length_keep_last [simp]: "length (keep_last n xs) = min n (length xs)"
  by (auto simp: keep_last_def)

lemma keep_last_idem: "keep_last n (keep_last n xs @ ys) = keep_last n (xs @ ys)"
  by (cases "length xs \<le> n") (auto simp: keep_last_def add.commute)

lemma keep_last_id: "length xs \<le> n \<Longrightarrow> keep_last n xs = xs"
  by (simp add: keep_last_def)

datatype 'a queue_op = Enq 'a | Deq

text \<open>The abstract queue: a list of at most \<open>n\<close> elements.\<close>

fun spec_run :: "nat \<Rightarrow> 'a list \<Rightarrow> 'a queue_op list \<Rightarrow> 'a option list \<times> 'a list" where
  "spec_run n q [] = ([], q)"
| "spec_run n q (Enq x # ops) = spec_run n (keep_last n (q @ [x])) ops"
| "spec_run n q (Deq # ops) =
     (case q of
        [] \<Rightarrow> (let (os, q') = spec_run n [] ops in (None # os, q'))
      | x # q1 \<Rightarrow> (let (os, q') = spec_run n q1 ops in (Some x # os, q')))"

text \<open>The same operations on an implementation.\<close>

fun queue_run ::
  "('a \<Rightarrow> 's \<Rightarrow> bool \<times> 's) \<Rightarrow> ('s \<Rightarrow> 'a option \<times> 's) \<Rightarrow> 's \<Rightarrow> 'a queue_op list \<Rightarrow> 'a option list \<times> 's" where
  "queue_run push pop s [] = ([], s)"
| "queue_run push pop s (Enq x # ops) = queue_run push pop (snd (push x s)) ops"
| "queue_run push pop s (Deq # ops) =
     (let (out, s1) = pop s; (os, s2) = queue_run push pop s1 ops in (out # os, s2))"

locale dropping_queue =
  fixes bound :: nat
    and valid :: "'s \<Rightarrow> bool"
    and items :: "'s \<Rightarrow> 'a list"
    and push :: "'a \<Rightarrow> 's \<Rightarrow> bool \<times> 's"
    and pop :: "'s \<Rightarrow> 'a option \<times> 's"
  assumes items_bound: "valid s \<Longrightarrow> length (items s) \<le> bound"
    and push_valid: "valid s \<Longrightarrow> valid (snd (push x s))"
    and push_items: "valid s \<Longrightarrow> items (snd (push x s)) = keep_last bound (items s @ [x])"
    and pop_valid: "valid s \<Longrightarrow> valid (snd (pop s))"
    and pop_items: "valid s \<Longrightarrow>
      (fst (pop s), items (snd (pop s))) =
        (case items s of [] \<Rightarrow> (None, []) | x # xs \<Rightarrow> (Some x, xs))"
begin

lemma run_refines:
  "valid s \<Longrightarrow>
     fst (queue_run push pop s ops) = fst (spec_run bound (items s) ops) \<and>
     items (snd (queue_run push pop s ops)) = snd (spec_run bound (items s) ops) \<and>
     valid (snd (queue_run push pop s ops))"
proof (induction ops arbitrary: s)
  case Nil
  then show ?case by simp
next
  case (Cons a ops)
  show ?case
  proof (cases a)
    case (Enq x)
    with Cons.IH [OF push_valid [OF Cons.prems]] show ?thesis
      by (simp add: push_items [OF Cons.prems])
  next
    case Deq
    with Cons.IH [OF pop_valid [OF Cons.prems]] pop_items [OF Cons.prems] show ?thesis
      by (auto simp: split_beta Let_def split: list.splits)
  qed
qed

lemma pushes_keep_last:
  "valid s \<Longrightarrow> items (snd (queue_run push pop s (map Enq xs))) = keep_last bound (items s @ xs)"
proof (induction xs arbitrary: s)
  case Nil
  then show ?case by (simp add: keep_last_id items_bound)
next
  case (Cons x xs)
  from Cons.IH [OF push_valid [OF Cons.prems]] show ?case
    by (simp add: push_items [OF Cons.prems] keep_last_idem)
qed

end

subsection \<open>The ring fulfils it\<close>

definition ring_valid :: "nat \<Rightarrow> 'a ring \<Rightarrow> bool" where
  "ring_valid Capacity r \<longleftrightarrow> 0 < Capacity \<and> length (rb_buffer r) = Capacity \<and>
     rb_head r < Capacity \<and> rb_tail r < Capacity"

definition ring_items :: "nat \<Rightarrow> 'a ring \<Rightarrow> 'a list" where
  "ring_items Capacity r =
     map (\<lambda>i. rb_buffer r ! ((rb_head r + i) mod Capacity)) [0..<rb_Size Capacity r]"

lemma ring_new_valid: "0 < n \<Longrightarrow> ring_valid n (ring_new n d) \<and> ring_items n (ring_new n d) = []"
  by (simp add: ring_valid_def ring_new_def ring_items_def rb_Size_def)

lemma rb_Size_bound: "ring_valid n r \<Longrightarrow> rb_Size n r < n"
  by (auto simp: ring_valid_def rb_Size_def)

lemma tail_index: "ring_valid n r \<Longrightarrow> rb_tail r = (rb_head r + rb_Size n r) mod n"
  by (auto simp: ring_valid_def rb_Size_def mod_if)

lemma rb_full_iff:
  "ring_valid n r \<Longrightarrow> (rb_tail r + 1) mod n = rb_head r \<longleftrightarrow> rb_Size n r = n - 1"
  by (auto simp: ring_valid_def rb_Size_def mod_if)

lemma slots_distinct: "i < s \<Longrightarrow> s < n \<Longrightarrow> h < n \<Longrightarrow> (h + i) mod n \<noteq> (h + s) mod n"
  for n :: nat
  by (auto simp: mod_if)

lemma rb_Push_valid: "ring_valid n r \<Longrightarrow> ring_valid n (snd (rb_Push n x r))"
  by (auto simp: ring_valid_def rb_Push_def Let_def)

lemma rb_Push_size:
  "ring_valid n r \<Longrightarrow> rb_Size n (snd (rb_Push n x r)) = min (n - 1) (rb_Size n r + 1)"
  by (auto simp: ring_valid_def rb_Push_def rb_Size_def Let_def mod_if)

lemma rb_Push_items:
  assumes "ring_valid n r"
  shows "ring_items n (snd (rb_Push n x r)) = keep_last (n - 1) (ring_items n r @ [x])"
proof (rule nth_equalityI)
  let ?r = "snd (rb_Push n x r)" and ?s = "rb_Size n r" and ?h = "rb_head r"
  note v = assms [unfolded ring_valid_def]
  show "length (ring_items n ?r) = length (keep_last (n - 1) (ring_items n r @ [x]))"
    by (simp add: ring_items_def rb_Push_size [OF assms])
  fix i
  assume "i < length (ring_items n ?r)"
  then have i: "i < n - 1" "i \<le> ?s" by (simp_all add: ring_items_def rb_Push_size [OF assms])
  have new: "ring_items n ?r ! i = rb_buffer ?r ! ((rb_head ?r + i) mod n)"
    using i by (simp add: ring_items_def rb_Push_size [OF assms])
  have slot: "rb_buffer ?r ! ((?h + j) mod n) = (if j = ?s then x else rb_buffer r ! ((?h + j) mod n))"
    if "j \<le> ?s" for j
    using v that slots_distinct [of j ?s n ?h] rb_Size_bound [OF assms] tail_index [OF assms]
    by (auto simp: rb_Push_def Let_def nth_list_update)
  show "ring_items n ?r ! i = keep_last (n - 1) (ring_items n r @ [x]) ! i"
  proof (cases "?s = n - 1")
    case True
    then have "rb_head ?r = (?h + 1) mod n"
      using rb_full_iff [OF assms] by (simp add: rb_Push_def Let_def)
    then have "(rb_head ?r + i) mod n = (?h + (i + 1)) mod n" by (simp add: mod_simps)
    then have "ring_items n ?r ! i = (if i + 1 = ?s then x else rb_buffer r ! ((?h + (i + 1)) mod n))"
      using new slot [of "i + 1"] i True by simp
    then show ?thesis using i True by (auto simp: keep_last_def ring_items_def nth_append)
  next
    case False
    then have s: "?s < n - 1" using rb_Size_bound [OF assms] by linarith
    then have "rb_head ?r = ?h" using rb_full_iff [OF assms] False by (simp add: rb_Push_def Let_def)
    then show ?thesis using new slot [OF i(2)] i s by (simp add: keep_last_def ring_items_def nth_append)
  qed
qed

lemma rb_Pop_valid: "ring_valid n r \<Longrightarrow> ring_valid n (snd (rb_Pop n r))"
  by (auto simp: ring_valid_def rb_Pop_def)

lemma rb_Pop_items:
  assumes "ring_valid n r"
  shows "(fst (rb_Pop n r), ring_items n (snd (rb_Pop n r))) =
    (case ring_items n r of [] \<Rightarrow> (None, []) | x # xs \<Rightarrow> (Some x, xs))"
proof (cases "rb_head r = rb_tail r")
  case True
  then show ?thesis by (simp add: rb_Pop_def ring_items_def rb_Size_def)
next
  case False
  note v = assms [unfolded ring_valid_def]
  from False v have s: "rb_Size n r = Suc (rb_Size n (snd (rb_Pop n r)))"
    by (auto simp: rb_Pop_def rb_Size_def mod_if)
  have "ring_items n r = rb_buffer r ! rb_head r #
      map (\<lambda>i. rb_buffer r ! ((rb_head r + Suc i) mod n)) [0..<rb_Size n (snd (rb_Pop n r))]"
    using v by (simp add: ring_items_def s upt_conv_Cons map_Suc_upt [symmetric] del: upt_Suc)
  moreover have "ring_items n (snd (rb_Pop n r)) =
      map (\<lambda>i. rb_buffer r ! ((rb_head r + Suc i) mod n)) [0..<rb_Size n (snd (rb_Pop n r))]"
    using False by (simp add: ring_items_def rb_Pop_def mod_simps)
  ultimately show ?thesis using False by (simp add: rb_Pop_def)
qed

lemma ring_items_length: "length (ring_items n r) = rb_Size n r"
  by (simp add: ring_items_def)

interpretation ring: dropping_queue "n - 1" "ring_valid n" "ring_items n" "rb_Push n" "rb_Pop n"
  for n
proof unfold_locales
  fix s :: "'a ring" and x
  assume v: "ring_valid n s"
  show "length (ring_items n s) \<le> n - 1" using rb_Size_bound [OF v] by (simp add: ring_items_length)
  show "ring_valid n (snd (rb_Push n x s))" by (rule rb_Push_valid [OF v])
  show "ring_items n (snd (rb_Push n x s)) = keep_last (n - 1) (ring_items n s @ [x])"
    by (rule rb_Push_items [OF v])
  show "ring_valid n (snd (rb_Pop n s))" by (rule rb_Pop_valid [OF v])
  show "(fst (rb_Pop n s), ring_items n (snd (rb_Pop n s))) =
      (case ring_items n s of [] \<Rightarrow> (None, []) | x # xs \<Rightarrow> (Some x, xs))"
    by (rule rb_Pop_items [OF v])
qed

lemma rb_Push_dropped:
  "ring_valid n r \<Longrightarrow>
     rb_dropped (snd (rb_Push n x r)) = rb_dropped r + (if rb_Size n r = n - 1 then 1 else 0)"
  using rb_full_iff [of n r] by (simp add: rb_Push_def Let_def)

lemma pushes_dropped:
  "0 < n \<Longrightarrow> rb_dropped (snd (queue_run (rb_Push n) (rb_Pop n) (ring_new n d) (map Enq xs))) =
     of_nat (length xs - (n - 1))"
proof (induction xs rule: rev_induct)
  case Nil
  then show ?case by (simp add: ring_new_def)
next
  case (snoc x xs)
  let ?r = "snd (queue_run (rb_Push n) (rb_Pop n) (ring_new n d) (map Enq xs))"
  have run: "queue_run push pop s (map Enq ys @ [Enq x]) =
      ([], snd (push x (snd (queue_run push pop s (map Enq ys)))))" for push pop s ys
    by (induction ys arbitrary: s) simp_all
  have v: "ring_valid n (ring_new n d)" and e: "ring_items n (ring_new n d) = []"
    using ring_new_valid [OF snoc.prems, of d] by auto
  have "ring_items n ?r = keep_last (n - 1) xs" using ring.pushes_keep_last [OF v, of xs] e by simp
  then have size: "rb_Size n ?r = min (n - 1) (length xs)"
    by (metis ring_items_length length_keep_last)
  have "ring_valid n ?r" using ring.run_refines [OF v] by blast
  from rb_Push_dropped [OF this, of x] size snoc show ?case
    by (cases "n - 1 \<le> length xs") (auto simp: run min_def Suc_diff_le)
qed

subsection \<open>Two threads\<close>

text \<open>
  Every atomic load or store of \<open>head_\<close> and \<open>tail_\<close>, the increment of \<open>droppedCount_\<close> and
  every access to an element of \<open>buffer_\<close> is one step; the steps of the two threads
  interleave. The constructors name the point a thread has reached, with its local values.
\<close>

datatype 'a producer =
    PIdle
  | PTail 'a nat
  | PHead 'a nat nat
  | PCount 'a nat nat
  | PWrite 'a nat nat
  | PPublish nat

datatype 'a consumer =
    CIdle
  | CHead nat
  | CTail nat
  | CItem nat 'a

record 'a threads =
  th_ring :: "'a ring"
  th_producer :: "'a producer"
  th_input :: "'a list"
  th_consumer :: "'a consumer"
  th_popped :: "'a list"

definition rb_write :: "nat \<Rightarrow> 'a \<Rightarrow> 'a ring \<Rightarrow> 'a ring" where
  "rb_write i x r = r\<lparr>rb_buffer := (rb_buffer r)[i := x]\<rparr>"

definition producer_step :: "nat \<Rightarrow> 'a threads \<Rightarrow> 'a threads" where
  "producer_step Capacity s =
     (let r = th_ring s in
      case th_producer s of
        PIdle \<Rightarrow>
          (case th_input s of
             [] \<Rightarrow> s
           | x # xs \<Rightarrow> s\<lparr>th_producer := PTail x (rb_tail r), th_input := xs\<rparr>)
      | PTail x t \<Rightarrow> s\<lparr>th_producer := PHead x t (rb_head r)\<rparr>
      | PHead x t h \<Rightarrow>
          (let nextTail = (t + 1) mod Capacity in
           if nextTail = h
           then s\<lparr>th_ring := r\<lparr>rb_head := (h + 1) mod Capacity\<rparr>, th_producer := PCount x t nextTail\<rparr>
           else s\<lparr>th_ring := rb_write t x r, th_producer := PPublish nextTail\<rparr>)
      | PCount x t nextTail \<Rightarrow>
          s\<lparr>th_ring := r\<lparr>rb_dropped := rb_dropped r + 1\<rparr>, th_producer := PWrite x t nextTail\<rparr>
      | PWrite x t nextTail \<Rightarrow> s\<lparr>th_ring := rb_write t x r, th_producer := PPublish nextTail\<rparr>
      | PPublish nextTail \<Rightarrow> s\<lparr>th_ring := r\<lparr>rb_tail := nextTail\<rparr>, th_producer := PIdle\<rparr>)"

definition consumer_step :: "nat \<Rightarrow> 'a threads \<Rightarrow> 'a threads" where
  "consumer_step Capacity s =
     (let r = th_ring s in
      case th_consumer s of
        CIdle \<Rightarrow> s\<lparr>th_consumer := CHead (rb_head r)\<rparr>
      | CHead h \<Rightarrow>
          if h = rb_tail r then s\<lparr>th_consumer := CIdle\<rparr> else s\<lparr>th_consumer := CTail h\<rparr>
      | CTail h \<Rightarrow> s\<lparr>th_consumer := CItem h (rb_buffer r ! h)\<rparr>
      | CItem h x \<Rightarrow>
          s\<lparr>th_ring := r\<lparr>rb_head := (h + 1) mod Capacity\<rparr>, th_consumer := CIdle,
            th_popped := th_popped s @ [x]\<rparr>)"

inductive rb_step :: "nat \<Rightarrow> 'a threads \<Rightarrow> 'a threads \<Rightarrow> bool" for n where
  producer: "rb_step n s (producer_step n s)"
| consumer: "rb_step n s (consumer_step n s)"

text \<open>A run in which no push finds the ring full.\<close>

definition push_finds_full :: "nat \<Rightarrow> 'a threads \<Rightarrow> bool" where
  "push_finds_full n s =
     (case th_producer s of PHead x t h \<Rightarrow> (t + 1) mod n = h | _ \<Rightarrow> False)"

inductive calm_run :: "nat \<Rightarrow> 'a threads \<Rightarrow> 'a threads \<Rightarrow> bool" for n where
  start: "calm_run n s s"
| step: "calm_run n s t \<Longrightarrow> \<not> push_finds_full n t \<Longrightarrow> rb_step n t u \<Longrightarrow> calm_run n s u"

definition threads_new :: "nat \<Rightarrow> 'a \<Rightarrow> 'a list \<Rightarrow> 'a threads" where
  "threads_new n d xs = \<lparr>th_ring = ring_new n d, th_producer = PIdle, th_input = xs,
     th_consumer = CIdle, th_popped = []\<rparr>"

fun in_flight :: "'a producer \<Rightarrow> 'a list" where
  "in_flight (PTail x t) = [x]"
| "in_flight (PHead x t h) = [x]"
| "in_flight _ = []"

text \<open>
  The invariant of such runs: what was popped, what is in the ring, the element written
  but not yet published, the element of the push in progress and the input are the input
  of the run in order.
\<close>

definition producer_ok :: "nat \<Rightarrow> 'a ring \<Rightarrow> 'a producer \<Rightarrow> bool" where
  "producer_ok n r pc =
     (case pc of
        PIdle \<Rightarrow> True
      | PTail x t \<Rightarrow> t = rb_tail r
      | PHead x t h \<Rightarrow> t = rb_tail r \<and> h < n \<and> rb_Size n r \<le> (t + n - h) mod n
      | PPublish m \<Rightarrow> m = (rb_tail r + 1) mod n \<and> rb_Size n r < n - 1
      | _ \<Rightarrow> False)"

definition consumer_ok :: "'a ring \<Rightarrow> 'a consumer \<Rightarrow> bool" where
  "consumer_ok r pc =
     (case pc of
        CIdle \<Rightarrow> True
      | CHead h \<Rightarrow> h = rb_head r
      | CTail h \<Rightarrow> h = rb_head r \<and> h \<noteq> rb_tail r
      | CItem h x \<Rightarrow> h = rb_head r \<and> h \<noteq> rb_tail r \<and> x = rb_buffer r ! h)"

definition unpublished :: "'a ring \<Rightarrow> 'a producer \<Rightarrow> 'a list" where
  "unpublished r pc = (case pc of PPublish m \<Rightarrow> [rb_buffer r ! rb_tail r] | _ \<Rightarrow> [])"

definition calm_inv :: "nat \<Rightarrow> 'a list \<Rightarrow> 'a threads \<Rightarrow> bool" where
  "calm_inv n xs s \<longleftrightarrow>
     ring_valid n (th_ring s) \<and> producer_ok n (th_ring s) (th_producer s) \<and>
     consumer_ok (th_ring s) (th_consumer s) \<and>
     th_popped s @ ring_items n (th_ring s) @ unpublished (th_ring s) (th_producer s) @
       in_flight (th_producer s) @ th_input s = xs"

lemma rb_Size_mod: "ring_valid n r \<Longrightarrow> rb_Size n r = (rb_tail r + n - rb_head r) mod n"
  by (auto simp: ring_valid_def rb_Size_def mod_if)

lemma room_left:
  assumes "t < n" "h < n" "(t + 1) mod n \<noteq> h" "s \<le> (t + n - h) mod n"
  shows "s < n - (1 :: nat)"
proof -
  have "(t + n - h) mod n \<noteq> n - 1" using assms(1-3) by (auto simp: mod_if split: if_splits)
  moreover have "(t + n - h) mod n < n" using assms(1) by simp
  ultimately show ?thesis using assms(4) by linarith
qed

lemma write_tail:
  assumes "ring_valid n r"
  shows "ring_valid n (rb_write (rb_tail r) x r)" "rb_Size n (rb_write (rb_tail r) x r) = rb_Size n r"
    "ring_items n (rb_write (rb_tail r) x r) = ring_items n r"
    "rb_buffer (rb_write (rb_tail r) x r) ! rb_tail r = x"
    "h \<noteq> rb_tail r \<Longrightarrow> rb_buffer (rb_write (rb_tail r) x r) ! h = rb_buffer r ! h"
proof -
  note v = assms [unfolded ring_valid_def]
  show size: "rb_Size n (rb_write (rb_tail r) x r) = rb_Size n r"
    by (simp add: rb_write_def rb_Size_def)
  show "ring_items n (rb_write (rb_tail r) x r) = ring_items n r"
    unfolding ring_items_def size
  proof (rule map_cong [OF refl])
    fix i
    assume "i \<in> set [0..<rb_Size n r]"
    then have "(rb_head r + i) mod n \<noteq> rb_tail r"
      using v slots_distinct [of i "rb_Size n r" n "rb_head r"] rb_Size_bound [OF assms]
      by (simp add: tail_index [OF assms])
    then show "rb_buffer (rb_write (rb_tail r) x r) ! ((rb_head (rb_write (rb_tail r) x r) + i) mod n) =
        rb_buffer r ! ((rb_head r + i) mod n)"
      by (simp add: rb_write_def)
  qed
qed (use assms in \<open>auto simp: rb_write_def ring_valid_def\<close>)

lemma publish_tail:
  assumes "ring_valid n r" and "rb_Size n r < n - 1"
  defines "r' \<equiv> r\<lparr>rb_tail := (rb_tail r + 1) mod n\<rparr>"
  shows "ring_valid n r'" "ring_items n r' = ring_items n r @ [rb_buffer r ! rb_tail r]"
    "rb_head r \<noteq> rb_tail r'"
proof -
  note v = assms(1) [unfolded ring_valid_def]
  have size: "rb_Size n r' = Suc (rb_Size n r)"
    using v assms(2) by (auto simp: r'_def rb_Size_def mod_if)
  show "ring_items n r' = ring_items n r @ [rb_buffer r ! rb_tail r]"
    using tail_index [OF assms(1)] by (simp add: ring_items_def size) (simp add: r'_def)
  show "rb_head r \<noteq> rb_tail r'"
    using rb_full_iff [OF assms(1)] assms(2) by (simp add: r'_def)
  show "ring_valid n r'" using v by (simp add: ring_valid_def r'_def)
qed

lemma advance_head:
  assumes "ring_valid n r" and "rb_head r \<noteq> rb_tail r"
  defines "r' \<equiv> r\<lparr>rb_head := (rb_head r + 1) mod n\<rparr>"
  shows "ring_valid n r'" "ring_items n r = rb_buffer r ! rb_head r # ring_items n r'"
    "rb_Size n r' < rb_Size n r"
proof -
  show items: "ring_items n r = rb_buffer r ! rb_head r # ring_items n r'"
    using rb_Pop_items [OF assms(1)] assms(2) by (auto simp: rb_Pop_def r'_def split: list.splits)
  show "rb_Size n r' < rb_Size n r" by (simp add: ring_items_length [symmetric] items)
  show "ring_valid n r'" using rb_Pop_valid [OF assms(1)] assms(2) by (simp add: rb_Pop_def r'_def)
qed

lemma producer_calm:
  assumes inv: "calm_inv n xs s" and calm: "\<not> push_finds_full n s"
  shows "calm_inv n xs (producer_step n s)"
proof (cases "th_producer s")
  case (PHead x t h)
  have v: "ring_valid n (th_ring s)" using inv by (simp add: calm_inv_def)
  have p: "t = rb_tail (th_ring s)" "h < n" "rb_Size n (th_ring s) \<le> (t + n - h) mod n"
    using inv PHead by (auto simp: calm_inv_def producer_ok_def)
  have nf: "(t + 1) mod n \<noteq> h" using calm PHead by (simp add: push_finds_full_def)
  have "rb_Size n (th_ring s) < n - 1"
    using room_left [OF _ p(2) nf p(3)] v p(1) by (simp add: ring_valid_def)
  with inv PHead p(1) nf write_tail [OF v] show ?thesis
    by (auto simp: calm_inv_def producer_step_def producer_ok_def consumer_ok_def unpublished_def
        Let_def split: consumer.splits) (simp_all add: rb_write_def)
next
  case (PPublish m)
  have v: "ring_valid n (th_ring s)" and "m = (rb_tail (th_ring s) + 1) mod n"
    and "rb_Size n (th_ring s) < n - 1"
    using inv PPublish by (simp_all add: calm_inv_def producer_ok_def)
  with inv PPublish publish_tail [OF v] show ?thesis
    by (auto simp: calm_inv_def producer_step_def producer_ok_def consumer_ok_def unpublished_def
        Let_def split: consumer.splits)
next
  case (PTail x t)
  with inv rb_Size_mod [of n "th_ring s"] show ?thesis
    by (auto simp: calm_inv_def producer_step_def producer_ok_def unpublished_def ring_valid_def Let_def)
qed (use inv in \<open>auto simp: calm_inv_def producer_step_def producer_ok_def unpublished_def Let_def
      split: list.splits\<close>)

lemma consumer_calm:
  assumes inv: "calm_inv n xs s"
  shows "calm_inv n xs (consumer_step n s)"
proof (cases "th_consumer s")
  case (CItem h x)
  have v: "ring_valid n (th_ring s)" and h: "rb_head (th_ring s) \<noteq> rb_tail (th_ring s)" "h = rb_head (th_ring s)"
    "x = rb_buffer (th_ring s) ! h"
    using inv CItem by (auto simp: calm_inv_def consumer_ok_def)
  from inv CItem h advance_head [OF v h(1)] show ?thesis
    by (auto simp: calm_inv_def consumer_step_def producer_ok_def consumer_ok_def unpublished_def
        Let_def split: producer.splits)
qed (use inv in \<open>auto simp: calm_inv_def consumer_step_def consumer_ok_def Let_def\<close>)

lemma calm_run_inv:
  "calm_run n s t \<Longrightarrow> calm_inv n xs s \<Longrightarrow> calm_inv n xs t"
  by (induction rule: calm_run.induct) (auto elim!: rb_step.cases intro: producer_calm consumer_calm)

text \<open>A schedule: \<open>True\<close> is a step of the producer.\<close>

definition run_turns :: "nat \<Rightarrow> bool list \<Rightarrow> 'a threads \<Rightarrow> 'a threads" where
  "run_turns n = fold (\<lambda>b s. if b then producer_step n s else consumer_step n s)"

lemma run_turns_steps: "(rb_step n)\<^sup>*\<^sup>* s (run_turns n bs s)"
proof (induction bs arbitrary: s)
  case Nil
  then show ?case by (simp add: run_turns_def)
next
  case (Cons b bs)
  have "rb_step n s (if b then producer_step n s else consumer_step n s)"
    by (simp add: rb_step.intros)
  with Cons show ?case by (simp add: run_turns_def converse_rtranclp_into_rtranclp)
qed

subsection \<open>The memory pool\<close>

text \<open>
  A block is its index in \<open>storage_\<close>; \<open>None\<close> is \<open>nullptr\<close>. The free list is a stack with its
  top at the end. Both operations run under the mutex.
\<close>

record MemoryPool =
  pool_sizes :: "nat list"
  pool_free :: "nat list"

definition MemoryPool_new :: "nat \<Rightarrow> MemoryPool" where
  "MemoryPool_new poolSize = \<lparr>pool_sizes = replicate poolSize 0, pool_free = [0..<poolSize]\<rparr>"

definition Acquire :: "MemoryPool \<Rightarrow> nat option \<times> MemoryPool" where
  "Acquire p =
     (if pool_free p = [] then (None, p)
      else
        let block = last (pool_free p) in
        (Some block, p\<lparr>pool_free := butlast (pool_free p), pool_sizes := (pool_sizes p)[block := 0]\<rparr>))"

definition Release :: "nat option \<Rightarrow> MemoryPool \<Rightarrow> MemoryPool" where
  "Release block p =
     (case block of None \<Rightarrow> p | Some b \<Rightarrow> p\<lparr>pool_free := pool_free p @ [b]\<rparr>)"

text \<open>
  Use by clients that release only what they hold: the blocks handed out (\<open>held\<close>) are
  a ghost of the run.
\<close>

inductive pool_run :: "nat \<Rightarrow> MemoryPool \<Rightarrow> nat set \<Rightarrow> bool" for n where
  created: "pool_run n (MemoryPool_new n) {}"
| acquired: "pool_run n p held \<Longrightarrow> Acquire p = (Some b, p') \<Longrightarrow> pool_run n p' (insert b held)"
| refused: "pool_run n p held \<Longrightarrow> Acquire p = (None, p') \<Longrightarrow> pool_run n p' held"
| released: "pool_run n p held \<Longrightarrow> b \<in> held \<Longrightarrow> pool_run n (Release (Some b) p) (held - {b})"
| null_released: "pool_run n p held \<Longrightarrow> pool_run n (Release None p) held"

definition pool_inv :: "nat \<Rightarrow> MemoryPool \<Rightarrow> nat set \<Rightarrow> bool" where
  "pool_inv n p held \<longleftrightarrow> distinct (pool_free p) \<and> set (pool_free p) \<inter> held = {} \<and>
     set (pool_free p) \<union> held = {..<n} \<and> length (pool_sizes p) = n"

lemma split_last: "xs \<noteq> [] \<Longrightarrow> \<exists>ys. xs = ys @ [last xs] \<and> butlast xs = ys"
  by (metis append_butlast_last_id)

lemma pool_run_inv: "pool_run n p held \<Longrightarrow> pool_inv n p held"
proof (induction rule: pool_run.induct)
  case created
  then show ?case by (auto simp: pool_inv_def MemoryPool_new_def)
next
  case (acquired p held b p')
  then have "pool_free p \<noteq> []" by (auto simp: Acquire_def)
  then obtain ys where "pool_free p = ys @ [last (pool_free p)]" "butlast (pool_free p) = ys"
    using split_last by blast
  moreover have "b = last (pool_free p)" "pool_free p' = butlast (pool_free p)"
    "length (pool_sizes p') = length (pool_sizes p)"
    using acquired.hyps \<open>pool_free p \<noteq> []\<close> by (auto simp: Acquire_def Let_def)
  ultimately obtain "pool_free p = pool_free p' @ [b]" "length (pool_sizes p') = length (pool_sizes p)"
    by metis
  with acquired.IH show ?case by (auto simp: pool_inv_def)
qed (auto simp: pool_inv_def Acquire_def Release_def Let_def split: if_splits)

subsection \<open>Properties\<close>

text \<open>C28. Refinement: on every sequence of pushes and pops from an empty ring of capacity \<open>n\<close>,
  the pops return what a queue of at most \<open>n - 1\<close> elements that drops its oldest element when
  full returns.\<close>

theorem ring_refines_dropping_queue:
  assumes "0 < n"
  shows "fst (queue_run (rb_Push n) (rb_Pop n) (ring_new n d) ops) = fst (spec_run (n - 1) [] ops)"
  using ring.run_refines [of n "ring_new n d" ops] ring_new_valid [OF assms, of d] by simp

theorem ring_refines_dropping_queue_witness:
  "fst (queue_run (rb_Push 3) (rb_Pop 3) (ring_new 3 0) [Enq (1 :: nat), Enq 2, Enq 3, Deq, Deq, Deq]) =
     [Some 2, Some 3, None]"
  using ring_refines_dropping_queue [of 3 "0 :: nat" "[Enq 1, Enq 2, Enq 3, Deq, Deq, Deq]"]
  by (simp add: keep_last_def)

text \<open>Accounting: after any number of pushes the ring of capacity \<open>n\<close> holds the newest
  \<open>n - 1\<close> elements in order and the drop counter has counted exactly the others.\<close>

theorem ring_push_accounting:
  assumes "0 < n" and "r = snd (queue_run (rb_Push n) (rb_Pop n) (ring_new n d) (map Enq xs))"
  shows "ring_items n r = keep_last (n - 1) xs \<and> rb_Size n r = min (n - 1) (length xs) \<and>
    rb_dropped r = of_nat (length xs - (n - 1))"
proof -
  have "ring_items n r = keep_last (n - 1) xs"
    using ring.pushes_keep_last [of n "ring_new n d" xs] ring_new_valid [OF assms(1), of d] assms(2)
    by simp
  then show ?thesis
    using pushes_dropped [OF assms(1), of d xs] assms(2) ring_items_length [of n r] by simp
qed

theorem ring_push_accounting_witness:
  "ring_items 3 (snd (queue_run (rb_Push 3) (rb_Pop 3) (ring_new 3 0) (map Enq [1 :: nat, 2, 3]))) = [2, 3]"
  using ring_push_accounting [OF _ refl, of 3 "0 :: nat" "[1, 2, 3]"] by (simp add: keep_last_def)

text \<open>Two threads, first in first out: in every interleaving of the producer's and the
  consumer's atomic steps in which no push finds the ring full, what was popped, what is in the
  ring and what is still to be pushed is the producer's input in order: nothing is lost,
  duplicated, reordered or read before it was written.\<close>

theorem calm_threads_are_fifo:
  assumes "0 < n" and "calm_run n (threads_new n d xs) t"
  shows "th_popped t @ ring_items n (th_ring t) @ unpublished (th_ring t) (th_producer t) @
    in_flight (th_producer t) @ th_input t = xs"
proof -
  have "calm_inv n xs (threads_new n d xs)"
    using ring_new_valid [OF assms(1), of d]
    by (auto simp: calm_inv_def threads_new_def producer_ok_def consumer_ok_def unpublished_def)
  from calm_run_inv [OF assms(2) this] show ?thesis by (simp add: calm_inv_def)
qed

theorem calm_threads_are_fifo_witness:
  "th_popped (producer_step 4 (threads_new 4 0 [7 :: nat])) @
    ring_items 4 (th_ring (producer_step 4 (threads_new 4 0 [7 :: nat]))) @
    unpublished (th_ring (producer_step 4 (threads_new 4 0 [7 :: nat])))
      (th_producer (producer_step 4 (threads_new 4 0 [7 :: nat]))) @
    in_flight (th_producer (producer_step 4 (threads_new 4 0 [7 :: nat]))) @
    th_input (producer_step 4 (threads_new 4 0 [7 :: nat])) = [7]"
  by (rule calm_threads_are_fifo)
    (auto intro: calm_run.intros rb_step.intros simp: push_finds_full_def threads_new_def)

text \<open>C29. Two threads, overflow: \<open>Push\<close> advances \<open>head_\<close> when the ring is full while \<open>Pop\<close>
  may be between its load and its store of \<open>head_\<close>. From a full ring \<open>1, 2, 3\<close> there is an
  interleaving of one pop with the pushes of 4 and 5 after which the pop has returned 1, the drop
  counter says 2 and the ring is empty: two of the five elements are neither popped, nor held,
  nor counted as dropped.\<close>

theorem overflow_race_loses_elements:
  "\<exists>s t. th_ring s = snd (queue_run (rb_Push 4) (rb_Pop 4) (ring_new 4 0) (map Enq [1, 2, 3 :: nat])) \<and>
     th_input s = [4, 5] \<and> th_popped s = [] \<and> th_producer s = PIdle \<and> th_consumer s = CIdle \<and>
     (rb_step 4)\<^sup>*\<^sup>* s t \<and> th_producer t = PIdle \<and> th_consumer t = CIdle \<and> th_input t = [] \<and>
     th_popped t = [1] \<and> rb_dropped (th_ring t) = 2 \<and> ring_items 4 (th_ring t) = []"
proof -
  let ?s = "(threads_new 4 0 [4, 5])\<lparr>th_ring := snd (queue_run (rb_Push 4) (rb_Pop 4) (ring_new 4 0)
    (map Enq [1, 2, 3 :: nat]))\<rparr>"
  let ?t = "run_turns 4 (replicate 3 False @ replicate 12 True @ [False]) ?s"
  have "(rb_step 4)\<^sup>*\<^sup>* ?s ?t" by (rule run_turns_steps)
  moreover have "th_producer ?t = PIdle \<and> th_consumer ?t = CIdle \<and> th_input ?t = [] \<and>
     th_popped ?t = [1] \<and> rb_dropped (th_ring ?t) = 2 \<and> ring_items 4 (th_ring ?t) = []"
    by code_simp
  ultimately show ?thesis
    by (intro exI [of _ ?s] exI [of _ ?t]) (simp add: threads_new_def)
qed

text \<open>The pool: as long as clients release only blocks they hold, the pool never hands out a
  block that is in use, every block it hands out is one of its own, and it refuses only when all
  \<open>n\<close> blocks are in use.\<close>

theorem pool_blocks_are_exclusive:
  assumes "pool_run n p held"
  shows "(case fst (Acquire p) of
      Some b \<Rightarrow> b \<notin> held \<and> b < n \<and> pool_sizes (snd (Acquire p)) ! b = 0
    | None \<Rightarrow> held = {..<n})"
proof (cases "pool_free p = []")
  case True
  then show ?thesis using pool_run_inv [OF assms] by (simp add: pool_inv_def Acquire_def)
next
  case False
  then have free: "last (pool_free p) \<in> set (pool_free p)" by (rule last_in_set)
  have inv: "set (pool_free p) \<inter> held = {}" "set (pool_free p) \<union> held = {..<n}" "length (pool_sizes p) = n"
    using pool_run_inv [OF assms] by (simp_all add: pool_inv_def)
  from free inv(1) have "last (pool_free p) \<notin> held" by blast
  moreover from free inv(2) have "last (pool_free p) < n" by blast
  ultimately show ?thesis using False inv(3) by (simp add: Acquire_def Let_def)
qed

theorem pool_blocks_are_exclusive_witness:
  "case fst (Acquire (MemoryPool_new 2)) of
     Some b \<Rightarrow> b \<notin> {} \<and> b < 2 \<and> pool_sizes (snd (Acquire (MemoryPool_new 2))) ! b = 0
   | None \<Rightarrow> {} = {..<2 :: nat}"
  by (rule pool_blocks_are_exclusive [OF pool_run.created])

end
