(* ===== verification/Control_Commands.thy ===== *)
theory Control_Commands
  imports Wire
begin

text \<open>
  The binary control commands of \<open>native/core/include/veyra/protocol.h\<close>: a packed header of
  eight bytes and a packed body. A \<open>float\<close> of a command is its 32 bit pattern, which is copied
  and never computed with.
\<close>

type_synonym float_bits = u32

record ControlCommandHeader =
  cmd_opCode :: u8
  cmd_reserved :: u8
  cmd_payloadLength :: u16
  cmd_sequence :: u32

definition command_header_bytes :: "ControlCommandHeader \<Rightarrow> bytes" where
  "command_header_bytes h =
     le_bytes 1 (cmd_opCode h) @ le_bytes 1 (cmd_reserved h) @ le_bytes 2 (cmd_payloadLength h) @
     le_bytes 4 (cmd_sequence h)"

definition bytes_command_header :: "bytes \<Rightarrow> ControlCommandHeader" where
  "bytes_command_header bs = \<lparr>
     cmd_opCode = le_word (field 0 1 bs), cmd_reserved = le_word (field 1 1 bs),
     cmd_payloadLength = le_word (field 2 2 bs), cmd_sequence = le_word (field 4 4 bs)\<rparr>"

lemma length_command_header [simp]: "length (command_header_bytes h) = 8"
  by (simp add: command_header_bytes_def)

lemma bytes_command_header_of_bytes: "bytes_command_header (command_header_bytes h) = h"
  by (simp add: bytes_command_header_def command_header_bytes_def field_def le_word_full)

lemma command_header_of_header:
  assumes len: "length bs = 8"
  shows "command_header_bytes (bytes_command_header bs) = bs"
proof -
  note join = field_append [of 0 1 bs 1] field_append [of 0 2 bs 2] field_append [of 0 4 bs 4]
  have "command_header_bytes (bytes_command_header bs) =
    ((field 0 1 bs @ field 1 1 bs) @ field 2 2 bs) @ field 4 4 bs"
    using len by (simp add: command_header_bytes_def bytes_command_header_def le_bytes_field
        del: One_nat_def le_bytes.simps)
  also have "\<dots> = field 0 8 bs" using join by (simp del: One_nat_def add_2_eq_Suc')
  finally show ?thesis using len by (simp add: field_def)
qed

interpretation cmd: fixed_codec command_header_bytes bytes_command_header 8
  by unfold_locales (simp_all add: bytes_command_header_of_bytes command_header_of_header)

subsection \<open>Bodies\<close>

record SetZoomCommand =
  zoomFactor :: float_bits

record SetExposureCommand =
  exposureCompensation :: "32 word"

record SetFocusCommand =
  sf_autoFocus :: u8
  sf_focusDistance :: float_bits

record RequestIdrCommand =
  lastGoodFrameId :: u32

record SetBitrateCommand =
  targetBitrateBps :: u32

record TransportSwitchCommand =
  targetTransport :: u8
  candidateSessionId :: u32

record PingPongMessage =
  clientTimestampUs :: u64
  serverTimestampUs :: u64

definition zoom_bytes :: "SetZoomCommand \<Rightarrow> bytes" where
  "zoom_bytes c = le_bytes 4 (zoomFactor c)"

definition exposure_bytes :: "SetExposureCommand \<Rightarrow> bytes" where
  "exposure_bytes c = le_bytes 4 (exposureCompensation c)"

definition focus_bytes :: "SetFocusCommand \<Rightarrow> bytes" where
  "focus_bytes c = le_bytes 1 (sf_autoFocus c) @ le_bytes 4 (sf_focusDistance c)"

definition idr_bytes :: "RequestIdrCommand \<Rightarrow> bytes" where
  "idr_bytes c = le_bytes 4 (lastGoodFrameId c)"

definition bitrate_bytes :: "SetBitrateCommand \<Rightarrow> bytes" where
  "bitrate_bytes c = le_bytes 4 (targetBitrateBps c)"

text \<open>The pattern every command of the session follows: header with the body's size, then body.\<close>

definition command_packet :: "CommandOpCode \<Rightarrow> bytes \<Rightarrow> bytes" where
  "command_packet op body =
     command_header_bytes \<lparr>cmd_opCode = opcode_byte op, cmd_reserved = 0,
       cmd_payloadLength = of_nat (length body), cmd_sequence = 0\<rparr> @ body"

lemma command_packet_parse:
  "length body < 65536 \<Longrightarrow>
     bytes_command_header (take 8 (command_packet op body)) =
       \<lparr>cmd_opCode = opcode_byte op, cmd_reserved = 0, cmd_payloadLength = of_nat (length body),
        cmd_sequence = 0\<rparr> \<and>
     unat (cmd_payloadLength (bytes_command_header (take 8 (command_packet op body)))) = length body \<and>
     drop 8 (command_packet op body) = body"
  by (simp add: command_packet_def bytes_command_header_of_bytes u16_cast_small)

end
