(* ===== verification/Float_Model.thy ===== *)
theory Float_Model
  imports Complex_Main "HOL-Library.Log_Nat"
begin

text \<open>
  The binary floating point arithmetic of C++ as far as the program uses it: finite values are
  rationals, every operation rounds its exact result to the nearest representable value, ties
  to even, with gradual underflow and overflow to infinity. A format is its precision and its
  least and greatest exponent; \<open>binary32\<close> is \<open>float\<close> and \<open>binary64\<close> is \<open>double\<close>. The sign of
  zero is not modelled: no operation of the program observes it.
\<close>

record fmt =
  precision :: nat
  emin :: int
  emax :: int

definition binary32 :: fmt where
  "binary32 = \<lparr>precision = 24, emin = -126, emax = 127\<rparr>"

definition binary64 :: fmt where
  "binary64 = \<lparr>precision = 53, emin = -1022, emax = 1023\<rparr>"

datatype flt = Finite rat | PosInf | NegInf | NaN

text \<open>\<open>ilog2 x\<close> is the exponent of the greatest power of two below a positive \<open>x\<close>.\<close>

definition ilog2 :: "rat \<Rightarrow> int" where
  "ilog2 x =
     (let (a, b) = quotient_of x; k = bitlen a - bitlen b
      in if 2 powi k \<le> x then k else k - 1)"

definition round_half_even :: "rat \<Rightarrow> int" where
  "round_half_even x =
     (let f = \<lfloor>x\<rfloor>; d = x - of_int f
      in if d < 1 / 2 \<or> (d = 1 / 2 \<and> even f) then f else f + 1)"

definition ulp :: "fmt \<Rightarrow> rat \<Rightarrow> rat" where
  "ulp F x = 2 powi (max (emin F) (ilog2 \<bar>x\<bar>) - (int (precision F) - 1))"

definition rounded :: "fmt \<Rightarrow> rat \<Rightarrow> rat" where
  "rounded F x = (if x = 0 then 0 else of_int (round_half_even (x / ulp F x)) * ulp F x)"

definition mk_flt :: "fmt \<Rightarrow> rat \<Rightarrow> flt" where
  "mk_flt F x =
     (let y = rounded F x
      in if 2 powi (emax F + 1) \<le> y then PosInf
         else if y \<le> - (2 powi (emax F + 1)) then NegInf
         else Finite y)"

fun f_add :: "fmt \<Rightarrow> flt \<Rightarrow> flt \<Rightarrow> flt" where
  "f_add F (Finite x) (Finite y) = mk_flt F (x + y)"
| "f_add F NaN y = NaN"
| "f_add F x NaN = NaN"
| "f_add F PosInf NegInf = NaN"
| "f_add F NegInf PosInf = NaN"
| "f_add F PosInf y = PosInf"
| "f_add F NegInf y = NegInf"
| "f_add F x PosInf = PosInf"
| "f_add F x NegInf = NegInf"

text \<open>Products by a positive constant, the only ones the program forms.\<close>

fun f_scale :: "fmt \<Rightarrow> rat \<Rightarrow> flt \<Rightarrow> flt" where
  "f_scale F c (Finite x) = mk_flt F (c * x)"
| "f_scale F c y = y"

fun f_div :: "fmt \<Rightarrow> flt \<Rightarrow> flt \<Rightarrow> flt" where
  "f_div F (Finite x) (Finite y) =
     (if y \<noteq> 0 then mk_flt F (x / y) else if 0 < x then PosInf else if x < 0 then NegInf else NaN)"
| "f_div F NaN y = NaN"
| "f_div F x NaN = NaN"
| "f_div F (Finite x) y = Finite 0"
| "f_div F PosInf (Finite y) = (if 0 \<le> y then PosInf else NegInf)"
| "f_div F NegInf (Finite y) = (if 0 \<le> y then NegInf else PosInf)"
| "f_div F x y = NaN"

fun f_less :: "flt \<Rightarrow> flt \<Rightarrow> bool" where
  "f_less (Finite x) (Finite y) \<longleftrightarrow> x < y"
| "f_less NegInf (Finite y) \<longleftrightarrow> True"
| "f_less NegInf PosInf \<longleftrightarrow> True"
| "f_less (Finite x) PosInf \<longleftrightarrow> True"
| "f_less x y \<longleftrightarrow> False"

text \<open>\<open>std::clamp\<close>; its behaviour is undefined when \<open>hi < lo\<close>.\<close>

definition f_clamp :: "flt \<Rightarrow> flt \<Rightarrow> flt \<Rightarrow> flt option" where
  "f_clamp v lo hi =
     (if f_less hi lo then None
      else Some (if f_less v lo then lo else if f_less hi v then hi else v))"

text \<open>
  \<open>static_cast\<close> to an unsigned integer of \<open>w\<close> bits truncates; the behaviour is undefined when
  the truncated value does not fit.
\<close>

fun f_to_unsigned :: "nat \<Rightarrow> flt \<Rightarrow> nat option" where
  "f_to_unsigned w (Finite x) =
     (let t = (if 0 \<le> x then \<lfloor>x\<rfloor> else \<lceil>x\<rceil>)
      in if 0 \<le> t \<and> t < 2 ^ w then Some (nat t) else None)"
| "f_to_unsigned w y = None"

fun f_to_signed :: "nat \<Rightarrow> flt \<Rightarrow> int option" where
  "f_to_signed w (Finite x) =
     (let t = (if 0 \<le> x then \<lfloor>x\<rfloor> else \<lceil>x\<rceil>)
      in if - (2 ^ (w - 1)) \<le> t \<and> t < 2 ^ (w - 1) then Some t else None)"
| "f_to_signed w y = None"

definition f_of_nat :: "fmt \<Rightarrow> nat \<Rightarrow> flt" where
  "f_of_nat F n = mk_flt F (of_nat n)"

text \<open>Conversion of a value of a wider format, \<open>static_cast<float>\<close> of a \<open>double\<close>.\<close>

fun f_narrow :: "fmt \<Rightarrow> flt \<Rightarrow> flt" where
  "f_narrow F (Finite x) = mk_flt F x"
| "f_narrow F y = y"

subsection \<open>Rounding\<close>

lemma round_half_even_of_int [simp]: "round_half_even (of_int n) = n"
  by (simp add: round_half_even_def)

lemma round_half_even_nonneg: "0 \<le> x \<Longrightarrow> 0 \<le> round_half_even x"
  by (simp add: round_half_even_def Let_def)

lemma bitlen_rat_bounds:
  assumes "0 < a"
  shows "(2 :: rat) powi (bitlen a - 1) \<le> of_int a \<and> of_int a < (2 :: rat) powi bitlen a"
proof -
  have pos: "0 < bitlen a" using assms bitlen_eq_zero_iff [of a] bitlen_nonneg [of a] by linarith
  have "(2 :: int) ^ nat (bitlen a - 1) \<le> a" "a < 2 ^ nat (bitlen a)"
    using bitlen_bounds [OF assms] by auto
  then have "(of_int (2 ^ nat (bitlen a - 1)) :: rat) \<le> of_int a" "(of_int a :: rat) < of_int (2 ^ nat (bitlen a))"
    by (simp_all only: of_int_le_iff of_int_less_iff)
  then show ?thesis using pos by (simp add: power_int_def)
qed

lemma ilog2_lower: "0 < x \<Longrightarrow> 2 powi (ilog2 x) \<le> x"
proof -
  assume x: "0 < x"
  obtain a b where q: "quotient_of x = (a, b)" by (cases "quotient_of x")
  have b: "0 < b" using quotient_of_denom_pos [OF q] .
  have eq: "x = of_int a / of_int b" using quotient_of_div [OF q] .
  have a: "0 < a" using x b by (simp add: eq zero_less_divide_iff)
  have "(2 :: rat) powi (bitlen a - bitlen b - 1) = 2 powi (bitlen a - 1) / 2 powi bitlen b"
    by (simp add: power_int_diff)
  also have "\<dots> \<le> of_int a / of_int b"
    using bitlen_rat_bounds [OF a] bitlen_rat_bounds [OF b] a b
    by (intro frac_le) auto
  finally show ?thesis using q eq by (simp add: ilog2_def Let_def)
qed

lemma ulp_pos: "0 < ulp F x"
  by (simp add: ulp_def)

lemma rounded_nonneg: "0 \<le> x \<Longrightarrow> 0 \<le> rounded F x"
  using ulp_pos [of F x] by (simp add: rounded_def round_half_even_nonneg)

lemma round_half_even_le: "x \<le> of_int k \<Longrightarrow> round_half_even x \<le> k"
proof (cases "\<lfloor>x\<rfloor> < k")
  case True
  then show ?thesis by (auto simp: round_half_even_def Let_def)
next
  case False
  assume "x \<le> of_int k"
  then have "x = of_int k" using False by (simp add: less_floor_iff floor_less_iff not_less le_floor_iff)
  then show ?thesis by simp
qed

lemma powi_less: "(2 :: rat) powi a < 2 powi b \<Longrightarrow> a < b"
  using power_int_increasing [of b a "2 :: rat"] by (cases "a < b") auto

lemma powi_quotient: "e \<le> k \<Longrightarrow> (2 :: rat) powi k / 2 powi e = of_int (2 ^ nat (k - e))"
  using power_int_diff [of "2 :: rat" k e] by (simp add: power_int_def)

text \<open>Rounding does not cross a number that is exact at the precision of the value.\<close>

lemma rounded_le_scaled:
  assumes x: "0 \<le> x" "x \<le> of_nat r * 2 powi k" and r: "r < 2 ^ precision F"
    and k: "emin F - (int (precision F) - 1) \<le> k"
  shows "rounded F x \<le> of_nat r * 2 powi k"
proof (cases "x = 0")
  case False
  define e where "e = max (emin F) (ilog2 \<bar>x\<bar>) - (int (precision F) - 1)"
  have u: "ulp F x = 2 powi e" by (simp add: ulp_def e_def)
  have "2 powi (ilog2 \<bar>x\<bar>) \<le> x" using x(1) False ilog2_lower [of x] by simp
  also have "x \<le> of_nat r * 2 powi k" by (rule x(2))
  also have "(of_nat r :: rat) * 2 powi k < 2 powi (int (precision F)) * 2 powi k"
    using r by (intro mult_strict_right_mono) (auto simp: power_int_of_nat intro: of_nat_less_numeral_power_cancel_iff [THEN iffD2])
  also have "\<dots> = 2 powi (int (precision F) + k)" by (simp add: power_int_add)
  finally have "(2 :: rat) powi (ilog2 \<bar>x\<bar>) < 2 powi (int (precision F) + k)" .
  then have "ilog2 \<bar>x\<bar> < int (precision F) + k" by (rule powi_less)
  then have "e \<le> k" using k by (simp add: e_def)
  then have "(2 :: rat) powi k / 2 powi e = of_int (2 ^ nat (k - e))" by (rule powi_quotient)
  then have j: "(of_nat r :: rat) * 2 powi k / 2 powi e = of_int (int r * 2 ^ nat (k - e))"
    by (simp only: times_divide_eq_right [symmetric]) simp
  then have "x / 2 powi e \<le> of_int (int r * 2 ^ nat (k - e))"
    using x(2) by (metis divide_right_mono zero_le_power_int zero_le_numeral)
  then have "of_int (round_half_even (x / 2 powi e)) * (2 :: rat) powi e \<le> of_int (int r * 2 ^ nat (k - e)) * 2 powi e"
    by (intro mult_right_mono) (simp_all add: round_half_even_le del: of_int_mult)
  also have "\<dots> = of_nat r * 2 powi k" using j by (auto simp: field_simps)
  finally show ?thesis using False by (simp add: rounded_def u)
qed (simp add: rounded_def)

lemma rounded_le_nat:
  assumes "0 \<le> x" "x \<le> of_nat r" "r < 2 ^ precision F" and "emin F \<le> 0" "0 < precision F"
  shows "rounded F x \<le> of_nat r"
  using rounded_le_scaled [of x r 0 F] assms by simp

lemma ilog2_upper: "0 < x \<Longrightarrow> x < 2 powi (ilog2 x + 1)"
proof -
  assume x: "0 < x"
  obtain a b where q: "quotient_of x = (a, b)" by (cases "quotient_of x")
  have b: "0 < b" using quotient_of_denom_pos [OF q] .
  have eq: "x = of_int a / of_int b" using quotient_of_div [OF q] .
  have a: "0 < a" using x b by (simp add: eq zero_less_divide_iff)
  have "of_int a / of_int b < (2 :: rat) powi bitlen a / 2 powi (bitlen b - 1)"
    using bitlen_rat_bounds [OF a] bitlen_rat_bounds [OF b] a b by (intro frac_less) auto
  also have "\<dots> = 2 powi (bitlen a - bitlen b + 1)"
    by (simp add: power_int_diff power_int_add)
  finally show ?thesis using q eq by (auto simp: ilog2_def Let_def)
qed

lemma round_half_even_ge: "of_int k \<le> x \<Longrightarrow> k \<le> round_half_even x"
proof -
  assume "of_int k \<le> x"
  then have "k \<le> \<lfloor>x\<rfloor>" by (simp add: le_floor_iff)
  then show ?thesis by (simp add: round_half_even_def Let_def)
qed

lemma rounded_ge_one:
  assumes "1 \<le> x" and F: "emin F \<le> 0" "0 < precision F"
  shows "1 \<le> rounded F x"
proof -
  define l where "l = ilog2 x"
  define e where "e = l - (int (precision F) - 1)"
  have "(2 :: rat) powi 0 < 2 powi (l + 1)" using ilog2_upper [of x] assms(1) by (simp add: l_def)
  then have "0 < l + 1" by (rule powi_less)
  then have l: "0 \<le> l" by simp
  then have u: "ulp F x = 2 powi e" using assms by (simp add: ulp_def e_def l_def)
  have q: "(2 :: rat) powi l / 2 powi e = of_int (2 ^ nat (l - e))"
    using F by (intro powi_quotient) (simp add: e_def)
  moreover have "2 powi l \<le> x" using ilog2_lower [of x] assms(1) by (simp add: l_def)
  ultimately have "of_int (2 ^ nat (l - e)) \<le> x / 2 powi e"
    by (metis divide_right_mono zero_le_power_int zero_le_numeral)
  then have le: "of_int (2 ^ nat (l - e)) * (2 :: rat) powi e \<le> of_int (round_half_even (x / 2 powi e)) * 2 powi e"
    by (intro mult_right_mono) (simp_all only: of_int_le_iff round_half_even_ge zero_le_power_int zero_le_numeral)
  have "(1 :: rat) \<le> 2 powi l" using l by (simp add: power_int_def)
  also have "\<dots> = of_int (2 ^ nat (l - e)) * 2 powi e" using q by (simp add: field_simps)
  also note le
  finally show ?thesis using assms(1) by (simp add: rounded_def u)
qed

lemma rounded_ge_nat:
  assumes "of_nat r \<le> x" "0 < x" "x < 2 ^ precision F" and F: "emin F \<le> 0" "0 < precision F"
  shows "of_nat r \<le> rounded F x"
proof -
  define e where "e = max (emin F) (ilog2 x) - (int (precision F) - 1)"
  have u: "ulp F x = 2 powi e" using assms(2) by (simp add: ulp_def e_def)
  have "(2 :: rat) powi (ilog2 x) < 2 powi int (precision F)"
    using ilog2_lower [OF assms(2)] assms(3) by (simp only: power_int_of_nat)
  then have "ilog2 x < int (precision F)" by (rule powi_less)
  then have "e \<le> 0" using F by (simp add: e_def)
  then have q: "(2 :: rat) powi 0 / 2 powi e = of_int (2 ^ nat (0 - e))" by (rule powi_quotient)
  then have j: "(of_nat r :: rat) / 2 powi e = of_int (int r * 2 ^ nat (- e))"
    by (simp add: divide_inverse)
  have "(of_nat r :: rat) / 2 powi e \<le> x / 2 powi e"
    using assms(1) by (intro divide_right_mono) simp_all
  then have "of_int (int r * 2 ^ nat (- e)) \<le> x / 2 powi e" by (simp only: j)
  then have "int r * 2 ^ nat (- e) \<le> round_half_even (x / 2 powi e)" by (rule round_half_even_ge)
  then have "(of_int (int r * 2 ^ nat (- e)) :: rat) \<le> of_int (round_half_even (x / 2 powi e))" by (simp only: of_int_le_iff)
  then have "(of_nat r :: rat) / 2 powi e * 2 powi e \<le> of_int (round_half_even (x / 2 powi e)) * 2 powi e"
    unfolding j by (intro mult_right_mono) simp_all
  then show ?thesis using assms(2) by (simp add: rounded_def u)
qed

text \<open>Integers up to two to the precision are represented exactly.\<close>

lemma rounded_exact:
  assumes n: "n \<le> 2 ^ precision F" and F: "emin F \<le> 0" "0 < precision F"
  shows "rounded F (of_nat n) = of_nat n"
proof (cases "n = 0")
  case False
  define e where "e = max (emin F) (ilog2 (of_nat n)) - (int (precision F) - 1)"
  have u: "ulp F (of_nat n) = 2 powi e" by (simp add: ulp_def e_def)
  have low: "2 powi (ilog2 (of_nat n)) \<le> (of_nat n :: rat)"
    using False by (intro ilog2_lower) simp
  have "\<exists>k :: int. (of_nat n :: rat) / 2 powi e = of_int k"
  proof (cases "n = 2 ^ precision F")
    case True
    have "ilog2 (of_nat n) \<le> int (precision F)"
    proof (rule ccontr)
      assume "\<not> ?thesis"
      then have "(2 :: rat) powi int (precision F) < 2 powi (ilog2 (of_nat n))"
        by (intro power_int_strict_increasing) auto
      with low True show False by simp
    qed
    then have "e \<le> 1" using F by (simp add: e_def)
    moreover have "(of_nat n :: rat) = 2 powi int (precision F)" using True by simp
    ultimately have "(of_nat n :: rat) / 2 powi e = 2 powi (int (precision F) - e)"
      by (simp add: power_int_diff)
    moreover have "0 \<le> int (precision F) - e" using \<open>e \<le> 1\<close> F by simp
    ultimately show ?thesis by (intro exI [of _ "2 ^ nat (int (precision F) - e)"]) (simp add: power_int_def)
  next
    case False
    with n have lt: "n < 2 ^ precision F" by simp
    have "ilog2 (of_nat n) < int (precision F)"
    proof (rule ccontr)
      assume "\<not> ?thesis"
      then have "(2 :: rat) powi int (precision F) \<le> 2 powi (ilog2 (of_nat n))"
        by (intro power_int_increasing) auto
      with low have "(2 :: rat) ^ precision F \<le> of_nat n" unfolding power_int_of_nat by linarith
      then have "2 ^ precision F \<le> n" by (metis of_nat_le_iff of_nat_numeral of_nat_power)
      with lt show False by simp
    qed
    then have "e \<le> 0" using F by (simp add: e_def)
    then have "(of_nat n :: rat) / 2 powi e = of_int (int n * 2 ^ nat (- e))"
      by (simp add: power_int_def field_simps)
    then show ?thesis by blast
  qed
  then obtain k :: int where k: "(of_nat n :: rat) / 2 powi e = of_int k" by blast
  then have "(of_nat n :: rat) = of_int k * 2 powi e" by (simp add: field_simps)
  with k u False show ?thesis by (simp add: rounded_def)
qed (simp add: rounded_def)

lemma f_of_nat_exact:
  assumes n: "n \<le> 2 ^ precision F" and F: "emin F \<le> 0" "0 < precision F" "int (precision F) \<le> emax F"
  shows "f_of_nat F n = Finite (of_nat n)"
proof -
  have "rounded F (of_nat n) = of_nat n" using assms by (intro rounded_exact) simp_all
  moreover have "(of_nat n :: rat) < 2 powi (emax F + 1)"
  proof -
    have "(of_nat n :: rat) \<le> of_nat (2 ^ precision F)" using n by (simp only: of_nat_le_iff)
    also have "\<dots> = 2 powi int (precision F)" by simp
    also have "\<dots> < 2 powi (emax F + 1)" using F by (intro power_int_strict_increasing) auto
    finally show ?thesis .
  qed
  moreover have "- (2 powi (emax F + 1)) < (of_nat n :: rat)"
    by (rule less_le_trans [of _ 0]) simp_all
  ultimately show ?thesis by (simp add: f_of_nat_def mk_flt_def Let_def)
qed

lemma float_of_small_nat: "n \<le> 16777216 \<Longrightarrow> f_of_nat binary32 n = Finite (of_nat n)"
  by (rule f_of_nat_exact) (simp_all add: binary32_def)

lemma double_of_small_nat: "n \<le> 9007199254740992 \<Longrightarrow> f_of_nat binary64 n = Finite (of_nat n)"
  by (rule f_of_nat_exact) (simp_all add: binary64_def)

text \<open>The rounded value of a number below an exact integer is finite and below it.\<close>

lemma mk_flt_le_nat:
  assumes "0 \<le> x" "x \<le> of_nat r" "r < 16777216"
  shows "\<exists>y. mk_flt binary32 x = Finite y \<and> 0 \<le> y \<and> y \<le> of_nat r"
proof -
  have le: "rounded binary32 x \<le> of_nat r"
    using assms by (intro rounded_le_nat) (simp_all add: binary32_def)
  have nn: "0 \<le> rounded binary32 x" using assms(1) by (rule rounded_nonneg)
  have "(of_nat r :: rat) \<le> of_nat 16777216" using assms(3) by (simp only: of_nat_le_iff)
  then have "(of_nat r :: rat) < 2 ^ 128" by simp
  then have "rounded binary32 x < 2 powi (emax binary32 + 1)"
    using le by (simp add: binary32_def power_int_def)
  moreover have "- (2 powi (emax binary32 + 1)) < rounded binary32 x"
    using nn by (rule less_le_trans [rotated]) simp
  ultimately show ?thesis using nn le by (simp add: mk_flt_def Let_def)
qed

text \<open>Non negative values stay so, and never become NaN.\<close>

fun f_nonneg :: "flt \<Rightarrow> bool" where
  "f_nonneg (Finite x) \<longleftrightarrow> 0 \<le> x"
| "f_nonneg PosInf \<longleftrightarrow> True"
| "f_nonneg y \<longleftrightarrow> False"

lemma mk_flt_nonneg: "0 \<le> x \<Longrightarrow> f_nonneg (mk_flt F x)"
proof -
  assume "0 \<le> x"
  then have "0 \<le> rounded F x" by (rule rounded_nonneg)
  moreover have "(0 :: rat) < 2 powi (emax F + 1)" by simp
  ultimately have "\<not> rounded F x \<le> - (2 powi (emax F + 1))" by linarith
  with \<open>0 \<le> rounded F x\<close> show ?thesis by (simp add: mk_flt_def Let_def)
qed

lemma f_nonneg_ops:
  "f_nonneg x \<Longrightarrow> f_nonneg y \<Longrightarrow> f_nonneg (f_add F x y)"
  "0 \<le> c \<Longrightarrow> f_nonneg x \<Longrightarrow> f_nonneg (f_scale F c x)"
  "0 < c \<Longrightarrow> f_nonneg x \<Longrightarrow> f_nonneg (f_div F x (Finite c))"
  "f_nonneg (f_of_nat F n)"
  "f_nonneg x \<Longrightarrow> f_nonneg (f_narrow F x)"
  by (cases x; cases y; simp add: mk_flt_nonneg)
    (cases x; simp add: mk_flt_nonneg f_of_nat_def)+

lemma clamp_between:
  assumes "lo \<le> hi" and "v \<noteq> NaN"
  obtains x where "f_clamp v (Finite lo) (Finite hi) = Some (Finite x)" "lo \<le> x" "x \<le> hi"
  using assms by (cases v; cases "f_less v (Finite lo)"; cases "f_less (Finite hi) v")
    (auto simp: f_clamp_def not_less)

end
