(* ===== verification/Transport_Manager.thy ===== *)
theory Transport_Manager
  imports Wire Ordered_Map Float_Model
begin

text \<open>
  Class \<open>AutoTransportManager\<close> of \<open>native/core/src/transport_manager.cpp\<close>: the registered
  transports by type, the active one, and the choice between them. The transports implement
  the abstract class \<open>Transport\<close>, which has no implementation in the repository: they are
  values of a type \<open>'t\<close> and what they answer is the argument \<open>env\<close> of the operations.
\<close>

subsection \<open>Transports\<close>

datatype TransportState = DISCONNECTED | CONNECTING | CONNECTED | DEGRADED | FAILED

record TransportMetrics =
  rttMs :: flt
  jitterMs :: flt
  packetLossPercent :: flt
  bytesSent :: u64
  bytesReceived :: u64
  packetsSent :: u64
  packetsReceived :: u64
  packetsDropped :: u64
  currentBitrateBps :: u32

definition TransportMetrics_default :: TransportMetrics where
  "TransportMetrics_default = \<lparr>rttMs = Finite 0, jitterMs = Finite 0, packetLossPercent = Finite 0,
     bytesSent = 0, bytesReceived = 0, packetsSent = 0, packetsReceived = 0, packetsDropped = 0,
     currentBitrateBps = 0\<rparr>"

record 't transport_env =
  GetType :: "'t \<Rightarrow> TransportType"
  GetState :: "'t \<Rightarrow> TransportState"
  GetMetrics :: "'t \<Rightarrow> TransportMetrics"
  Send :: "'t \<Rightarrow> bytes \<Rightarrow> int"

text \<open>The map is ordered by the underlying value of the enumeration.\<close>

instantiation TransportType :: linorder
begin

definition less_eq_TransportType :: "TransportType \<Rightarrow> TransportType \<Rightarrow> bool" where
  "less_eq_TransportType a b \<longleftrightarrow> transport_byte a \<le> transport_byte b"

definition less_TransportType :: "TransportType \<Rightarrow> TransportType \<Rightarrow> bool" where
  "less_TransportType a b \<longleftrightarrow> transport_byte a < transport_byte b"

instance
  by standard (auto simp: less_eq_TransportType_def less_TransportType_def less_le)

end

subsection \<open>State and operations\<close>

record 't TransportManager =
  am_transports :: "(TransportType, 't) omap"
  am_activeTransport :: "'t option"
  am_preferredMode :: TransportType
  am_isHandoffInProgress :: bool
  am_onHandoffCompleted :: bool

definition TransportManager_new :: "'t TransportManager" where
  "TransportManager_new = \<lparr>am_transports = [], am_activeTransport = None, am_preferredMode = AUTO,
     am_isHandoffInProgress = False, am_onHandoffCompleted = False\<rparr>"

text \<open>The destructor: the transports whose \<open>Close\<close> is called, in the order of the map; none is null.\<close>

definition TransportManager_delete :: "'t TransportManager \<Rightarrow> 't list" where
  "TransportManager_delete m = map snd (am_transports m)"

definition is_connected :: "'t transport_env \<Rightarrow> 't \<Rightarrow> bool" where
  "is_connected env t \<longleftrightarrow> GetState env t = CONNECTED"

definition am_RegisterTransport ::
  "'t transport_env \<Rightarrow> 't option \<Rightarrow> 't TransportManager \<Rightarrow> 't TransportManager" where
  "am_RegisterTransport env transport am =
     (case transport of
        None \<Rightarrow> am
      | Some t \<Rightarrow>
          let am = am\<lparr>am_transports := om_put (GetType env t) t (am_transports am)\<rparr> in
          if (case am_activeTransport am of None \<Rightarrow> True | Some a \<Rightarrow> \<not> is_connected env a)
          then if is_connected env t then am\<lparr>am_activeTransport := Some t\<rparr> else am
          else am)"

definition SetPreferredTransportMode ::
  "'t transport_env \<Rightarrow> TransportType \<Rightarrow> 't TransportManager \<Rightarrow> 't TransportManager" where
  "SetPreferredTransportMode env mode am =
     (let am = am\<lparr>am_preferredMode := mode\<rparr> in
      if mode \<noteq> AUTO then
        case map_of (am_transports am) mode of
          Some t \<Rightarrow> if is_connected env t then am\<lparr>am_activeTransport := Some t\<rparr> else am
        | None \<Rightarrow> am
      else am)"

definition GetActiveTransportType :: "'t transport_env \<Rightarrow> 't TransportManager \<Rightarrow> TransportType" where
  "GetActiveTransportType env am =
     (case am_activeTransport am of Some a \<Rightarrow> GetType env a | None \<Rightarrow> AUTO)"

text \<open>The result, and what was handed to a transport.\<close>

definition SendPacket ::
  "'t transport_env \<Rightarrow> bytes \<Rightarrow> 't TransportManager \<Rightarrow> int \<times> ('t \<times> bytes) list" where
  "SendPacket env data am =
     (case am_activeTransport am of
        Some a \<Rightarrow> if is_connected env a then (Send env a data, [(a, data)]) else (-1, [])
      | None \<Rightarrow> (-1, []))"

fun baseScore :: "TransportType \<Rightarrow> int" where
  "baseScore USB = 10"
| "baseScore WIFI_LAN = 20"
| "baseScore WIFI_DIRECT = 30"
| "baseScore BLUETOOTH = 50"
| "baseScore AUTO = 100"

text \<open>\<open>None\<close> where a conversion to \<open>int\<close> or the signed addition is undefined.\<close>

definition CalculateRank :: "TransportType \<Rightarrow> TransportMetrics \<Rightarrow> int option" where
  "CalculateRank type metrics =
     (case (f_to_signed 32 (rttMs metrics), f_to_signed 32 (f_scale binary32 5 (packetLossPercent metrics))) of
        (Some r, Some l) \<Rightarrow>
          let penalty = r + l; score = baseScore type + penalty in
          if - (2 ^ 31) \<le> penalty \<and> penalty < 2 ^ 31 \<and> - (2 ^ 31) \<le> score \<and> score < 2 ^ 31
          then Some score else None
      | _ \<Rightarrow> None)"

text \<open>The scan for the best candidate, from the candidate and score so far.\<close>

fun best_candidate ::
  "'t transport_env \<Rightarrow> (TransportType, 't) omap \<Rightarrow> 't option \<Rightarrow> int \<Rightarrow> ('t option \<times> int) option" where
  "best_candidate env [] best bestScore = Some (best, bestScore)"
| "best_candidate env ((type, t) # m) best bestScore =
     (if is_connected env t then
        case CalculateRank type (GetMetrics env t) of
          None \<Rightarrow> None
        | Some score \<Rightarrow>
            if score < bestScore then best_candidate env m (Some t) score
            else best_candidate env m best bestScore
      else best_candidate env m best bestScore)"

definition active_type :: "'t transport_env \<Rightarrow> 't TransportManager \<Rightarrow> TransportType" where
  "active_type env am = (case am_activeTransport am of Some a \<Rightarrow> GetType env a | None \<Rightarrow> AUTO)"

text \<open>The result, the callbacks \<open>onHandoffCompleted_(old, new)\<close>, and the new state.\<close>

definition EvaluateAndHandoff ::
  "'t transport_env \<Rightarrow> 't TransportManager \<Rightarrow>
     (bool \<times> (TransportType \<times> TransportType) list \<times> 't TransportManager) option" where
  "EvaluateAndHandoff env am =
     (if am_isHandoffInProgress am then Some (False, [], am)
      else if am_preferredMode am \<noteq> AUTO then Some (False, [], am)
      else
        case best_candidate env (am_transports am) None 99999 of
          None \<Rightarrow> None
        | Some (None, _) \<Rightarrow> Some (False, [], am)
        | Some (Some b, _) \<Rightarrow>
            if am_activeTransport am = Some b then Some (False, [], am)
            else
              let oldType = active_type env am; newType = GetType env b
              in Some (True, if am_onHandoffCompleted am then [(oldType, newType)] else [],
                       am\<lparr>am_activeTransport := Some b, am_isHandoffInProgress := False\<rparr>))"

definition InitiateHandoff ::
  "'t transport_env \<Rightarrow> TransportType \<Rightarrow> 't TransportManager \<Rightarrow>
     bool \<times> (TransportType \<times> TransportType) list \<times> 't TransportManager" where
  "InitiateHandoff env targetType am =
     (case map_of (am_transports am) targetType of
        Some t \<Rightarrow>
          if is_connected env t then
            (True, if am_onHandoffCompleted am then [(active_type env am, targetType)] else [],
             am\<lparr>am_activeTransport := Some t\<rparr>)
          else (False, [], am)
      | None \<Rightarrow> (False, [], am))"

definition GetActiveMetrics :: "'t transport_env \<Rightarrow> 't TransportManager \<Rightarrow> TransportMetrics" where
  "GetActiveMetrics env am =
     (case am_activeTransport am of Some a \<Rightarrow> GetMetrics env a | None \<Rightarrow> TransportMetrics_default)"

subsection \<open>The scan finds the least rank\<close>

definition rank_of :: "'t transport_env \<Rightarrow> TransportType \<times> 't \<Rightarrow> int option" where
  "rank_of env e = CalculateRank (fst e) (GetMetrics env (snd e))"

definition ranked :: "'t transport_env \<Rightarrow> (TransportType, 't) omap \<Rightarrow> bool" where
  "ranked env m \<longleftrightarrow> (\<forall>e \<in> set m. is_connected env (snd e) \<longrightarrow> rank_of env e \<noteq> None)"

lemma best_candidate_defined:
  "best_candidate env m best s \<noteq> None \<longleftrightarrow> ranked env m"
  by (induction env m best s rule: best_candidate.induct)
    (auto simp: ranked_def rank_of_def split: option.splits)

text \<open>The result is the start value, or a connected entry of least score below it.\<close>

lemma best_candidate_least:
  "best_candidate env m best s = Some (best', s') \<Longrightarrow>
     s' \<le> s \<and> (\<forall>e \<in> set m. is_connected env (snd e) \<longrightarrow> s' \<le> the (rank_of env e)) \<and>
     ((best', s') = (best, s) \<or>
      (\<exists>e \<in> set m. best' = Some (snd e) \<and> is_connected env (snd e) \<and> rank_of env e = Some s' \<and> s' < s))"
proof (induction env m best s rule: best_candidate.induct)
  case (1 env best s)
  then show ?case by simp
next
  case (2 env type t m best s)
  show ?case
  proof (cases "is_connected env t")
    case conn: True
    then obtain score where score: "CalculateRank type (GetMetrics env t) = Some score"
      using "2.prems" by (auto split: option.splits)
    show ?thesis
    proof (cases "score < s")
      case True
      with "2.IH"(1) [OF conn score True] "2.prems" conn score show ?thesis
        by (auto simp: rank_of_def)
    next
      case False
      with "2.IH"(2) [OF conn score False] "2.prems" conn score show ?thesis
        by (auto simp: rank_of_def)
    qed
  next
    case False
    with "2.IH"(3) [OF False] "2.prems" show ?thesis by auto
  qed
qed

subsection \<open>Properties\<close>

definition demo_metrics :: "rat \<Rightarrow> rat \<Rightarrow> TransportMetrics" where
  "demo_metrics rtt loss = TransportMetrics_default\<lparr>rttMs := Finite rtt, packetLossPercent := Finite loss\<rparr>"

text \<open>Transport 1 is a bad USB link, transport 2 a good wireless one, transport 3 is down.\<close>

definition demo_env :: "nat transport_env" where
  "demo_env = \<lparr>
     GetType = (\<lambda>t. if t = 1 then USB else if t = 2 then WIFI_LAN else BLUETOOTH),
     GetState = (\<lambda>t. if t = 3 then FAILED else CONNECTED),
     GetMetrics = (\<lambda>t. if t = 1 then demo_metrics 200 2 else demo_metrics 5 0),
     Send = (\<lambda>t d. int (length d))\<rparr>"

definition demo_manager :: "nat TransportManager" where
  "demo_manager = am_RegisterTransport demo_env (Some 3) (am_RegisterTransport demo_env (Some 2)
     (am_RegisterTransport demo_env (Some 1) TransportManager_new))"

text \<open>C31. Automatic choice: when the ranks of the connected transports are defined and one of them
  is below the initial bound, an evaluation in automatic mode makes active a connected registered
  transport whose rank (base score by type plus round trip time plus five times the loss) is least,
  reports a handoff exactly when the active transport changed, and packets sent afterwards go to it.\<close>

theorem handoff_selects_the_best_transport:
  assumes "am_preferredMode am = AUTO" and "\<not> am_isHandoffInProgress am"
    and "ranked env (am_transports am)"
    and "c \<in> set (am_transports am)" and "is_connected env (snd c)" and "the (rank_of env c) < 99999"
  shows "\<exists>e ok calls am'. EvaluateAndHandoff env am = Some (ok, calls, am') \<and>
    e \<in> set (am_transports am) \<and> is_connected env (snd e) \<and>
    (\<forall>e' \<in> set (am_transports am). is_connected env (snd e') \<longrightarrow> the (rank_of env e) \<le> the (rank_of env e')) \<and>
    am_activeTransport am' = Some (snd e) \<and> am_transports am' = am_transports am \<and>
    (ok \<longleftrightarrow> am_activeTransport am \<noteq> Some (snd e)) \<and>
    calls = (if ok \<and> am_onHandoffCompleted am then [(active_type env am, GetType env (snd e))] else []) \<and>
    SendPacket env data am' = (Send env (snd e) data, [(snd e, data)])"
proof -
  obtain b s where bc: "best_candidate env (am_transports am) None 99999 = Some (b, s)"
    using best_candidate_defined [of env "am_transports am" None 99999] assms(3) by auto
  note least = best_candidate_least [OF bc]
  have "s < 99999" using least assms(4-6) by fastforce
  with least obtain e where e: "e \<in> set (am_transports am)" "b = Some (snd e)" "is_connected env (snd e)"
    "rank_of env e = Some s" by auto
  show ?thesis
    using e least assms(1,2) bc
    by (intro exI [of _ e]) (auto simp: EvaluateAndHandoff_def SendPacket_def Let_def)
qed

theorem handoff_selects_the_best_transport_witness:
  "am_activeTransport demo_manager = Some 1 \<and>
   (\<exists>calls am'. EvaluateAndHandoff demo_env demo_manager = Some (True, calls, am') \<and>
      am_activeTransport am' = Some 2)"
proof -
  have m: "am_transports demo_manager = [(USB, 1), (WIFI_LAN, 2), (BLUETOOTH, 3)]"
    "am_activeTransport demo_manager = Some 1" "am_preferredMode demo_manager = AUTO"
    "\<not> am_isHandoffInProgress demo_manager"
    by code_simp+
  have r: "rank_of demo_env (USB, 1) = Some 220" "rank_of demo_env (WIFI_LAN, 2) = Some 25"
    by code_simp+
  have c: "is_connected demo_env 1" "is_connected demo_env 2" "\<not> is_connected demo_env 3"
    by code_simp+
  have "ranked demo_env (am_transports demo_manager)" using r c by (simp add: ranked_def m)
  from handoff_selects_the_best_transport [OF m(3,4) this, of "(WIFI_LAN, 2)" "[]"]
  show ?thesis using m(2) r c by (auto simp: m(1))
qed

text \<open>Registration and pinning keep the map sound: after any registrations and mode changes
  every entry is stored under its own type, the keys are in order and distinct, and a transport
  is made active only while it is connected.\<close>

theorem registered_transports_are_sound:
  assumes "om_wf (am_transports am)" and "\<forall>e \<in> set (am_transports am). GetType env (snd e) = fst e"
    and "am' \<in> {am_RegisterTransport env t am, SetPreferredTransportMode env mode am,
                snd (snd (InitiateHandoff env mode am))}"
  shows "om_wf (am_transports am') \<and> (\<forall>e \<in> set (am_transports am'). GetType env (snd e) = fst e) \<and>
    (am_activeTransport am' = am_activeTransport am \<or>
     (\<exists>a. am_activeTransport am' = Some a \<and> is_connected env a \<and> map_of (am_transports am') (GetType env a) = Some a))"
proof -
  have put: "om_wf (om_put (GetType env a) a (am_transports am)) \<and>
      (\<forall>e \<in> set (om_put (GetType env a) a (am_transports am)). GetType env (snd e) = fst e) \<and>
      map_of (om_put (GetType env a) a (am_transports am)) (GetType env a) = Some a" for a
    using assms(1,2) set_om_put_subset [of "GetType env a" a "am_transports am"]
      om.find_put_same [OF assms(1), of "GetType env a" a] om.wf_put [OF assms(1)]
    by fastforce
  have found: "GetType env a = k" if "map_of (am_transports am) k = Some a" for k a
    using that assms(2) map_of_SomeD by fastforce
  from assms(3) consider "am' = am_RegisterTransport env t am" | "am' = SetPreferredTransportMode env mode am"
    | "am' = snd (snd (InitiateHandoff env mode am))" by auto
  then show ?thesis
  proof cases
    case 1
    then show ?thesis using put assms(1,2)
      by (auto simp: am_RegisterTransport_def Let_def split: option.splits)
  next
    case 2
    then show ?thesis using assms(1,2) found
      by (auto simp: SetPreferredTransportMode_def Let_def split: option.splits)
  next
    case 3
    then show ?thesis using assms(1,2) found
      by (auto simp: InitiateHandoff_def split: option.splits)
  qed
qed

theorem registered_transports_are_sound_witness:
  "om_wf (am_transports (am_RegisterTransport demo_env (Some 2) TransportManager_new))"
  using registered_transports_are_sound [of TransportManager_new demo_env
      "am_RegisterTransport demo_env (Some 2) TransportManager_new" "Some 2" AUTO]
  by (simp add: TransportManager_new_def)

end
