(* ===== verification/Jitter_Buffer.thy ===== *)
theory Jitter_Buffer
  imports Packetizer Float_Model "HOL-Library.Signed_Division"
begin

text \<open>
  Class \<open>AdaptiveJitterBuffer\<close> of \<open>native/core/src/jitter_buffer.cpp\<close>: a queue of frames in
  order of their time stamps, bounded by \<open>maxQueueFrames\<close>, released after an adaptive delay.
  The reading of the steady clock (in nanoseconds) is an argument of the operations. An
  operation whose behaviour is undefined in C++ returns \<open>None\<close>.
\<close>

subsection \<open>State and operations\<close>

record JitterBufferConfig =
  minDelayMs :: u32
  maxDelayMs :: u32
  maxQueueFrames :: u32

record JitterBuffer =
  jb_config :: JitterBufferConfig
  jb_onIdrRequest :: bool
  jb_queue :: "(VideoFrame \<times> int) list"
  jb_currentTargetDelayMs :: u32
  jb_lastEmittedFrameId :: u32
  jb_droppedFrames :: u64
  jb_waitingForInitialKeyframe :: bool

definition JitterBuffer_new :: "JitterBufferConfig \<Rightarrow> bool \<Rightarrow> JitterBuffer" where
  "JitterBuffer_new config onIdrRequest =
     \<lparr>jb_config = config, jb_onIdrRequest = onIdrRequest, jb_queue = [],
      jb_currentTargetDelayMs = minDelayMs config, jb_lastEmittedFrameId = 0, jb_droppedFrames = 0,
      jb_waitingForInitialKeyframe = True\<rparr>"

text \<open>\<open>pop_front\<close> on an empty deque is undefined, which the loop reaches for a limit of zero.\<close>

fun drop_oldest :: "nat \<Rightarrow> 'f list \<Rightarrow> u64 \<Rightarrow> ('f list \<times> u64) option" where
  "drop_oldest limit [] dropped = (if limit \<le> 0 then None else Some ([], dropped))"
| "drop_oldest limit (x # q) dropped =
     (if limit \<le> length (x # q) then drop_oldest limit q (dropped + 1) else Some (x # q, dropped))"

text \<open>\<open>std::lower_bound\<close> by halving: the position reached from \<open>first\<close> with \<open>count\<close> elements left.\<close>

function lower_bound :: "('f \<Rightarrow> bool) \<Rightarrow> 'f list \<Rightarrow> nat \<Rightarrow> nat \<Rightarrow> nat" where
  "lower_bound before q first count =
     (if count = 0 then first
      else
        let half = count div 2; it = first + half in
        if before (q ! it) then lower_bound before q (it + 1) (count - (half + 1))
        else lower_bound before q first half)"
  by pat_completeness auto
termination by (relation "measure (\<lambda>(_, _, _, count). count)") auto

declare lower_bound.simps [simp del]

definition PushFrame :: "int \<Rightarrow> VideoFrame \<Rightarrow> JitterBuffer \<Rightarrow> (u32 list \<times> JitterBuffer) option" where
  "PushFrame now frame jb =
     (if jb_waitingForInitialKeyframe jb \<and> \<not> vf_isKeyframe frame
      then Some (if jb_onIdrRequest jb then [0] else [], jb)
      else
        let jb = jb\<lparr>jb_waitingForInitialKeyframe := False\<rparr> in
        case drop_oldest (unat (maxQueueFrames (jb_config jb))) (jb_queue jb) (jb_droppedFrames jb) of
          None \<Rightarrow> None
        | Some (q, dropped) \<Rightarrow>
            let it = lower_bound (\<lambda>e. vf_timestampUs (fst e) < vf_timestampUs frame) q 0 (length q) in
            Some ([], jb\<lparr>jb_queue := take it q @ (frame, now) # drop it q, jb_droppedFrames := dropped\<rparr>))"

definition PopNextFrame :: "int \<Rightarrow> JitterBuffer \<Rightarrow> VideoFrame option \<times> JitterBuffer" where
  "PopNextFrame now jb =
     (case jb_queue jb of
        [] \<Rightarrow> (None, jb)
      | (frame, arrived) # q \<Rightarrow>
          let elapsedMs = (now - arrived) sdiv 1000000 in
          if int (unat (jb_currentTargetDelayMs jb)) \<le> elapsedMs \<or>
             unat (maxQueueFrames (jb_config jb) div 2) \<le> length (jb_queue jb)
          then (Some frame, jb\<lparr>jb_queue := q, jb_lastEmittedFrameId := vf_frameId frame\<rparr>)
          else (None, jb))"

definition jitter_target :: "flt \<Rightarrow> flt \<Rightarrow> flt \<Rightarrow> flt" where
  "jitter_target minDelay measuredJitterMs packetLossRate =
     f_add binary32 (f_add binary32 minDelay (f_scale binary32 2 measuredJitterMs))
       (f_scale binary32 20 packetLossRate)"

definition UpdateNetworkStats :: "flt \<Rightarrow> flt \<Rightarrow> JitterBuffer \<Rightarrow> JitterBuffer option" where
  "UpdateNetworkStats measuredJitterMs packetLossRate jb =
     (let lo = f_of_nat binary32 (unat (minDelayMs (jb_config jb)));
          hi = f_of_nat binary32 (unat (maxDelayMs (jb_config jb)));
          target = jitter_target lo measuredJitterMs packetLossRate
      in case Option.bind (f_clamp target lo hi) (f_to_unsigned 32) of
           None \<Rightarrow> None
         | Some t \<Rightarrow> Some (jb\<lparr>jb_currentTargetDelayMs := of_nat t\<rparr>))"

definition FrameCount :: "JitterBuffer \<Rightarrow> nat" where
  "FrameCount jb = length (jb_queue jb)"

definition Flush :: "JitterBuffer \<Rightarrow> JitterBuffer" where
  "Flush jb = jb\<lparr>jb_queue := [], jb_lastEmittedFrameId := 0, jb_waitingForInitialKeyframe := True\<rparr>"

subsection \<open>The loops\<close>

lemma drop_oldest_eq:
  "drop_oldest limit q dropped =
     (if limit = 0 then None
      else Some (drop (length q - (limit - 1)) q, dropped + of_nat (length q - (limit - 1))))"
proof (induction q arbitrary: dropped)
  case Nil
  then show ?case by simp
next
  case (Cons x q)
  show ?case
  proof (cases "limit \<le> length (x # q)")
    case True
    then have "limit = 0 \<or> length (x # q) - (limit - 1) = Suc (length q - (limit - 1))" by auto
    with True Cons show ?thesis by (auto simp: algebra_simps)
  qed auto
qed

text \<open>On a range partitioned by \<open>before\<close> the search returns the partition point.\<close>

lemma lower_bound_split:
  "\<forall>i < k. before (q ! i) \<Longrightarrow> \<forall>i. k \<le> i \<and> i < length q \<longrightarrow> \<not> before (q ! i) \<Longrightarrow>
     first \<le> k \<Longrightarrow> k \<le> first + count \<Longrightarrow> first + count \<le> length q \<Longrightarrow>
     lower_bound before q first count = k"
proof (induction before q first count rule: lower_bound.induct)
  case (1 before q first count)
  show ?case
  proof (cases "count = 0")
    case True
    then show ?thesis using "1.prems" by (simp add: lower_bound.simps)
  next
    case False
    let ?it = "first + count div 2"
    have it: "?it < length q" using False "1.prems"(5) by linarith
    show ?thesis
    proof (cases "before (q ! ?it)")
      case True
      then have "?it + 1 \<le> k" using "1.prems"(2) it by (metis Suc_eq_plus1 not_less_eq_eq)
      then show ?thesis
        using False True "1.IH"(1) [OF False refl refl True "1.prems"(1,2)] "1.prems"
        by (subst lower_bound.simps) (simp add: Let_def)
    next
      case F: False
      then have "k \<le> ?it" using "1.prems"(1) by (metis not_le)
      then show ?thesis
        using False F "1.IH"(2) [OF False refl refl F "1.prems"(1,2)] "1.prems" it
        by (subst lower_bound.simps) (simp add: Let_def)
    qed
  qed
qed

lemma lower_bound_takeWhile:
  assumes "\<And>i j. i \<le> j \<Longrightarrow> j < length q \<Longrightarrow> before (q ! j) \<Longrightarrow> before (q ! i)"
  shows "lower_bound before q 0 (length q) = length (takeWhile before q)"
proof (rule lower_bound_split)
  show "\<forall>i < length (takeWhile before q). before (q ! i)"
    by (metis nth_mem set_takeWhileD takeWhile_nth)
  show "\<forall>i. length (takeWhile before q) \<le> i \<and> i < length q \<longrightarrow> \<not> before (q ! i)"
    using assms by (metis (full_types) le_less_trans nth_length_takeWhile)
qed (simp_all add: length_takeWhile_le)

subsection \<open>Runs and their invariant\<close>

datatype jb_op =
    JPush int VideoFrame
  | JPop int
  | JStats flt flt
  | JFlush

datatype jb_event = IdrRequested u32 | Played VideoFrame

text \<open>\<open>None\<close> when the call's behaviour is undefined.\<close>

fun jb_step :: "JitterBuffer \<Rightarrow> jb_op \<Rightarrow> (jb_event list \<times> JitterBuffer) option" where
  "jb_step jb (JPush now f) =
     map_option (\<lambda>(idr, jb'). (map IdrRequested idr, jb')) (PushFrame now f jb)"
| "jb_step jb (JPop now) =
     Some (case PopNextFrame now jb of (None, jb') \<Rightarrow> ([], jb') | (Some f, jb') \<Rightarrow> ([Played f], jb'))"
| "jb_step jb (JStats j l) = map_option (Pair []) (UpdateNetworkStats j l jb)"
| "jb_step jb JFlush = Some ([], Flush jb)"

inductive jb_reachable :: "JitterBufferConfig \<Rightarrow> JitterBuffer \<Rightarrow> bool" for config where
  created: "jb_reachable config (JitterBuffer_new config cb)"
| stepped: "jb_reachable config jb \<Longrightarrow> jb_step jb x = Some (es, jb') \<Longrightarrow> jb_reachable config jb'"

abbreviation stamp :: "VideoFrame \<times> int \<Rightarrow> u64" where
  "stamp e \<equiv> vf_timestampUs (fst e)"

definition by_stamp :: "(VideoFrame \<times> int) list \<Rightarrow> bool" where
  "by_stamp = sorted_wrt (\<lambda>a b. stamp a \<le> stamp b)"

definition insert_entry :: "VideoFrame \<times> int \<Rightarrow> (VideoFrame \<times> int) list \<Rightarrow> (VideoFrame \<times> int) list" where
  "insert_entry e q =
     takeWhile (\<lambda>x. stamp x < stamp e) q @ e # dropWhile (\<lambda>x. stamp x < stamp e) q"

lemma by_stamp_insert: "by_stamp q \<Longrightarrow> by_stamp (insert_entry e q)"
  unfolding by_stamp_def insert_entry_def
  by (induction q) (auto simp: not_less dest: set_takeWhileD set_dropWhileD intro: order_trans)

lemma by_stamp_drop: "by_stamp q \<Longrightarrow> by_stamp (drop n q)"
  by (simp add: by_stamp_def sorted_wrt_drop)

lemma lower_bound_insert:
  assumes "by_stamp q"
  shows "(let it = lower_bound (\<lambda>x. stamp x < stamp e) q 0 (length q) in take it q @ e # drop it q) =
    insert_entry e q"
proof -
  have "lower_bound (\<lambda>x. stamp x < stamp e) q 0 (length q) =
      length (takeWhile (\<lambda>x. stamp x < stamp e) q)"
  proof (rule lower_bound_takeWhile)
    fix i j
    assume "i \<le> j" "j < length q" "stamp (q ! j) < stamp e"
    moreover have "stamp (q ! i) \<le> stamp (q ! j)"
      using assms calculation(1,2) by (cases "i = j") (auto simp: by_stamp_def sorted_wrt_iff_nth_less)
    ultimately show "stamp (q ! i) < stamp e" by simp
  qed
  then show ?thesis
    by (simp add: insert_entry_def Let_def takeWhile_eq_take [symmetric] dropWhile_eq_drop [symmetric])
qed

definition jb_inv :: "JitterBufferConfig \<Rightarrow> JitterBuffer \<Rightarrow> bool" where
  "jb_inv config jb \<longleftrightarrow>
     jb_config jb = config \<and> by_stamp (jb_queue jb) \<and>
     length (jb_queue jb) \<le> unat (maxQueueFrames config) \<and>
     (jb_waitingForInitialKeyframe jb \<longrightarrow> jb_queue jb = [])"

lemma PushFrame_accepted:
  assumes "jb_inv config jb" and "\<not> jb_waitingForInitialKeyframe jb \<or> vf_isKeyframe f"
    and "0 < unat (maxQueueFrames config)"
  shows "PushFrame now f jb = Some ([], jb\<lparr>
      jb_waitingForInitialKeyframe := False,
      jb_queue := insert_entry (f, now)
        (drop (length (jb_queue jb) - (unat (maxQueueFrames config) - 1)) (jb_queue jb)),
      jb_droppedFrames := jb_droppedFrames jb +
        of_nat (length (jb_queue jb) - (unat (maxQueueFrames config) - 1))\<rparr>)"
proof -
  define keep where
    "keep = drop (length (jb_queue jb) - (unat (maxQueueFrames config) - 1)) (jb_queue jb)"
  have c: "jb_config jb = config" "by_stamp keep"
    using assms(1) by (simp_all add: jb_inv_def keep_def by_stamp_drop)
  have g: "\<not> (jb_waitingForInitialKeyframe jb \<and> \<not> vf_isKeyframe f)" using assms(2) by blast
  define n where "n = jb_droppedFrames jb +
    of_nat (length (jb_queue jb) - (unat (maxQueueFrames config) - 1))"
  have d: "drop_oldest (unat (maxQueueFrames config)) (jb_queue jb) (jb_droppedFrames jb) = Some (keep, n)"
    using assms(3) by (simp add: drop_oldest_eq keep_def n_def)
  from lower_bound_insert [OF c(2), of "(f, now)"] show ?thesis
    unfolding PushFrame_def if_not_P [OF g] keep_def [symmetric] n_def [symmetric]
    by (simp add: c(1) d Let_def)
qed

lemma length_insert_entry [simp]: "length (insert_entry e q) = Suc (length q)"
  by (metis (no_types, lifting) add_Suc_right insert_entry_def length_Cons length_append
      takeWhile_dropWhile_id)

lemma jb_step_inv:
  assumes inv: "jb_inv config jb" and step: "jb_step jb x = Some (es, jb')"
  shows "jb_inv config jb'"
proof (cases x)
  case (JPush now f)
  show ?thesis
  proof (cases "jb_waitingForInitialKeyframe jb \<and> \<not> vf_isKeyframe f")
    case True
    with JPush step inv show ?thesis by (auto simp: PushFrame_def)
  next
    case False
    have "0 < unat (maxQueueFrames config)"
      using step JPush False inv
      by (auto simp: PushFrame_def jb_inv_def drop_oldest_eq Let_def split: if_splits)
    with PushFrame_accepted [OF inv _ this, of f now] step JPush False inv show ?thesis
      by (auto simp: jb_inv_def by_stamp_insert by_stamp_drop)
  qed
next
  case (JPop now)
  then have "es = (case fst (PopNextFrame now jb) of None \<Rightarrow> [] | Some f \<Rightarrow> [Played f])"
    and jb': "jb' = snd (PopNextFrame now jb)"
    using step by (auto split: prod.splits option.splits)
  with inv show ?thesis
    by (auto simp: jb' PopNextFrame_def jb_inv_def Let_def by_stamp_def split: list.splits)
next
  case (JStats j l)
  with step inv show ?thesis
    by (auto simp: UpdateNetworkStats_def jb_inv_def Let_def split: option.splits)
next
  case JFlush
  with step inv show ?thesis by (auto simp: Flush_def jb_inv_def by_stamp_def)
qed

lemma jb_reachable_inv: "jb_reachable config jb \<Longrightarrow> jb_inv config jb"
proof (induction rule: jb_reachable.induct)
  case (created cb)
  then show ?case by (simp add: jb_inv_def JitterBuffer_new_def by_stamp_def)
qed (rule jb_step_inv)

lemma UpdateNetworkStats_target:
  assumes "unat (minDelayMs (jb_config jb)) \<le> unat (maxDelayMs (jb_config jb))"
    and "unat (maxDelayMs (jb_config jb)) \<le> 16777216"
    and target: "target = jitter_target (f_of_nat binary32 (unat (minDelayMs (jb_config jb)))) j l"
  shows "target \<noteq> NaN \<Longrightarrow> \<exists>t. UpdateNetworkStats j l jb = Some (jb\<lparr>jb_currentTargetDelayMs := t\<rparr>) \<and>
      minDelayMs (jb_config jb) \<le> t \<and> t \<le> maxDelayMs (jb_config jb)"
    and "target = NaN \<Longrightarrow> UpdateNetworkStats j l jb = None"
proof -
  obtain lo hi where n: "unat (minDelayMs (jb_config jb)) = lo" "unat (maxDelayMs (jb_config jb)) = hi"
    by blast
  have le: "lo \<le> hi" "hi \<le> 16777216" using assms(1,2) n by simp_all
  have f: "f_of_nat binary32 lo = Finite (of_nat lo)" "f_of_nat binary32 hi = Finite (of_nat hi)"
    using le by (simp_all add: float_of_small_nat)
  show "target = NaN \<Longrightarrow> UpdateNetworkStats j l jb = None"
    using f by (auto simp: target n UpdateNetworkStats_def f_clamp_def Let_def)
  assume "target \<noteq> NaN"
  moreover have "(of_nat lo :: rat) \<le> of_nat hi" using le(1) by simp
  ultimately obtain x where x: "f_clamp target (Finite (of_nat lo)) (Finite (of_nat hi)) = Some (Finite x)"
    "of_nat lo \<le> x" "x \<le> of_nat hi"
    by (metis clamp_between)
  have fl: "int lo \<le> \<lfloor>x\<rfloor>" "\<lfloor>x\<rfloor> \<le> int hi"
    using x(2,3) floor_mono [OF x(3)] by (simp_all add: le_floor_iff)
  have "0 \<le> x" using x(2) by (rule order_trans [rotated]) simp
  then have "f_to_unsigned 32 (Finite x) = Some (nat \<lfloor>x\<rfloor>)"
  proof -
    have "(of_nat hi :: rat) \<le> of_nat 16777216" using le(2) by (simp only: of_nat_le_iff)
    with x(3) have "x < 4294967296" by simp
    with \<open>0 \<le> x\<close> show ?thesis by (simp add: Let_def)
  qed
  moreover have "minDelayMs (jb_config jb) \<le> of_nat (nat \<lfloor>x\<rfloor>)" "of_nat (nat \<lfloor>x\<rfloor>) \<le> maxDelayMs (jb_config jb)"
  proof -
    have "unat (of_nat (nat \<lfloor>x\<rfloor>) :: u32) = nat \<lfloor>x\<rfloor>"
      using fl le(2) by (intro u32_cast_small) linarith
    then show "minDelayMs (jb_config jb) \<le> of_nat (nat \<lfloor>x\<rfloor>)"
      "of_nat (nat \<lfloor>x\<rfloor>) \<le> maxDelayMs (jb_config jb)"
      unfolding word_le_nat_alt n using fl by linarith+
  qed
  ultimately show "\<exists>t. UpdateNetworkStats j l jb = Some (jb\<lparr>jb_currentTargetDelayMs := t\<rparr>) \<and>
      minDelayMs (jb_config jb) \<le> t \<and> t \<le> maxDelayMs (jb_config jb)"
    using x(1) by (auto simp: UpdateNetworkStats_def target n f Let_def)
qed

lemma PushFrame_total:
  assumes "jb_inv config jb" and "0 < unat (maxQueueFrames config)"
  shows "\<exists>idr jb'. PushFrame now f jb = Some (idr, jb') \<and> jb_inv config jb'"
proof -
  obtain idr jb' where push: "PushFrame now f jb = Some (idr, jb')"
    using PushFrame_accepted [OF assms(1) _ assms(2), of f now]
    by (cases "jb_waitingForInitialKeyframe jb \<and> \<not> vf_isKeyframe f") (auto simp: PushFrame_def)
  with jb_step_inv [OF assms(1), of "JPush now f"] show ?thesis by auto
qed

subsection \<open>Properties\<close>

definition demo_config :: JitterBufferConfig where
  "demo_config = \<lparr>minDelayMs = 20, maxDelayMs = 80, maxQueueFrames = 4\<rparr>"

definition demo_frame :: "u32 \<Rightarrow> bool \<Rightarrow> u64 \<Rightarrow> VideoFrame" where
  "demo_frame i k ts = \<lparr>vf_frameId = i, vf_timestampUs = ts, vf_isKeyframe = k, vf_data = []\<rparr>"

definition demo_filled :: JitterBuffer where
  "demo_filled = (JitterBuffer_new demo_config True)\<lparr>jb_waitingForInitialKeyframe := False,
     jb_queue := [(demo_frame 1 True 100, 0)]\<rparr>"

lemma demo_filled_reachable: "jb_reachable demo_config demo_filled"
proof (rule jb_reachable.stepped [OF jb_reachable.created])
  show "jb_step (JitterBuffer_new demo_config True) (JPush 0 (demo_frame 1 True 100)) = Some ([], demo_filled)"
    by code_simp
qed

text \<open>C30. The queue is in order of the time stamps, never longer than the configured limit, and
  empty until a keyframe has arrived, after any sequence of calls.\<close>

theorem jitter_queue_sorted_and_bounded:
  assumes "jb_reachable config jb"
  shows "sorted (map (\<lambda>e. vf_timestampUs (fst e)) (jb_queue jb)) \<and>
    FrameCount jb \<le> unat (maxQueueFrames config) \<and>
    (jb_waitingForInitialKeyframe jb \<longrightarrow> FrameCount jb = 0)"
  using jb_reachable_inv [OF assms]
  by (auto simp: jb_inv_def by_stamp_def sorted_map FrameCount_def)

theorem jitter_queue_sorted_and_bounded_witness:
  "FrameCount demo_filled \<le> 4"
  using jitter_queue_sorted_and_bounded [OF demo_filled_reachable] by (simp add: demo_config_def)

text \<open>A push to a buffer that accepts the frame drops just enough of the oldest frames to
  respect the limit, counts them, and puts the frame, found by binary search, behind the frames
  with smaller time stamps and before all others; it requests nothing.\<close>

theorem push_drops_oldest_and_inserts_in_order:
  assumes "jb_reachable config jb" and "\<not> jb_waitingForInitialKeyframe jb \<or> vf_isKeyframe f"
    and "0 < unat (maxQueueFrames config)"
  shows "\<exists>jb'. PushFrame now f jb = Some ([], jb') \<and> \<not> jb_waitingForInitialKeyframe jb' \<and>
    (let excess = length (jb_queue jb) - (unat (maxQueueFrames config) - 1);
         kept = drop excess (jb_queue jb);
         older = takeWhile (\<lambda>e. vf_timestampUs (fst e) < vf_timestampUs f) kept
     in jb_queue jb' = older @ (f, now) # drop (length older) kept \<and>
        jb_droppedFrames jb' = jb_droppedFrames jb + of_nat excess)"
  using PushFrame_accepted [OF jb_reachable_inv [OF assms(1)] assms(2,3)]
  by (simp add: insert_entry_def dropWhile_eq_drop Let_def)

theorem push_drops_oldest_and_inserts_in_order_witness:
  "\<exists>jb'. PushFrame 5 (demo_frame 2 False 50) demo_filled = Some ([], jb') \<and>
     map (vf_frameId \<circ> fst) (jb_queue jb') = [2, 1]"
  using push_drops_oldest_and_inserts_in_order [OF demo_filled_reachable, of "demo_frame 2 False 50" 5]
  by (auto simp: demo_config_def demo_filled_def demo_frame_def Let_def)

text \<open>A pop returns a frame of least time stamp, and it returns one exactly when the queue is
  not empty and the front frame has waited for the target delay or the queue is half full.\<close>

theorem pop_releases_the_oldest_frame:
  assumes "jb_reachable config jb"
  shows "case PopNextFrame now jb of
      (Some f, jb') \<Rightarrow> (\<exists>t. jb_queue jb = (f, t) # jb_queue jb') \<and>
        (\<forall>e \<in> set (jb_queue jb'). vf_timestampUs f \<le> vf_timestampUs (fst e)) \<and>
        jb_lastEmittedFrameId jb' = vf_frameId f
    | (None, jb') \<Rightarrow> jb' = jb \<and> (jb_queue jb = [] \<or>
        (now - snd (hd (jb_queue jb))) sdiv 1000000 < int (unat (jb_currentTargetDelayMs jb)) \<and>
        FrameCount jb < unat (maxQueueFrames config div 2))"
  using jb_reachable_inv [OF assms]
  by (auto simp: jb_inv_def PopNextFrame_def by_stamp_def FrameCount_def Let_def split: list.split)
    force+

theorem pop_releases_the_oldest_frame_witness:
  "case PopNextFrame 30000000 demo_filled of
      (Some f, jb') \<Rightarrow> (\<exists>t. jb_queue demo_filled = (f, t) # jb_queue jb') \<and>
        (\<forall>e \<in> set (jb_queue jb'). vf_timestampUs f \<le> vf_timestampUs (fst e)) \<and>
        jb_lastEmittedFrameId jb' = vf_frameId f
    | (None, jb') \<Rightarrow> jb' = demo_filled \<and> (jb_queue demo_filled = [] \<or>
        (30000000 - snd (hd (jb_queue demo_filled))) sdiv 1000000 <
          int (unat (jb_currentTargetDelayMs demo_filled)) \<and>
        FrameCount demo_filled < unat (maxQueueFrames demo_config div 2))"
  by (rule pop_releases_the_oldest_frame [OF demo_filled_reachable])

text \<open>The target delay stays between the configured minimum and maximum (of at most
  \<open>2 ^ 24\<close> ms, where \<open>float\<close> is exact) whatever jitter and loss were measured.\<close>

theorem target_delay_within_bounds:
  assumes "jb_reachable config jb" and "minDelayMs config \<le> maxDelayMs config"
    and "maxDelayMs config \<le> 16777216"
  shows "minDelayMs config \<le> jb_currentTargetDelayMs jb \<and> jb_currentTargetDelayMs jb \<le> maxDelayMs config"
  using assms(1)
proof (induction rule: jb_reachable.induct)
  case (created cb)
  then show ?case using assms(2) by (simp add: JitterBuffer_new_def)
next
  case (stepped jb x es jb')
  have c: "jb_config jb = config" using jb_reachable_inv [OF stepped.hyps(1)] by (simp add: jb_inv_def)
  show ?case
  proof (cases x)
    case (JStats j l)
    with stepped.hyps(2) have "UpdateNetworkStats j l jb = Some jb'" by auto
    then show ?thesis
      using UpdateNetworkStats_target(1) [of jb _ j l, OF _ _ refl]
        UpdateNetworkStats_target(2) [of jb _ j l, OF _ _ refl] assms(2,3) c
      by (fastforce simp: word_le_nat_alt)
  qed (use stepped in \<open>auto simp: PushFrame_def PopNextFrame_def Flush_def Let_def
      split: if_splits option.splits list.splits prod.splits\<close>)
qed

theorem target_delay_within_bounds_witness:
  "20 \<le> jb_currentTargetDelayMs demo_filled \<and> jb_currentTargetDelayMs demo_filled \<le> 80"
  using target_delay_within_bounds [OF demo_filled_reachable] by (simp add: demo_config_def)

text \<open>Measurements that are not negative, infinite ones included, always give a defined update:
  no NaN arises and the conversion back to an integer is in range.\<close>

theorem network_stats_update_is_defined:
  assumes "f_nonneg jitter" and "f_nonneg loss"
    and "minDelayMs (jb_config jb) \<le> maxDelayMs (jb_config jb)" and "maxDelayMs (jb_config jb) \<le> 16777216"
  shows "\<exists>t. UpdateNetworkStats jitter loss jb = Some (jb\<lparr>jb_currentTargetDelayMs := t\<rparr>)"
proof -
  have "f_nonneg (jitter_target (f_of_nat binary32 (unat (minDelayMs (jb_config jb)))) jitter loss)"
    unfolding jitter_target_def using assms(1,2) by (intro f_nonneg_ops) simp_all
  then have "jitter_target (f_of_nat binary32 (unat (minDelayMs (jb_config jb)))) jitter loss \<noteq> NaN"
    by auto
  with UpdateNetworkStats_target(1) [OF _ _ refl this] assms(3,4) show ?thesis
    by (auto simp: word_le_nat_alt)
qed

theorem network_stats_update_is_defined_witness:
  "\<exists>t. UpdateNetworkStats PosInf (Finite (1 / 2)) demo_filled =
     Some (demo_filled\<lparr>jb_currentTargetDelayMs := t\<rparr>)"
  by (rule network_stats_update_is_defined)
    (simp_all add: demo_filled_def JitterBuffer_new_def demo_config_def)

end
