(* ===== verification/Telemetry.thy ===== *)
theory Telemetry
  imports Wire Float_Model
begin

text \<open>
  Class \<open>TelemetryCollector\<close> of \<open>native/core/src/telemetry.cpp\<close>: a history of frame timings, a
  window of received bytes, loss counters and the figures computed from them in the floating
  point arithmetic of \<open>Float_Model\<close>. The reading of the steady clock in microseconds is an
  argument of \<open>RecordBytesReceived\<close>.
\<close>

subsection \<open>State\<close>

record StageTiming =
  captureUs :: u64
  encodeUs :: u64
  netSendUs :: u64
  netRecvUs :: u64
  jitterReadyUs :: u64
  decodeUs :: u64
  presentUs :: u64

record LatencyBreakdown =
  captureToEncodeMs :: flt
  encodeDurationMs :: flt
  networkTransitMs :: flt
  jitterBufferDelayMs :: flt
  decodeDurationMs :: flt
  presentationDelayMs :: flt
  endToEndLatencyMs :: flt

record TelemetryStatsPayload =
  st_fps :: flt
  st_bitrateBps :: u32
  st_latencyMs :: flt
  st_packetLossPercent :: flt
  st_batteryPercent :: u8
  st_temperatureCelsius :: "8 word"
  st_currentTransport :: u8
  st_activeProfile :: u8

record Telemetry =
  tm_timingHistory :: "StageTiming list"
  tm_bytesHistory :: "(u64 \<times> u64) list"
  tm_totalFramesCounted :: u64
  tm_lostPacketsCount :: u64
  tm_totalPacketsCount :: u64
  tm_temperatureC :: "8 word"
  tm_batteryPct :: u8

definition Telemetry_new :: Telemetry where
  "Telemetry_new = \<lparr>tm_timingHistory = [], tm_bytesHistory = [], tm_totalFramesCounted = 0,
     tm_lostPacketsCount = 0, tm_totalPacketsCount = 0, tm_temperatureC = 35, tm_batteryPct = 100\<rparr>"

subsection \<open>Recording\<close>

definition RecordFrameTiming :: "StageTiming \<Rightarrow> Telemetry \<Rightarrow> Telemetry" where
  "RecordFrameTiming timing t =
     (let h = tm_timingHistory t @ [timing];
          h = (if 120 < length h then tl h else h)
      in t\<lparr>tm_timingHistory := h, tm_totalFramesCounted := tm_totalFramesCounted t + 1\<rparr>)"

text \<open>The differences are of type \<open>uint64_t\<close>: a clock that runs backwards gives a large age.\<close>

definition RecordBytesReceived :: "u64 \<Rightarrow> u64 \<Rightarrow> Telemetry \<Rightarrow> Telemetry" where
  "RecordBytesReceived nowUs bytes t =
     t\<lparr>tm_bytesHistory :=
         dropWhile (\<lambda>e. 1000000 < nowUs - fst e) (tm_bytesHistory t @ [(nowUs, bytes)])\<rparr>"

definition RecordPacketLoss :: "u32 \<Rightarrow> u32 \<Rightarrow> Telemetry \<Rightarrow> Telemetry" where
  "RecordPacketLoss lostCount totalExpected t =
     t\<lparr>tm_lostPacketsCount := tm_lostPacketsCount t + ucast lostCount,
       tm_totalPacketsCount := tm_totalPacketsCount t + ucast totalExpected\<rparr>"

definition SetDeviceThermal :: "8 word \<Rightarrow> u8 \<Rightarrow> Telemetry \<Rightarrow> Telemetry" where
  "SetDeviceThermal celsius batteryPercent t =
     t\<lparr>tm_temperatureC := celsius, tm_batteryPct := batteryPercent\<rparr>"

definition tm_Reset :: "Telemetry \<Rightarrow> Telemetry" where
  "tm_Reset t = t\<lparr>tm_timingHistory := [], tm_bytesHistory := [], tm_lostPacketsCount := 0,
     tm_totalPacketsCount := 0\<rparr>"

subsection \<open>Averages\<close>

text \<open>\<open>(later - earlier) / 1000.0\<close> in \<open>double\<close>, or 0 when the stamps are out of order.\<close>

definition stage_ms :: "u64 \<Rightarrow> u64 \<Rightarrow> flt" where
  "stage_ms earlier later =
     (if earlier \<le> later
      then f_div binary64 (f_of_nat binary64 (unat (later - earlier))) (Finite 1000)
      else Finite 0)"

definition valid_sample :: "StageTiming \<Rightarrow> bool" where
  "valid_sample s \<longleftrightarrow> captureUs s < presentUs s \<and> 0 < captureUs s"

text \<open>The sum of one figure over the valid samples, in the order of the history.\<close>

definition sum_stage :: "(StageTiming \<Rightarrow> flt) \<Rightarrow> StageTiming list \<Rightarrow> flt" where
  "sum_stage g h = foldl (\<lambda>acc s. if valid_sample s then f_add binary64 acc (g s) else acc) (Finite 0) h"

definition average_stage :: "(StageTiming \<Rightarrow> flt) \<Rightarrow> StageTiming list \<Rightarrow> flt" where
  "average_stage g h =
     (let n = length (List.filter valid_sample h)
      in f_narrow binary32 (f_div binary64 (sum_stage g h) (f_of_nat binary64 n)))"

definition no_latency :: LatencyBreakdown where
  "no_latency = \<lparr>captureToEncodeMs = Finite 0, encodeDurationMs = Finite 0,
     networkTransitMs = Finite 0, jitterBufferDelayMs = Finite 0, decodeDurationMs = Finite 0,
     presentationDelayMs = Finite 0, endToEndLatencyMs = Finite 0\<rparr>"

definition ComputeLatencyBreakdownLocked :: "Telemetry \<Rightarrow> LatencyBreakdown" where
  "ComputeLatencyBreakdownLocked t =
     (let h = tm_timingHistory t in
      if h = [] \<or> List.filter valid_sample h = [] then no_latency
      else no_latency\<lparr>
        captureToEncodeMs := average_stage (\<lambda>s. stage_ms (captureUs s) (encodeUs s)) h,
        networkTransitMs := average_stage (\<lambda>s. stage_ms (netSendUs s) (netRecvUs s)) h,
        jitterBufferDelayMs := average_stage (\<lambda>s. stage_ms (netRecvUs s) (jitterReadyUs s)) h,
        decodeDurationMs := average_stage (\<lambda>s. stage_ms (jitterReadyUs s) (decodeUs s)) h,
        presentationDelayMs := average_stage (\<lambda>s. stage_ms (decodeUs s) (presentUs s)) h,
        endToEndLatencyMs := average_stage (\<lambda>s. f_div binary64
          (f_of_nat binary64 (unat (presentUs s - captureUs s))) (Finite 1000)) h\<rparr>)"

definition GetAverageLatencyBreakdown :: "Telemetry \<Rightarrow> LatencyBreakdown" where
  "GetAverageLatencyBreakdown t = ComputeLatencyBreakdownLocked t"

definition packet_loss_percent :: "u64 \<Rightarrow> u64 \<Rightarrow> flt" where
  "packet_loss_percent lostCount totalCount =
     (if 0 < totalCount
      then f_scale binary32 100
        (f_div binary32 (f_of_nat binary32 (unat lostCount)) (f_of_nat binary32 (unat totalCount)))
      else Finite 0)"

definition GetCurrentStatsPayload :: "u8 \<Rightarrow> u8 \<Rightarrow> Telemetry \<Rightarrow> TelemetryStatsPayload" where
  "GetCurrentStatsPayload activeTransport activeProfile t =
     (let bytesSum = sum_list (map snd (tm_bytesHistory t))
      in \<lparr>st_fps = f_of_nat binary32 (min (length (tm_timingHistory t)) 30),
          st_bitrateBps = ucast (bytesSum * 8),
          st_latencyMs = endToEndLatencyMs (ComputeLatencyBreakdownLocked t),
          st_packetLossPercent = packet_loss_percent (tm_lostPacketsCount t) (tm_totalPacketsCount t),
          st_batteryPercent = tm_batteryPct t,
          st_temperatureCelsius = tm_temperatureC t,
          st_currentTransport = activeTransport,
          st_activeProfile = activeProfile\<rparr>)"

subsection \<open>Runs\<close>

datatype tm_op =
    TFrame StageTiming
  | TBytes u64 u64
  | TLoss u32 u32
  | TThermal "8 word" u8
  | TReset

fun tm_step :: "tm_op \<Rightarrow> Telemetry \<Rightarrow> Telemetry" where
  "tm_step (TFrame s) t = RecordFrameTiming s t"
| "tm_step (TBytes now n) t = RecordBytesReceived now n t"
| "tm_step (TLoss l n) t = RecordPacketLoss l n t"
| "tm_step (TThermal c b) t = SetDeviceThermal c b t"
| "tm_step TReset t = tm_Reset t"

definition tm_run :: "tm_op list \<Rightarrow> Telemetry" where
  "tm_run ops = fold tm_step ops Telemetry_new"

lemma tm_run_snoc: "tm_run (ops @ [x]) = tm_step x (tm_run ops)"
  by (simp add: tm_run_def)

lemma tm_run_invariant:
  assumes "I Telemetry_new" and "\<And>x t. I t \<Longrightarrow> I (tm_step x t)"
  shows "I (tm_run ops)"
  by (induction ops rule: rev_induct) (simp_all add: tm_run_snoc assms tm_run_def [of "[]"])

lemma timing_history_bounded: "length (tm_timingHistory (tm_run ops)) \<le> 120"
proof (rule tm_run_invariant)
  show "length (tm_timingHistory Telemetry_new) \<le> 120" by (simp add: Telemetry_new_def)
  show "length (tm_timingHistory t) \<le> 120 \<Longrightarrow> length (tm_timingHistory (tm_step x t)) \<le> 120" for x t
    by (cases x) (simp_all add: RecordFrameTiming_def RecordBytesReceived_def RecordPacketLoss_def
        SetDeviceThermal_def tm_Reset_def Let_def)
qed

subsection \<open>The byte window\<close>

lemma age_mono:
  "a \<le> b \<Longrightarrow> b \<le> now \<Longrightarrow> now - b \<le> now - (a :: u64)"
  by (simp add: word_le_nat_alt word_diff_unat)

lemma age_grows:
  "e \<le> now \<Longrightarrow> now \<le> later \<Longrightarrow> now - e \<le> later - (e :: u64)"
  by (simp add: word_le_nat_alt word_diff_unat)

lemma dropWhile_sorted_filter:
  "sorted (map fst h) \<Longrightarrow> \<forall>e \<in> set h. fst e \<le> now \<Longrightarrow>
     dropWhile (\<lambda>e. 1000000 < now - fst e) h = List.filter (\<lambda>e. now - fst e \<le> (1000000 :: u64)) h"
proof (induction h)
  case Nil
  then show ?case by simp
next
  case (Cons x h)
  show ?case
  proof (cases "1000000 < now - fst x")
    case True
    with Cons show ?thesis by (simp add: not_le)
  next
    case False
    have "now - fst e \<le> 1000000" if "e \<in> set (x # h)" for e
    proof -
      have "fst x \<le> fst e" using that Cons.prems(1) by auto
      then have "now - fst e \<le> now - fst x" using that Cons.prems(2) by (intro age_mono) auto
      with False show ?thesis by simp
    qed
    then have "List.filter (\<lambda>e. now - fst e \<le> 1000000) (x # h) = x # h" by (intro filter_True) simp
    with False show ?thesis by simp
  qed
qed

lemma sorted_last: "sorted (map fst es) \<Longrightarrow> e \<in> set es \<Longrightarrow> fst e \<le> fst (last es)"
  by (induction es) auto

lemma byte_window:
  "es \<noteq> [] \<Longrightarrow> sorted (map fst es) \<Longrightarrow>
     tm_bytesHistory (tm_run (map (\<lambda>(t, n). TBytes t n) es)) =
       List.filter (\<lambda>e. fst (last es) - fst e \<le> 1000000) es"
proof (induction es rule: rev_nonempty_induct)
  case (single x)
  then show ?case by (cases x) (simp add: tm_run_def RecordBytesReceived_def Telemetry_new_def)
next
  case (snoc x es)
  obtain now n where x: "x = (now, n)" by (cases x)
  have sorted: "sorted (map fst es)" "\<forall>e \<in> set es. fst e \<le> now"
    using snoc.prems by (auto simp: x sorted_append)
  let ?h = "List.filter (\<lambda>e. fst (last es) - fst e \<le> 1000000) es @ [x]"
  have "sorted (map fst ?h)"
    using sorted by (auto simp: x sorted_append sorted_map intro: sorted_wrt_filter)
  moreover have "\<forall>e \<in> set ?h. fst e \<le> now" using sorted by (auto simp: x)
  ultimately have "dropWhile (\<lambda>e. 1000000 < now - fst e) ?h = List.filter (\<lambda>e. now - fst e \<le> 1000000) ?h"
    by (rule dropWhile_sorted_filter)
  moreover have "fst (last es) - fst e \<le> 1000000" if "e \<in> set es" "now - fst e \<le> 1000000" for e
  proof -
    have "fst e \<le> fst (last es)" using sorted(1) that(1) by (rule sorted_last)
    moreover have "fst (last es) \<le> now" using sorted(2) snoc.hyps by simp
    ultimately show ?thesis using age_grows [of "fst e" "fst (last es)" now] that(2) by simp
  qed
  then have "List.filter (\<lambda>e. now - fst e \<le> 1000000) (List.filter (\<lambda>e. fst (last es) - fst e \<le> 1000000) es) =
      List.filter (\<lambda>e. now - fst e \<le> 1000000) es"
    by (auto intro!: filter_cong)
  ultimately show ?case
    using snoc.IH [OF sorted(1)] by (simp add: x tm_run_snoc RecordBytesReceived_def)
qed

subsection \<open>Averages are defined\<close>

lemma sum_stage_nonneg:
  assumes "\<And>s. f_nonneg (g s)"
  shows "f_nonneg (sum_stage g h)"
  by (induction h rule: rev_induct) (auto simp: sum_stage_def assms intro: f_nonneg_ops(1))

lemma average_stage_nonneg:
  assumes "\<And>s. f_nonneg (g s)" and "List.filter valid_sample h \<noteq> []" and "length h \<le> 120"
  shows "f_nonneg (average_stage g h)"
proof -
  let ?n = "length (List.filter valid_sample h)"
  have n: "0 < ?n" "?n \<le> 120" using assms(2,3) le_trans [OF length_filter_le] by auto
  then have "f_of_nat binary64 ?n = Finite (of_nat ?n)" by (intro double_of_small_nat) simp
  then show ?thesis
    unfolding average_stage_def Let_def
    using n sum_stage_nonneg [of g h] assms(1) by (auto intro!: f_nonneg_ops)
qed

lemma stage_ms_nonneg: "f_nonneg (stage_ms a b)"
  unfolding stage_ms_def by (cases "a \<le> b") (auto intro!: f_nonneg_ops)

subsection \<open>The figures are finite\<close>

text \<open>Every intermediate figure is at most 120 times the range of a 64 bit counter.\<close>

definition kCounterRange :: rat where
  "kCounterRange = 2 powi 64"

fun f_upto :: "nat \<Rightarrow> flt \<Rightarrow> bool" where
  "f_upto r (Finite x) \<longleftrightarrow> 0 \<le> x \<and> x \<le> of_nat r * kCounterRange"
| "f_upto r y \<longleftrightarrow> False"

lemma f_upto_Finite: "f_upto r y \<Longrightarrow> \<exists>x. y = Finite x \<and> 0 \<le> x \<and> x \<le> of_nat r * kCounterRange"
  by (cases y) simp_all

lemma mk_flt_upto:
  assumes "0 \<le> x" "x \<le> of_nat r * kCounterRange" "r \<le> 120" "F = binary32 \<or> F = binary64"
  shows "f_upto r (mk_flt F x)"
proof -
  have "r < 2 ^ precision F" using assms(3,4) by (auto simp: binary32_def binary64_def)
  moreover have "emin F - (int (precision F) - 1) \<le> 64" using assms(4) by (auto simp: binary32_def binary64_def)
  ultimately have le: "rounded F x \<le> of_nat r * kCounterRange"
    using rounded_le_scaled [of x r 64 F] assms(1,2) unfolding kCounterRange_def by blast
  have nn: "0 \<le> rounded F x" using assms(1) by (rule rounded_nonneg)
  have "of_nat r * kCounterRange \<le> of_nat 120 * kCounterRange"
    using assms(3) by (intro mult_right_mono of_nat_mono) (simp_all add: kCounterRange_def)
  also have "\<dots> < 2 powi 128" by (simp add: kCounterRange_def)
  also have "(2 :: rat) powi 128 \<le> 2 powi (emax F + 1)"
    using assms(4) by (intro power_int_increasing) (auto simp: binary32_def binary64_def)
  finally have "rounded F x < 2 powi (emax F + 1)" using le by simp
  moreover have "- (2 powi (emax F + 1)) < rounded F x" using nn by (rule less_le_trans [rotated]) simp
  ultimately show ?thesis using nn le by (simp add: mk_flt_def Let_def)
qed

lemma f_of_counter_upto: "F = binary32 \<or> F = binary64 \<Longrightarrow> f_upto 1 (f_of_nat F (unat (w :: u64)))"
proof -
  assume F: "F = binary32 \<or> F = binary64"
  obtain n where n: "unat w = n" by blast
  have "n \<le> 2 ^ 64" using unsigned_less [of w, where 'a = nat] n by simp
  then have "(of_nat n :: rat) \<le> of_nat (2 ^ 64)" by (simp only: of_nat_le_iff)
  then have "(of_nat n :: rat) \<le> of_nat 1 * kCounterRange" by (simp add: kCounterRange_def)
  then show ?thesis unfolding f_of_nat_def n using F by (intro mk_flt_upto) simp_all
qed

lemma f_div_upto:
  assumes "f_upto r x" "r \<le> 120" "1 \<le> c" "F = binary32 \<or> F = binary64"
  shows "f_upto r (f_div F x (Finite c))"
proof -
  obtain y where y: "x = Finite y" "0 \<le> y" "y \<le> of_nat r * kCounterRange" using f_upto_Finite [OF assms(1)] by blast
  have "y / c \<le> y" using y(2) assms(3) by (simp add: divide_le_eq mult_le_cancel_left1)
  then have "f_upto r (mk_flt F (y / c))"
    using y assms(2-4) by (intro mk_flt_upto) (simp_all add: divide_nonneg_nonneg)
  with y assms(3) show ?thesis by simp
qed

lemma f_add_upto:
  assumes "f_upto r x" "f_upto 1 y" "Suc r \<le> 120" "F = binary64"
  shows "f_upto (Suc r) (f_add F x y)"
proof -
  obtain a b where "x = Finite a" "0 \<le> a" "a \<le> of_nat r * kCounterRange"
    "y = Finite b" "0 \<le> b" "b \<le> of_nat 1 * kCounterRange"
    using f_upto_Finite [OF assms(1)] f_upto_Finite [OF assms(2)] by blast
  moreover from this have "f_upto (Suc r) (mk_flt F (a + b))"
    using assms(3,4) by (intro mk_flt_upto) (simp_all add: algebra_simps)
  ultimately show ?thesis by simp
qed

lemma f_narrow_upto: "f_upto r x \<Longrightarrow> r \<le> 120 \<Longrightarrow> f_upto r (f_narrow binary32 x)"
  by (cases x) (simp_all add: mk_flt_upto)

lemma f_upto_weaken: "f_upto r x \<Longrightarrow> r \<le> r' \<Longrightarrow> f_upto r' x"
proof -
  assume "f_upto r x" "r \<le> r'"
  moreover have "of_nat r * kCounterRange \<le> of_nat r' * kCounterRange" if "r \<le> r'"
    using that by (intro mult_right_mono of_nat_mono) (simp_all add: kCounterRange_def)
  ultimately show ?thesis by (cases x) auto
qed

lemma stage_ms_upto: "f_upto 1 (stage_ms a b)"
  unfolding stage_ms_def by (auto simp: kCounterRange_def simp del: One_nat_def intro!: f_div_upto f_of_counter_upto)

lemma sum_stage_upto:
  assumes "\<And>s. f_upto 1 (g s)"
  shows "length h \<le> 120 \<Longrightarrow> f_upto (length h) (sum_stage g h)"
proof (induction h rule: rev_induct)
  case Nil
  then show ?case by (simp add: sum_stage_def)
next
  case (snoc s h)
  then have IH: "f_upto (length h) (sum_stage g h)" by simp
  show ?case
  proof (cases "valid_sample s")
    case True
    then show ?thesis using f_add_upto [OF IH assms] snoc.prems by (simp add: sum_stage_def)
  next
    case False
    then show ?thesis using f_upto_weaken [OF IH, of "Suc (length h)"] by (simp add: sum_stage_def)
  qed
qed

lemma average_stage_upto:
  assumes "\<And>s. f_upto 1 (g s)" "List.filter valid_sample h \<noteq> []" "length h \<le> 120"
  shows "f_upto 120 (average_stage g h)"
proof -
  let ?n = "length (List.filter valid_sample h)"
  have n: "1 \<le> ?n" "?n \<le> 120" using assms(2,3) le_trans [OF length_filter_le] by (auto simp: Suc_le_eq)
  have one: "(1 :: rat) \<le> of_nat ?n" using n(1) by (metis of_nat_1 of_nat_le_iff)
  have "f_of_nat binary64 ?n = Finite (of_nat ?n)" using n by (intro double_of_small_nat) simp
  moreover have "f_upto 120 (sum_stage g h)"
    using sum_stage_upto [of g h, OF assms(1,3)] assms(3) by (rule f_upto_weaken)
  ultimately show ?thesis
    unfolding average_stage_def Let_def using one by (auto intro!: f_narrow_upto f_div_upto)
qed

lemma packet_loss_upto: "f_upto 100 (packet_loss_percent l n)"
proof (cases "0 < n")
  case True
  moreover obtain k where k: "unat n = k" by blast
  ultimately have "0 < k" by (simp add: word_less_nat_alt)
  then have "(1 :: rat) \<le> rounded binary32 (of_nat k)"
    by (intro rounded_ge_one) (simp_all add: binary32_def)
  moreover obtain c where c: "f_of_nat binary32 (unat n) = Finite c"
    using f_upto_Finite [OF f_of_counter_upto [of binary32 n]] by blast
  ultimately have "1 \<le> c" by (auto simp: k f_of_nat_def mk_flt_def Let_def split: if_splits)
  then have "f_upto 1 (f_div binary32 (f_of_nat binary32 (unat l)) (Finite c))"
    by (intro f_div_upto f_of_counter_upto) simp_all
  then obtain x where x: "f_div binary32 (f_of_nat binary32 (unat l)) (Finite c) = Finite x"
    "0 \<le> x" "x \<le> kCounterRange"
    using f_upto_Finite by fastforce
  have "f_upto 100 (mk_flt binary32 (100 * x))" using x(2,3) by (intro mk_flt_upto) simp_all
  with True c x(1) show ?thesis by (simp add: packet_loss_percent_def)
qed (simp add: packet_loss_percent_def kCounterRange_def)

text \<open>All figures of a report are finite.\<close>

lemma figures_upto:
  assumes "length (tm_timingHistory t) \<le> 120"
    and bd_def: "bd = GetAverageLatencyBreakdown t" and stats_def: "stats = GetCurrentStatsPayload tr pr t"
  shows "f_upto 120 (captureToEncodeMs bd)" "f_upto 120 (networkTransitMs bd)" "f_upto 120 (jitterBufferDelayMs bd)"
    "f_upto 120 (decodeDurationMs bd)" "f_upto 120 (presentationDelayMs bd)"
    "f_upto 120 (st_latencyMs stats)" "f_upto 120 (st_fps stats)" "f_upto 120 (st_packetLossPercent stats)"
proof -
  have e2e: "f_upto 1 (f_div binary64 (f_of_nat binary64 (unat (w :: u64))) (Finite 1000))" for w
    by (intro f_div_upto f_of_counter_upto) simp_all
  note avg = average_stage_upto [OF _ _ assms(1)]
  have zero: "f_upto 120 (Finite 0)" by (simp add: kCounterRange_def)
  show "f_upto 120 (captureToEncodeMs bd)" "f_upto 120 (networkTransitMs bd)" "f_upto 120 (jitterBufferDelayMs bd)"
    "f_upto 120 (decodeDurationMs bd)" "f_upto 120 (presentationDelayMs bd)" "f_upto 120 (st_latencyMs stats)"
    by (simp_all add: bd_def stats_def GetCurrentStatsPayload_def GetAverageLatencyBreakdown_def
        ComputeLatencyBreakdownLocked_def Let_def no_latency_def avg stage_ms_upto e2e zero del: f_upto.simps One_nat_def)
  have "(of_nat (min (length (tm_timingHistory t)) 30) :: rat) \<le> of_nat 30" by (simp only: of_nat_le_iff)
  then have "(of_nat (min (length (tm_timingHistory t)) 30) :: rat) \<le> of_nat 120 * kCounterRange"
    by (simp add: kCounterRange_def)
  then show "f_upto 120 (st_fps stats)"
    unfolding stats_def GetCurrentStatsPayload_def Let_def f_of_nat_def
    by (simp add: mk_flt_upto del: f_upto.simps)
  show "f_upto 120 (st_packetLossPercent stats)"
    using f_upto_weaken [OF packet_loss_upto] by (simp add: stats_def GetCurrentStatsPayload_def Let_def)
qed

subsection \<open>Properties\<close>

text \<open>The byte window: for records with a clock that does not run backwards, the window is
  exactly the records of the last second before the newest one, and the bit rate is eight
  times their sum, modulo the width of the field.\<close>

theorem bitrate_of_the_last_second:
  assumes "es \<noteq> []" and "sorted (map fst es)"
    and "t = tm_run (map (\<lambda>(now, n). TBytes now n) es)"
    and "window = List.filter (\<lambda>e. fst (last es) - fst e \<le> 1000000) es"
  shows "tm_bytesHistory t = window \<and>
    st_bitrateBps (GetCurrentStatsPayload tr pr t) = of_nat (8 * (\<Sum>e \<leftarrow> window. unat (snd e)))"
proof -
  have sum: "sum_list (map snd (w :: (u64 \<times> u64) list)) = of_nat (\<Sum>e \<leftarrow> w. unat (snd e))" for w
    by (induction w) simp_all
  have "(ucast (of_nat n * 8 :: u64) :: u32) = of_nat (8 * n)" for n
  proof -
    have "(of_nat n * 8 :: u64) = of_nat (8 * n)" by (simp add: algebra_simps)
    moreover have "(ucast (of_nat m :: u64) :: u32) = of_nat m" for m
      by (rule bit_word_eqI) (auto simp: bit_simps)
    ultimately show ?thesis by (simp only:)
  qed
  then show ?thesis
    using byte_window [OF assms(1,2)] assms(3,4)
    by (simp add: GetCurrentStatsPayload_def Let_def sum)
qed

theorem bitrate_of_the_last_second_witness:
  "st_bitrateBps (GetCurrentStatsPayload 0 0 (tm_run (map (\<lambda>(now, n). TBytes now n)
     [(0, 500), (400000, 100), (1400000, 25)]))) = 1000"
  using bitrate_of_the_last_second [OF _ _ refl refl, of "[(0, 500), (400000, 100), (1400000, 25)]" 0 0]
  by simp

text \<open>The latency figures: after any calls no figure is negative or NaN, and the history they
  average never holds more than 120 timings.\<close>

theorem latency_breakdown_is_defined:
  "length (tm_timingHistory (tm_run ops)) \<le> 120 \<and>
   (let bd = GetAverageLatencyBreakdown (tm_run ops) in
     f_nonneg (captureToEncodeMs bd) \<and> f_nonneg (encodeDurationMs bd) \<and>
     f_nonneg (networkTransitMs bd) \<and> f_nonneg (jitterBufferDelayMs bd) \<and>
     f_nonneg (decodeDurationMs bd) \<and> f_nonneg (presentationDelayMs bd) \<and>
     f_nonneg (endToEndLatencyMs bd))"
proof -
  have len: "length (tm_timingHistory (tm_run ops)) \<le> 120" by (rule timing_history_bounded)
  have e2e: "f_nonneg (f_div binary64 (f_of_nat binary64 n) (Finite 1000))" for n
    by (intro f_nonneg_ops) simp
  note avg = average_stage_nonneg [OF _ _ len]
  show ?thesis
    using len
    by (simp add: GetAverageLatencyBreakdown_def ComputeLatencyBreakdownLocked_def Let_def
        no_latency_def avg stage_ms_nonneg e2e)
qed

text \<open>The loss figure is a percentage: as long as no more packets are reported lost than
  expected (up to \<open>2 ^ 24\<close> packets, where \<open>float\<close> counts exactly) it lies between 0 and 100.\<close>

theorem packet_loss_is_a_percentage:
  assumes "lostCount \<le> totalCount" and "totalCount < 16777216"
  shows "\<exists>y. packet_loss_percent lostCount totalCount = Finite y \<and> 0 \<le> y \<and> y \<le> 100"
proof (cases "0 < totalCount")
  case True
  obtain l n where ln: "unat lostCount = l" "unat totalCount = n" by blast
  have n: "0 < n" "l \<le> n" "n < 16777216"
    using True assms ln by (auto simp: word_le_nat_alt word_less_nat_alt)
  then have q: "(0 :: rat) \<le> of_nat l / of_nat n" "(of_nat l :: rat) / of_nat n \<le> of_nat 1" by simp_all
  obtain y where y: "mk_flt binary32 (of_nat l / of_nat n) = Finite y" "0 \<le> y" "y \<le> of_nat 1"
    using mk_flt_le_nat [OF q] by auto
  then obtain z where z: "mk_flt binary32 (100 * y) = Finite z" "0 \<le> z" "z \<le> of_nat 100"
    using mk_flt_le_nat [of "100 * y" 100] by auto
  have "packet_loss_percent lostCount totalCount = Finite z"
    using True n y z by (simp add: packet_loss_percent_def ln float_of_small_nat)
  with z show ?thesis by simp
qed (simp add: packet_loss_percent_def)

theorem packet_loss_is_a_percentage_witness:
  "\<exists>y. packet_loss_percent 1 3 = Finite y \<and> 0 \<le> y \<and> y \<le> 100"
  by (rule packet_loss_is_a_percentage) simp_all

text \<open>The frame rate figure does not measure a rate: after 30 or more recorded frames without
  a reset it is 30, whatever the time between the frames.\<close>

theorem fps_saturates_at_thirty:
  assumes "30 \<le> length ss"
  shows "st_fps (GetCurrentStatsPayload tr pr (tm_run (map TFrame ss))) = Finite 30"
proof -
  have "length (tm_timingHistory (tm_run (map TFrame ss))) = min 120 (length ss)" for ss
    by (induction ss rule: rev_induct)
      (auto simp: tm_run_snoc RecordFrameTiming_def Let_def tm_run_def [of "[]"] Telemetry_new_def)
  then show ?thesis
    using assms float_of_small_nat [of 30] by (simp add: GetCurrentStatsPayload_def Let_def)
qed

theorem fps_saturates_at_thirty_witness:
  "st_fps (GetCurrentStatsPayload 0 0 (tm_run (map TFrame (replicate 31
     \<lparr>captureUs = 0, encodeUs = 0, netSendUs = 0, netRecvUs = 0, jitterReadyUs = 0, decodeUs = 0,
      presentUs = 0\<rparr>)))) = Finite 30"
  by (rule fps_saturates_at_thirty) simp

end
