(* ===== verification/Session.thy ===== *)
theory Session
  imports Control_Commands Transport_Manager Reassembly_Safety Jitter_Buffer Telemetry
begin

text \<open>
  Class \<open>VeyraSession\<close> of \<open>native/core/src/session.cpp\<close>: the life cycle of a session and the
  composition of transport manager, packetizer, reassembler, jitter buffer and telemetry. The
  \<open>shared_ptr<SessionCrypto>\<close> that packetizer and reassembler share is an address; the objects
  are the argument \<open>heap\<close>, since pairing changes them from outside. Clock readings and the
  answers of the transports are arguments too.
\<close>

subsection \<open>State\<close>

datatype SessionState = IDLE | PAIRING | SS_CONNECTING | STREAMING | PAUSED | SS_DISCONNECTED | ERROR_STATE

record StreamConfig =
  sc_width :: u16
  sc_height :: u16
  sc_fps :: u8
  sc_bitrateBps :: u32
  sc_profile :: StreamProfileId
  sc_preferredTransport :: TransportType
  sc_enableAudio :: bool
  sc_enableEncryption :: bool

definition StreamConfig_default :: StreamConfig where
  "StreamConfig_default = \<lparr>sc_width = 1280, sc_height = 720, sc_fps = 30, sc_bitrateBps = 2500000,
     sc_profile = BALANCED, sc_preferredTransport = AUTO, sc_enableAudio = True,
     sc_enableEncryption = False\<rparr>"

record CameraState =
  cs_zoom :: float_bits
  cs_exposure :: "32 word"
  cs_autoFocus :: bool
  cs_manualFocusDistance :: float_bits
  cs_torchOn :: bool
  cs_useFrontCamera :: bool

text \<open>\<open>0x3F800000\<close> is the pattern of \<open>1.0f\<close>.\<close>

definition CameraState_default :: CameraState where
  "CameraState_default = \<lparr>cs_zoom = 0x3F800000, cs_exposure = 0, cs_autoFocus = True,
     cs_manualFocusDistance = 0, cs_torchOn = False, cs_useFrontCamera = False\<rparr>"

type_synonym crypto_ref = nat
type_synonym crypto_heap = "crypto_ref \<Rightarrow> SessionCrypto"

record 't Session =
  ss_sessionId :: u32
  ss_state :: SessionState
  ss_config :: StreamConfig
  ss_camera :: CameraState
  ss_transports :: "'t TransportManager"
  ss_packetizer :: "crypto_ref Packetizer"
  ss_reassembler :: "crypto_ref FrameReassembler"
  ss_jitter :: JitterBuffer
  ss_crypto :: "crypto_ref option"
  ss_telemetry :: Telemetry
  ss_stateCallback :: bool
  ss_frameCallback :: bool

datatype 't session_event =
    StateChanged SessionState string
  | Sent 't bytes
  | FrameOut VideoFrame

text \<open>The constructor, with the random identifier and the address of the new crypto object.\<close>

definition Session_new :: "u32 \<Rightarrow> crypto_ref \<Rightarrow> bool \<Rightarrow> bool \<Rightarrow> 't Session" where
  "Session_new randomId cryptoRef stateCallback frameCallback = \<lparr>
     ss_sessionId = randomId, ss_state = IDLE, ss_config = StreamConfig_default,
     ss_camera = CameraState_default, ss_transports = TransportManager_new,
     ss_packetizer = Packetizer_new randomId, ss_reassembler = FrameReassembler_new True True,
     ss_jitter = JitterBuffer_new \<lparr>minDelayMs = 20, maxDelayMs = 80, maxQueueFrames = 10\<rparr> True,
     ss_crypto = Some cryptoRef, ss_telemetry = Telemetry_new,
     ss_stateCallback = stateCallback, ss_frameCallback = frameCallback\<rparr>"

subsection \<open>Life cycle\<close>

definition SetState :: "SessionState \<Rightarrow> string \<Rightarrow> 't Session \<Rightarrow> 't session_event list \<times> 't Session" where
  "SetState newState msg s =
     (if ss_stateCallback s then [StateChanged newState msg] else [], s\<lparr>ss_state := newState\<rparr>)"

definition arm :: "crypto_ref option \<Rightarrow> 't Session \<Rightarrow> 't Session" where
  "arm c s = s\<lparr>ss_packetizer := pkt_SetCrypto c (ss_packetizer s),
     ss_reassembler := ra_SetCrypto c (ss_reassembler s)\<rparr>"

text \<open>\<open>None\<close>: the null pointer \<open>crypto_\<close> is dereferenced.\<close>

definition StartSession ::
  "crypto_heap \<Rightarrow> 't transport_env \<Rightarrow> StreamConfig \<Rightarrow> 't Session \<Rightarrow>
     (bool \<times> 't session_event list \<times> 't Session) option" where
  "StartSession heap env config s =
     (let (e1, s) = SetState SS_CONNECTING ''Connecting transports...'' (s\<lparr>ss_config := config\<rparr>);
          s = s\<lparr>ss_transports :=
                SetPreferredTransportMode env (sc_preferredTransport config) (ss_transports s)\<rparr>
      in if sc_enableEncryption config then
           case ss_crypto s of
             None \<Rightarrow> None
           | Some c \<Rightarrow>
               if \<not> IsKeySet (heap c) then
                 let (e2, s) = SetState ERROR_STATE
                   ''Encryption requested but no paired session key; run pairing first'' s
                 in Some (False, e1 @ e2, s)
               else
                 let (e2, s) = SetState STREAMING ''Session active and streaming'' (arm (Some c) s)
                 in Some (True, e1 @ e2, s)
         else
           let (e2, s) = SetState STREAMING ''Session active and streaming'' s
           in Some (True, e1 @ e2, s))"

definition ss_SetCrypto :: "crypto_ref option \<Rightarrow> 't Session \<Rightarrow> 't Session" where
  "ss_SetCrypto crypto s =
     (let s = s\<lparr>ss_crypto := crypto\<rparr> in
      if crypto \<noteq> None \<and> sc_enableEncryption (ss_config s) \<and> ss_state s \<noteq> IDLE
      then arm crypto s else s)"

definition StopSession :: "'t Session \<Rightarrow> 't session_event list \<times> 't Session" where
  "StopSession s =
     (if ss_state s = IDLE \<or> ss_state s = SS_DISCONNECTED then ([], s)
      else
        let (e, s) = SetState SS_DISCONNECTED ''Session stopped'' s
        in (e, s\<lparr>ss_jitter := Flush (ss_jitter s), ss_reassembler := ra_Reset (ss_reassembler s),
               ss_telemetry := tm_Reset (ss_telemetry s)\<rparr>))"

definition Session_delete :: "'t Session \<Rightarrow> 't session_event list" where
  "Session_delete s = fst (StopSession s)"

definition PauseSession :: "'t Session \<Rightarrow> 't session_event list \<times> 't Session" where
  "PauseSession s = (if ss_state s = STREAMING then SetState PAUSED ''Session paused'' s else ([], s))"

subsection \<open>Commands\<close>

definition dispatch :: "'t transport_env \<Rightarrow> CommandOpCode \<Rightarrow> bytes \<Rightarrow> 't Session \<Rightarrow> 't session_event list" where
  "dispatch env op body s =
     map (\<lambda>(t, d). Sent t d) (snd (SendPacket env (command_packet op body) (ss_transports s)))"

definition RequestIdr :: "'t transport_env \<Rightarrow> 't Session \<Rightarrow> 't session_event list" where
  "RequestIdr env s = dispatch env REQUEST_IDR (idr_bytes \<lparr>lastGoodFrameId = 0\<rparr>) s"

definition ResumeSession :: "'t transport_env \<Rightarrow> 't Session \<Rightarrow> 't session_event list \<times> 't Session" where
  "ResumeSession env s =
     (if ss_state s = PAUSED then
        let (e, s) = SetState STREAMING ''Session resumed'' s in (e @ RequestIdr env s, s)
      else ([], s))"

definition SetZoom :: "'t transport_env \<Rightarrow> float_bits \<Rightarrow> 't Session \<Rightarrow> 't session_event list \<times> 't Session" where
  "SetZoom env factor s =
     (let s = s\<lparr>ss_camera := (ss_camera s)\<lparr>cs_zoom := factor\<rparr>\<rparr>
      in (dispatch env SET_ZOOM (zoom_bytes \<lparr>zoomFactor = factor\<rparr>) s, s))"

definition SetExposure :: "'t transport_env \<Rightarrow> 32 word \<Rightarrow> 't Session \<Rightarrow> 't session_event list \<times> 't Session" where
  "SetExposure env step s =
     (let s = s\<lparr>ss_camera := (ss_camera s)\<lparr>cs_exposure := step\<rparr>\<rparr>
      in (dispatch env SET_EXPOSURE (exposure_bytes \<lparr>exposureCompensation = step\<rparr>) s, s))"

definition SetFocus ::
  "'t transport_env \<Rightarrow> bool \<Rightarrow> float_bits \<Rightarrow> 't Session \<Rightarrow> 't session_event list \<times> 't Session" where
  "SetFocus env autoFocus distance s =
     (let s = s\<lparr>ss_camera := (ss_camera s)\<lparr>cs_autoFocus := autoFocus, cs_manualFocusDistance := distance\<rparr>\<rparr>
      in (dispatch env SET_FOCUS
            (focus_bytes \<lparr>sf_autoFocus = (if autoFocus then 1 else 0), sf_focusDistance = distance\<rparr>) s, s))"

definition SetTorch :: "bool \<Rightarrow> 't Session \<Rightarrow> 't Session" where
  "SetTorch enable s = s\<lparr>ss_camera := (ss_camera s)\<lparr>cs_torchOn := enable\<rparr>\<rparr>"

definition SwitchCamera :: "'t transport_env \<Rightarrow> bool \<Rightarrow> 't Session \<Rightarrow> 't session_event list \<times> 't Session" where
  "SwitchCamera env front s =
     (let s = s\<lparr>ss_camera := (ss_camera s)\<lparr>cs_useFrontCamera := front\<rparr>\<rparr> in (RequestIdr env s, s))"

definition UpdateBitrate :: "'t transport_env \<Rightarrow> u32 \<Rightarrow> 't Session \<Rightarrow> 't session_event list \<times> 't Session" where
  "UpdateBitrate env bitrateBps s =
     (let s = s\<lparr>ss_config := (ss_config s)\<lparr>sc_bitrateBps := bitrateBps\<rparr>\<rparr>
      in (dispatch env SET_BITRATE (bitrate_bytes \<lparr>targetBitrateBps = bitrateBps\<rparr>) s, s))"

definition SetPreferredTransport :: "'t transport_env \<Rightarrow> TransportType \<Rightarrow> 't Session \<Rightarrow> 't Session" where
  "SetPreferredTransport env type s =
     s\<lparr>ss_config := (ss_config s)\<lparr>sc_preferredTransport := type\<rparr>,
       ss_transports := SetPreferredTransportMode env type (ss_transports s)\<rparr>"

definition ss_RegisterTransport :: "'t transport_env \<Rightarrow> 't option \<Rightarrow> 't Session \<Rightarrow> 't Session" where
  "ss_RegisterTransport env transport s =
     (case transport of None \<Rightarrow> s
      | Some t \<Rightarrow> s\<lparr>ss_transports := am_RegisterTransport env (Some t) (ss_transports s)\<rparr>)"

subsection \<open>Receiving\<close>

text \<open>
  The callback of an assembled frame reads the clock twice, in \<open>PushFrame\<close> and in
  \<open>PopNextFrame\<close>. \<open>None\<close> is undefined behaviour of the jitter buffer.
\<close>

definition OnAssembledFrameReady ::
  "'t transport_env \<Rightarrow> int \<Rightarrow> int \<Rightarrow> VideoFrame \<Rightarrow> 't Session \<Rightarrow> ('t session_event list \<times> 't Session) option" where
  "OnAssembledFrameReady env pushTime popTime frame s =
     (case PushFrame pushTime frame (ss_jitter s) of
        None \<Rightarrow> None
      | Some (idr, jb) \<Rightarrow>
          let requests = concat (map (\<lambda>_. RequestIdr env s) idr);
              (ready, jb) = PopNextFrame popTime jb
          in Some (requests @ (case ready of
                      Some f \<Rightarrow> if ss_frameCallback s then [FrameOut f] else []
                    | None \<Rightarrow> []),
                   s\<lparr>ss_jitter := jb\<rparr>))"

fun on_rx_event ::
  "'t transport_env \<Rightarrow> int \<Rightarrow> int \<Rightarrow> rx_event \<Rightarrow> 't Session \<Rightarrow> ('t session_event list \<times> 't Session) option" where
  "on_rx_event env t1 t2 (FrameReady f) s = OnAssembledFrameReady env t1 t2 f s"
| "on_rx_event env t1 t2 (MissingKeyframe i) s = Some (RequestIdr env s, s)"

fun on_rx_events ::
  "'t transport_env \<Rightarrow> int \<Rightarrow> int \<Rightarrow> rx_event list \<Rightarrow> 't Session \<Rightarrow> ('t session_event list \<times> 't Session) option" where
  "on_rx_events env t1 t2 [] s = Some ([], s)"
| "on_rx_events env t1 t2 (e # es) s =
     (case on_rx_event env t1 t2 e s of
        None \<Rightarrow> None
      | Some (o1, s1) \<Rightarrow> map_option (\<lambda>(o2, s2). (o1 @ o2, s2)) (on_rx_events env t1 t2 es s1))"

text \<open>The packet callback that \<open>RegisterTransport\<close> installs.\<close>

definition on_packet ::
  "('ctx, 'mpi, 'point) mbedtls \<Rightarrow> crypto_heap \<Rightarrow> 't transport_env \<Rightarrow> u64 \<Rightarrow> int \<Rightarrow> int \<Rightarrow> bytes \<Rightarrow>
     't Session \<Rightarrow> ('t session_event list \<times> 't Session) option" where
  "on_packet P heap env nowUs t1 t2 data s =
     (let s = s\<lparr>ss_telemetry := RecordBytesReceived nowUs (of_nat (length data)) (ss_telemetry s)\<rparr>;
          (_, es, r) = PushPacket (\<lambda>c. Decrypt P (heap c)) (Some data) (length data) (ss_reassembler s)
      in on_rx_events env t1 t2 es (s\<lparr>ss_reassembler := r\<rparr>))"

subsection \<open>Reachable sessions\<close>

text \<open>Every call may see other answers of the transports and other contents of the crypto objects.\<close>

inductive ss_reach :: "('ctx, 'mpi, 'point) mbedtls \<Rightarrow> 't Session \<Rightarrow> bool" for P where
  created: "ss_reach P (Session_new i c sc fc)"
| started: "ss_reach P s \<Longrightarrow> StartSession heap env config s = Some (ok, es, s') \<Longrightarrow> ss_reach P s'"
| crypto_set: "ss_reach P s \<Longrightarrow> ss_reach P (ss_SetCrypto c s)"
| stopped: "ss_reach P s \<Longrightarrow> ss_reach P (snd (StopSession s))"
| paused: "ss_reach P s \<Longrightarrow> ss_reach P (snd (PauseSession s))"
| resumed: "ss_reach P s \<Longrightarrow> ss_reach P (snd (ResumeSession env s))"
| zoomed: "ss_reach P s \<Longrightarrow> ss_reach P (snd (SetZoom env z s))"
| exposed: "ss_reach P s \<Longrightarrow> ss_reach P (snd (SetExposure env x s))"
| focused: "ss_reach P s \<Longrightarrow> ss_reach P (snd (SetFocus env a d s))"
| torch: "ss_reach P s \<Longrightarrow> ss_reach P (SetTorch t s)"
| switched: "ss_reach P s \<Longrightarrow> ss_reach P (snd (SwitchCamera env f s))"
| bitrate: "ss_reach P s \<Longrightarrow> ss_reach P (snd (UpdateBitrate env b s))"
| preferred: "ss_reach P s \<Longrightarrow> ss_reach P (SetPreferredTransport env ty s)"
| registered: "ss_reach P s \<Longrightarrow> ss_reach P (ss_RegisterTransport env t s)"
| received: "ss_reach P s \<Longrightarrow> on_packet P heap env now t1 t2 d s = Some (es, s') \<Longrightarrow> ss_reach P s'"

definition ss_jitter_config :: JitterBufferConfig where
  "ss_jitter_config = \<lparr>minDelayMs = 20, maxDelayMs = 80, maxQueueFrames = 10\<rparr>"

definition ss_inv :: "'t Session \<Rightarrow> bool" where
  "ss_inv s \<longleftrightarrow>
     ra_inv (ss_reassembler s) \<and> jb_inv ss_jitter_config (ss_jitter s) \<and>
     pkt_sessionId (ss_packetizer s) = ss_sessionId s \<and>
     (ss_state s \<in> {STREAMING, PAUSED} \<and> sc_enableEncryption (ss_config s) \<longrightarrow>
        (\<exists>a. pkt_crypto (ss_packetizer s) = Some a \<and> ra_crypto (ss_reassembler s) = Some a))"

lemma ra_inv_SetCrypto: "ra_inv r \<Longrightarrow> ra_inv (ra_SetCrypto c r)"
  using replay.rel_start by (auto simp: ra_inv_def ra_SetCrypto_def)

lemma ra_inv_Reset: "ra_inv (ra_Reset r)"
  using replay.rel_start by (auto simp: ra_inv_def ra_Reset_def)

lemma SetCrypto_simps [simp]:
  "ra_crypto (ra_SetCrypto c r) = c" "pkt_crypto (pkt_SetCrypto c p) = c"
  "pkt_sessionId (pkt_SetCrypto c p) = pkt_sessionId p"
  by (simp_all add: ra_SetCrypto_def pkt_SetCrypto_def)

lemma ss_inv_arm: "ss_inv s \<Longrightarrow> ss_inv (arm (Some c) s)"
  by (simp add: ss_inv_def arm_def ra_inv_SetCrypto)

text \<open>A start with encryption succeeds exactly with a key, and then both ends hold it.\<close>

lemma StartSession_encrypted:
  assumes "sc_enableEncryption config" and "ss_crypto s = Some c"
  shows "\<exists>es s'. StartSession heap env config s = Some (IsKeySet (heap c), es, s') \<and>
    ss_state s' = (if IsKeySet (heap c) then STREAMING else ERROR_STATE) \<and> ss_config s' = config \<and>
    ss_jitter s' = ss_jitter s \<and> ss_sessionId s' = ss_sessionId s \<and>
    ss_packetizer s' = (if IsKeySet (heap c) then pkt_SetCrypto (Some c) (ss_packetizer s) else ss_packetizer s) \<and>
    ss_reassembler s' = (if IsKeySet (heap c) then ra_SetCrypto (Some c) (ss_reassembler s) else ss_reassembler s)"
  using assms by (simp add: StartSession_def SetState_def Let_def arm_def)

lemma StartSession_plain:
  assumes "\<not> sc_enableEncryption config"
  shows "\<exists>es s'. StartSession heap env config s = Some (True, es, s') \<and>
    ss_state s' = STREAMING \<and> ss_config s' = config \<and>
    ss_jitter s' = ss_jitter s \<and> ss_sessionId s' = ss_sessionId s \<and>
    ss_packetizer s' = ss_packetizer s \<and> ss_reassembler s' = ss_reassembler s"
  using assms by (simp add: StartSession_def SetState_def Let_def)

lemma StartSession_inv:
  assumes inv: "ss_inv s" and start: "StartSession heap env config s = Some (ok, es, s')"
  shows "ss_inv s'"
proof (cases "sc_enableEncryption config")
  case True
  then obtain c where "ss_crypto s = Some c"
    using start by (cases "ss_crypto s") (auto simp: StartSession_def SetState_def Let_def)
  from StartSession_encrypted [OF True this, of heap env] start inv show ?thesis
    by (auto simp: ss_inv_def ra_inv_SetCrypto split: if_splits)
next
  case False
  from StartSession_plain [OF False, of heap env s] start inv False show ?thesis
    by (auto simp: ss_inv_def)
qed

lemma StopSession_inv: "ss_inv s \<Longrightarrow> ss_inv (snd (StopSession s))"
  by (auto simp: StopSession_def SetState_def ss_inv_def ra_inv_Reset jb_inv_def Flush_def by_stamp_def Let_def)

lemma OnAssembled_total:
  assumes "jb_inv ss_jitter_config (ss_jitter s)"
  shows "\<exists>out jb. OnAssembledFrameReady env t1 t2 f s = Some (out, s\<lparr>ss_jitter := jb\<rparr>) \<and>
    jb_inv ss_jitter_config jb"
proof -
  have lim: "0 < unat (maxQueueFrames ss_jitter_config)" by (simp add: ss_jitter_config_def)
  obtain idr jb where push: "PushFrame t1 f (ss_jitter s) = Some (idr, jb)" and inv: "jb_inv ss_jitter_config jb"
    using PushFrame_total [OF assms lim] by blast
  obtain fr jb2 where pop: "PopNextFrame t2 jb = (fr, jb2)" by (cases "PopNextFrame t2 jb")
  have "jb_inv ss_jitter_config jb2"
    using jb_step_inv [OF inv, of "JPop t2"] pop by (cases fr) auto
  then show ?thesis using push pop by (auto simp: OnAssembledFrameReady_def Let_def)
qed

lemma on_rx_events_total:
  "jb_inv ss_jitter_config (ss_jitter s) \<Longrightarrow>
     \<exists>out jb. on_rx_events env t1 t2 es s = Some (out, s\<lparr>ss_jitter := jb\<rparr>) \<and> jb_inv ss_jitter_config jb"
proof (induction es arbitrary: s)
  case Nil
  have "s = s\<lparr>ss_jitter := ss_jitter s\<rparr>" by simp
  with Nil show ?case by (metis on_rx_events.simps(1))
next
  case (Cons e es)
  have "\<exists>out jb. on_rx_event env t1 t2 e s = Some (out, s\<lparr>ss_jitter := jb\<rparr>) \<and> jb_inv ss_jitter_config jb"
  proof (cases e)
    case (FrameReady f)
    then show ?thesis using OnAssembled_total [OF Cons.prems] by simp
  next
    case (MissingKeyframe i)
    have "s = s\<lparr>ss_jitter := ss_jitter s\<rparr>" by simp
    with MissingKeyframe Cons.prems show ?thesis by (metis on_rx_event.simps(2))
  qed
  then obtain out jb where one: "on_rx_event env t1 t2 e s = Some (out, s\<lparr>ss_jitter := jb\<rparr>)"
    "jb_inv ss_jitter_config jb" by blast
  obtain out2 jb2 where "on_rx_events env t1 t2 es (s\<lparr>ss_jitter := jb\<rparr>) =
      Some (out2, s\<lparr>ss_jitter := jb2\<rparr>)" "jb_inv ss_jitter_config jb2"
    using Cons.IH [of "s\<lparr>ss_jitter := jb\<rparr>"] one(2) by auto
  with one(1) show ?case by (intro exI [of _ "out @ out2"] exI [of _ jb2]) simp
qed

lemma on_packet_total:
  assumes inv: "ss_inv s"
  shows "\<exists>out s'. on_packet P heap env now t1 t2 d s = Some (out, s') \<and> ss_inv s' \<and>
    ss_state s' = ss_state s \<and> ss_crypto s' = ss_crypto s \<and> ss_reassembler s' =
      snd (snd (PushPacket (\<lambda>c. Decrypt P (heap c)) (Some d) (length d) (ss_reassembler s)))"
proof -
  let ?t = "RecordBytesReceived now (of_nat (length d)) (ss_telemetry s)"
  obtain b es r where push: "PushPacket (\<lambda>c. Decrypt P (heap c)) (Some d) (length d) (ss_reassembler s) = (b, es, r)"
    by (cases "PushPacket (\<lambda>c. Decrypt P (heap c)) (Some d) (length d) (ss_reassembler s)") auto
  have r: "ra_inv r" "ra_crypto r = ra_crypto (ss_reassembler s)"
    using PushPacket_inv [of "ss_reassembler s" "\<lambda>c. Decrypt P (heap c)" "Some d" "length d"]
      PushPacket_crypto [of "\<lambda>c. Decrypt P (heap c)" "Some d" "length d" "ss_reassembler s"] inv push
    by (simp_all add: ss_inv_def)
  let ?s = "s\<lparr>ss_telemetry := ?t, ss_reassembler := r\<rparr>"
  obtain out jb where ev: "on_rx_events env t1 t2 es ?s = Some (out, ?s\<lparr>ss_jitter := jb\<rparr>)"
    "jb_inv ss_jitter_config jb"
    using on_rx_events_total [of ?s env t1 t2 es] inv by (auto simp: ss_inv_def)
  then have "on_packet P heap env now t1 t2 d s = Some (out, ?s\<lparr>ss_jitter := jb\<rparr>)"
    using push by (simp add: on_packet_def Let_def)
  moreover have "ss_inv (?s\<lparr>ss_jitter := jb\<rparr>)"
    using inv r ev(2) by (simp add: ss_inv_def)
  ultimately show ?thesis using push
    by (intro exI [of _ out] exI [of _ "?s\<lparr>ss_jitter := jb\<rparr>"]) simp
qed

lemma ss_reach_inv: "ss_reach P s \<Longrightarrow> ss_inv s"
proof (induction rule: ss_reach.induct)
  case (created i c sc fc)
  then show ?case using replay.rel_start
    by (auto simp: ss_inv_def Session_new_def ra_inv_def FrameReassembler_new_def jb_inv_def
        JitterBuffer_new_def by_stamp_def ss_jitter_config_def Packetizer_new_def)
next
  case (started s heap env config ok es s')
  then show ?case by (blast intro: StartSession_inv)
next
  case (crypto_set s c)
  then have "ss_inv (s\<lparr>ss_crypto := c\<rparr>)" by (simp add: ss_inv_def)
  then show ?case using ss_inv_arm [of "s\<lparr>ss_crypto := c\<rparr>"] by (auto simp: ss_SetCrypto_def Let_def)
next
  case (stopped s)
  then show ?case by (simp add: StopSession_inv)
next
  case (received s heap env now t1 t2 d es s')
  then show ?case using on_packet_total [of s P heap env now t1 t2 d] by auto
qed (auto simp: ss_inv_def PauseSession_def ResumeSession_def SetState_def SetZoom_def SetExposure_def
    SetFocus_def SetTorch_def SwitchCamera_def UpdateBitrate_def SetPreferredTransport_def
    ss_RegisterTransport_def Let_def split: option.splits)

subsection \<open>Properties\<close>

definition demo_heap :: crypto_heap where
  "demo_heap = (\<lambda>_. demo_client)"

definition demo_stream_config :: StreamConfig where
  "demo_stream_config = StreamConfig_default\<lparr>sc_enableEncryption := True\<rparr>"

definition demo_started :: "nat Session" where
  "demo_started = snd (snd (the (StartSession demo_heap demo_env demo_stream_config (Session_new 9 0 True True))))"

definition demo_watching :: "nat Session" where
  "demo_watching = snd (the (on_packet demo_lib demo_heap demo_env 0 0 0 demo_sealed demo_started))"

lemma demo_key: "IsKeySet (demo_heap 0)" "sc_enableEncryption demo_stream_config"
  by code_simp+

lemma demo_started_is:
  "StartSession demo_heap demo_env demo_stream_config (Session_new 9 0 True True) =
     Some (True, fst (snd (the (StartSession demo_heap demo_env demo_stream_config (Session_new 9 0 True True)))),
       demo_started)"
  using StartSession_encrypted [OF demo_key(2), of "Session_new 9 0 True True" 0 demo_heap demo_env] demo_key(1)
  by (auto simp: demo_started_def Session_new_def)

lemma demo_started_reach: "ss_reach demo_lib demo_started"
  by (rule ss_reach.started [OF ss_reach.created demo_started_is])

lemma demo_started_simps:
  "ss_state demo_started = STREAMING" "sc_enableEncryption (ss_config demo_started)"
  "ss_crypto demo_started = Some 0"
  by code_simp+

lemma demo_watching_is:
  "ss_state demo_watching = ss_state demo_started \<and> ss_crypto demo_watching = ss_crypto demo_started \<and>
   ss_reassembler demo_watching = snd (snd (PushPacket (\<lambda>c. Decrypt demo_lib (demo_heap c))
     (Some demo_sealed) (length demo_sealed) (ss_reassembler demo_started)))"
  using on_packet_total [OF ss_reach_inv [OF demo_started_reach], of demo_lib demo_heap demo_env 0 0 0 demo_sealed]
  by (auto simp: demo_watching_def)

lemma demo_second_push:
  "fst (PushPacket (\<lambda>c. Decrypt demo_lib (demo_heap c)) (Some demo_sealed) (length demo_sealed)
     (snd (snd (PushPacket (\<lambda>c. Decrypt demo_lib (demo_heap c))
        (Some demo_sealed) (length demo_sealed) (ss_reassembler demo_started))))) = False"
  by code_simp

lemma demo_watching_simps:
  "ss_state demo_watching = STREAMING" "ss_crypto demo_watching = Some 0"
  "fst (PushPacket (\<lambda>c. Decrypt demo_lib (demo_heap c)) (Some demo_sealed) (length demo_sealed)
     (ss_reassembler demo_watching)) = False"
  using demo_watching_is demo_started_simps demo_second_push by simp_all

text \<open>C16. An encrypted session accepts nothing unauthenticated: in every reachable session that is
  streaming or paused with encryption enabled, packetizer and reassembler hold the same key object,
  and a datagram that is not authentic under it produces no frame, no request and no change
  but the byte count of the telemetry.\<close>

theorem encrypted_session_ignores_unauthentic_packets:
  assumes "ss_reach P s" and "ss_state s \<in> {STREAMING, PAUSED}" and "sc_enableEncryption (ss_config s)"
  shows "\<exists>a. pkt_crypto (ss_packetizer s) = Some a \<and> ra_crypto (ss_reassembler s) = Some a \<and>
    (\<forall>d. (\<forall>h b. \<not> authentic (Decrypt P) (heap a) d h b) \<longrightarrow>
       on_packet P heap env now t1 t2 d s = Some ([],
         s\<lparr>ss_telemetry := RecordBytesReceived now (of_nat (length d)) (ss_telemetry s)\<rparr>))"
proof -
  obtain a where a: "pkt_crypto (ss_packetizer s) = Some a" "ra_crypto (ss_reassembler s) = Some a"
    using ss_reach_inv [OF assms(1)] assms(2,3) by (auto simp: ss_inv_def)
  have "on_packet P heap env now t1 t2 d s = Some ([],
         s\<lparr>ss_telemetry := RecordBytesReceived now (of_nat (length d)) (ss_telemetry s)\<rparr>)"
    if no: "\<forall>h b. \<not> authentic (Decrypt P) (heap a) d h b" for d
  proof -
    have "open_packet (\<lambda>c. Decrypt P (heap c)) (Some a) (Some d) (length d) = None"
    proof (rule ccontr)
      assume "open_packet (\<lambda>c. Decrypt P (heap c)) (Some a) (Some d) (length d) \<noteq> None"
      then obtain h b where "open_packet (\<lambda>c. Decrypt P (heap c)) (Some a) (Some d) (length d) = Some (h, b)"
        by auto
      from open_packet_armed [OF this] no show False by (auto simp: authentic_def)
    qed
    then have "PushPacket (\<lambda>c. Decrypt P (heap c)) (Some d) (length d) (ss_reassembler s) =
        (False, [], ss_reassembler s)"
      using a(2) by (simp add: PushPacket_def)
    then show ?thesis by (simp add: on_packet_def Let_def)
  qed
  with a show ?thesis by blast
qed

theorem encrypted_session_ignores_unauthentic_packets_witness:
  "on_packet demo_lib demo_heap demo_env 5 6 7 [1, 2, 3] demo_started = Some ([],
     demo_started\<lparr>ss_telemetry := RecordBytesReceived 5 3 (ss_telemetry demo_started)\<rparr>)"
  using encrypted_session_ignores_unauthentic_packets [OF demo_started_reach _ demo_started_simps(2),
      of demo_heap demo_env 5 6 7]
  by (auto simp: demo_started_simps authentic_def)

text \<open>Receiving is always defined: in every reachable session every datagram, at any clock
  readings, is handled without undefined behaviour of the jitter buffer, and leaves a session whose
  jitter queue is in order and holds at most ten frames.\<close>

theorem receiving_is_defined:
  assumes "ss_reach P s"
  shows "\<exists>es s'. on_packet P heap env now t1 t2 d s = Some (es, s') \<and>
    sorted (map (\<lambda>e. vf_timestampUs (fst e)) (jb_queue (ss_jitter s'))) \<and>
    FrameCount (ss_jitter s') \<le> 10"
proof -
  obtain es s' where "on_packet P heap env now t1 t2 d s = Some (es, s')" and inv: "ss_inv s'"
    using on_packet_total [OF ss_reach_inv [OF assms]] by blast
  moreover have "jb_inv ss_jitter_config (ss_jitter s')" using inv by (simp add: ss_inv_def)
  ultimately show ?thesis
    by (auto simp: jb_inv_def by_stamp_def sorted_map FrameCount_def ss_jitter_config_def)
qed

theorem receiving_is_defined_witness:
  "\<exists>es s'. on_packet demo_lib demo_heap demo_env 0 0 0 demo_sealed demo_started = Some (es, s') \<and>
    FrameCount (ss_jitter s') \<le> 10"
  using receiving_is_defined [OF demo_started_reach, of demo_heap demo_env 0 0 0 demo_sealed] by blast

text \<open>C39. Replay across a restart: stopping and starting an encrypted session keeps the key and
  clears the replay window, so every keyframe packet that opens under the key is accepted again,
  also when the session had received it before the restart.\<close>

theorem restart_reopens_the_replay_window:
  assumes "ss_state s \<in> {STREAMING, PAUSED}" and "ss_crypto s = Some a" and "IsKeySet (heap a)"
    and "sc_enableEncryption config"
    and "open_packet (\<lambda>c. Decrypt P (heap c)) (Some a) (Some d) (length d) = Some (h, b)"
    and "has_flag (hdr_flags h) FLAG_KEYFRAME"
  shows "\<exists>es s'. StartSession heap env config (snd (StopSession s)) = Some (True, es, s') \<and>
    fst (PushPacket (\<lambda>c. Decrypt P (heap c)) (Some d) (length d) (ss_reassembler s'))"
proof -
  have stop: "ss_crypto (snd (StopSession s)) = Some a"
    "ss_reassembler (snd (StopSession s)) = ra_Reset (ss_reassembler s)"
    using assms(1,2) by (auto simp: StopSession_def SetState_def Let_def)
  obtain es s' where st: "StartSession heap env config (snd (StopSession s)) = Some (True, es, s')"
    "ss_reassembler s' = ra_SetCrypto (Some a) (ra_Reset (ss_reassembler s))"
    using StartSession_encrypted [OF assms(4) stop(1), of heap env] assms(3) stop(2) by auto
  have "fst (PushPacket (\<lambda>c. Decrypt P (heap c)) (Some d) (length d) (ss_reassembler s'))"
    using assms(5,6)
    by (simp add: PushPacket_def st(2) ra_SetCrypto_def ra_Reset_def deliver_def stale_def Accept_def
        ReplayFilter_init_def store_fragment_def Let_def)
  with st(1) show ?thesis by blast
qed

theorem restart_reopens_the_replay_window_witness:
  "fst (PushPacket (\<lambda>c. Decrypt demo_lib (demo_heap c)) (Some demo_sealed) (length demo_sealed)
     (ss_reassembler demo_watching)) = False \<and>
   (\<exists>es s'. StartSession demo_heap demo_env demo_stream_config (snd (StopSession demo_watching)) = Some (True, es, s') \<and>
     fst (PushPacket (\<lambda>c. Decrypt demo_lib (demo_heap c)) (Some demo_sealed) (length demo_sealed)
       (ss_reassembler s')))"
proof -
  have o: "open_packet (\<lambda>c. Decrypt demo_lib (demo_heap c)) (Some 0) (Some demo_sealed) (length demo_sealed) =
      Some (bytes_header demo_sealed, [7, 8, 9])" by code_simp
  have k: "has_flag (hdr_flags (bytes_header demo_sealed)) FLAG_KEYFRAME" by code_simp
  show ?thesis
    using restart_reopens_the_replay_window [OF _ demo_watching_simps(2) demo_key o k] demo_watching_simps
    by simp
qed

text \<open>Control commands: every command of the session is handed to the active transport when it is
  connected, as a header of eight bytes that names the command and the size of its body, followed
  by exactly the body.\<close>

theorem session_commands_are_parsable:
  assumes "am_activeTransport (ss_transports s) = Some t" and "is_connected env t"
    and "(op, body, es) \<in> {
      (SET_ZOOM, zoom_bytes \<lparr>zoomFactor = z\<rparr>, fst (SetZoom env z s)),
      (SET_EXPOSURE, exposure_bytes \<lparr>exposureCompensation = x\<rparr>, fst (SetExposure env x s)),
      (SET_FOCUS, focus_bytes \<lparr>sf_autoFocus = (if a then 1 else 0), sf_focusDistance = z\<rparr>, fst (SetFocus env a z s)),
      (REQUEST_IDR, idr_bytes \<lparr>lastGoodFrameId = 0\<rparr>, fst (SwitchCamera env a s)),
      (SET_BITRATE, bitrate_bytes \<lparr>targetBitrateBps = r\<rparr>, fst (UpdateBitrate env r s))}"
  shows "\<exists>p. es = [Sent t p] \<and> length p = 8 + length body \<and>
    cmd_opCode (bytes_command_header (take 8 p)) = opcode_byte op \<and>
    unat (cmd_payloadLength (bytes_command_header (take 8 p))) = length body \<and> drop 8 p = body"
proof -
  have len: "length body < 65536" using assms(3)
    by (auto simp: zoom_bytes_def exposure_bytes_def focus_bytes_def idr_bytes_def bitrate_bytes_def)
  have "dispatch env op body s' = [Sent t (command_packet op body)]" if "ss_transports s' = ss_transports s"
    for s' using that assms(1,2) by (simp add: dispatch_def SendPacket_def)
  then have "es = [Sent t (command_packet op body)]"
    using assms(3)
    by (auto simp: SetZoom_def SetExposure_def SetFocus_def SwitchCamera_def UpdateBitrate_def
        RequestIdr_def Let_def)
  with command_packet_parse [OF len, of op] show ?thesis
    by (auto simp: command_packet_def)
qed

theorem session_commands_are_parsable_witness:
  "\<exists>p. fst (SetFocus demo_env True 7 ((Session_new 9 0 True True)\<lparr>ss_transports := demo_manager\<rparr>)) = [Sent 1 p] \<and>
     length p = 13 \<and> cmd_opCode (bytes_command_header (take 8 p)) = 7"
proof -
  have "am_activeTransport demo_manager = Some 1" "is_connected demo_env 1" by code_simp+
  then show ?thesis
    using session_commands_are_parsable [of "(Session_new 9 0 True True)\<lparr>ss_transports := demo_manager\<rparr>" 1 demo_env
        SET_FOCUS "focus_bytes \<lparr>sf_autoFocus = 1, sf_focusDistance = 7\<rparr>"
        "fst (SetFocus demo_env True 7 ((Session_new 9 0 True True)\<lparr>ss_transports := demo_manager\<rparr>))" 7 0 True 0]
    by (auto simp: focus_bytes_def)
qed

end
