(* ===== verification/Control_Link.thy ===== *)
theory Control_Link
  imports Veyra_Prelude
begin

text \<open>
  The line protocol of \<open>TcpControlClient\<close> in
  \<open>native/windows/network/tcp_control_server.cpp\<close>: \<open>SendControlMessage\<close> ends a message with a
  newline, \<open>ReadLoop\<close> accumulates what \<open>recv\<close> delivers, hands out complete non empty lines and
  drops the connection when it holds too much. Opening, closing and the socket calls are not
  modelled: the chunks that \<open>recv\<close> returns are the input of the loop.
\<close>

subsection \<open>The code\<close>

definition newline :: char where
  "newline = CHR 0x0A"

definition kMaxLineLength :: nat where
  "kMaxLineLength = 64 * 1024"

text \<open>\<open>recv\<close> is asked for one byte less than the buffer holds.\<close>

definition kChunkSize :: nat where
  "kChunkSize = 4096 - 1"

definition SendControlMessage :: "bool \<Rightarrow> string \<Rightarrow> string option" where
  "SendControlMessage isConnected jsonMessage =
     (if isConnected then Some (jsonMessage @ [newline]) else None)"

text \<open>\<open>accumulated += buffer\<close> appends a C string: it stops at the first NUL.\<close>

definition c_string :: "string \<Rightarrow> string" where
  "c_string chunk = takeWhile (\<lambda>c. c \<noteq> CHR 0x00) chunk"

text \<open>The inner loop: the complete lines, and what is left.\<close>

function take_lines :: "string \<Rightarrow> string list \<times> string" where
  "take_lines accumulated =
     (if newline \<in> set accumulated then
        let line = takeWhile (\<lambda>c. c \<noteq> newline) accumulated;
            (ls, rest) = take_lines (drop (length line + 1) accumulated)
        in (line # ls, rest)
      else ([], accumulated))"
  by pat_completeness auto
termination
  by (relation "measure length") (auto dest: length_pos_if_in_set)

declare take_lines.simps [simp del]

text \<open>
  The loop over the chunks of a connection, up to its end (the list ends, or an empty chunk):
  the lines handed to the callback, the buffer left, and whether the connection was dropped.
\<close>

fun ReadLoop :: "string \<Rightarrow> string list \<Rightarrow> string list \<times> string \<times> bool" where
  "ReadLoop accumulated [] = ([], accumulated, False)"
| "ReadLoop accumulated (chunk # chunks) =
     (if chunk = [] then ([], accumulated, False)
      else
        let accumulated = accumulated @ c_string chunk in
        if kMaxLineLength < length accumulated then ([], accumulated, True)
        else
          let (ls, rest) = take_lines accumulated;
              (ls', rest', dropped) = ReadLoop rest chunks
          in (List.filter (\<lambda>l. l \<noteq> []) ls @ ls', rest', dropped))"

subsection \<open>Lines of a stream\<close>

lemma take_lines_plain: "newline \<notin> set s \<Longrightarrow> take_lines s = ([], s)"
  by (simp add: take_lines.simps)

lemma first_line:
  assumes "newline \<notin> set l"
  shows "takeWhile (\<lambda>c. c \<noteq> newline) (l @ newline # s) = l"
  using assms by (induction l) auto

lemma take_lines_line:
  "newline \<notin> set l \<Longrightarrow> take_lines (l @ newline # s) = (l # fst (take_lines s), snd (take_lines s))"
  by (subst take_lines.simps) (simp add: first_line split_beta Let_def)

text \<open>Reading a prefix first and the rest later gives the same lines.\<close>

lemma take_lines_append:
  "take_lines (s @ t) =
     (fst (take_lines s) @ fst (take_lines (snd (take_lines s) @ t)), snd (take_lines (snd (take_lines s) @ t)))"
proof (induction s rule: take_lines.induct)
  case (1 s)
  show ?case
  proof (cases "newline \<in> set s")
    case True
    then obtain l r where s: "s = l @ newline # r" and l: "newline \<notin> set l"
      using split_list_first [OF True] by blast
    have "take_lines (r @ t) =
      (fst (take_lines r) @ fst (take_lines (snd (take_lines r) @ t)), snd (take_lines (snd (take_lines r) @ t)))"
      using "1.IH" [OF True refl] by (simp add: s first_line [OF l])
    then show ?thesis by (simp add: s take_lines_line [OF l])
  next
    case False
    then show ?thesis by (simp add: take_lines_plain)
  qed
qed

lemma take_lines_rest: "newline \<notin> set (snd (take_lines s))"
  by (induction s rule: take_lines.induct) (subst take_lines.simps, auto simp: split_beta Let_def)

definition stream_lines :: "string \<Rightarrow> string list" where
  "stream_lines s = List.filter (\<lambda>l. l \<noteq> []) (fst (take_lines s))"

lemma stream_lines_append:
  "stream_lines (s @ t) = List.filter (\<lambda>l. l \<noteq> []) (fst (take_lines s)) @ stream_lines (snd (take_lines s) @ t)"
  unfolding stream_lines_def by (subst take_lines_append) simp

lemma take_lines_rest_length: "length (snd (take_lines s)) \<le> length s"
proof (induction s rule: take_lines.induct)
  case (1 s)
  show ?case
  proof (cases "newline \<in> set s")
    case True
    from "1.IH" [OF True refl] have
      "length (snd (take_lines (drop (length (takeWhile (\<lambda>c. c \<noteq> newline) s) + 1) s))) \<le> length s"
      by (rule order_trans) simp
    with True show ?thesis by (subst take_lines.simps) (simp add: split_beta Let_def)
  qed (simp add: take_lines_plain)
qed

lemma ReadLoop_bounded:
  "length acc \<le> kMaxLineLength \<Longrightarrow> \<forall>c \<in> set chunks. length c \<le> kChunkSize \<Longrightarrow>
     length (fst (snd (ReadLoop acc chunks))) \<le> kMaxLineLength + kChunkSize"
proof (induction chunks arbitrary: acc)
  case Nil
  then show ?case by simp
next
  case (Cons c chunks)
  have "length (c_string c) \<le> kChunkSize"
    using Cons.prems(2) length_takeWhile_le [of "\<lambda>c. c \<noteq> CHR 0x00" c] by (simp add: c_string_def)
  moreover have "length (fst (snd (ReadLoop (snd (take_lines (acc @ c_string c))) chunks))) \<le>
      kMaxLineLength + kChunkSize" if "length (acc @ c_string c) \<le> kMaxLineLength"
    using that Cons.prems(2) take_lines_rest_length [of "acc @ c_string c"]
    by (intro Cons.IH) simp_all
  ultimately show ?case using Cons.prems by (simp add: split_beta Let_def)
qed

text \<open>Without NUL bytes and without a drop, the lines do not depend on the chunks.\<close>

lemma ReadLoop_lines:
  "\<forall>c \<in> set chunks. c \<noteq> [] \<and> CHR 0x00 \<notin> set c \<Longrightarrow> \<not> snd (snd (ReadLoop acc chunks)) \<Longrightarrow>
     newline \<notin> set acc \<Longrightarrow>
     fst (ReadLoop acc chunks) = stream_lines (acc @ concat chunks) \<and>
     fst (snd (ReadLoop acc chunks)) = snd (take_lines (acc @ concat chunks))"
proof (induction chunks arbitrary: acc)
  case Nil
  then show ?case by (simp add: stream_lines_def take_lines_plain)
next
  case (Cons c chunks)
  have c: "c \<noteq> []" "c_string c = c" using Cons.prems(1) by (auto simp: c_string_def takeWhile_eq_all_conv)
  have "\<not> kMaxLineLength < length (acc @ c)"
    using Cons.prems(2) c by (auto simp: Let_def)
  with Cons.prems(2) c have "\<not> snd (snd (ReadLoop (snd (take_lines (acc @ c))) chunks))"
    and run: "fst (ReadLoop acc (c # chunks)) = List.filter (\<lambda>l. l \<noteq> []) (fst (take_lines (acc @ c))) @
        fst (ReadLoop (snd (take_lines (acc @ c))) chunks)"
      "fst (snd (ReadLoop acc (c # chunks))) = fst (snd (ReadLoop (snd (take_lines (acc @ c))) chunks))"
    by (auto simp: split_beta Let_def split: if_splits)
  with Cons.IH [of "snd (take_lines (acc @ c))"] Cons.prems(1)
  have IH: "fst (ReadLoop (snd (take_lines (acc @ c))) chunks) =
        stream_lines (snd (take_lines (acc @ c)) @ concat chunks)"
      "fst (snd (ReadLoop (snd (take_lines (acc @ c))) chunks)) =
        snd (take_lines (snd (take_lines (acc @ c)) @ concat chunks))"
    by (simp_all add: take_lines_rest)
  show ?case
    using IH run stream_lines_append [of "acc @ c" "concat chunks"] take_lines_append [of "acc @ c" "concat chunks"]
    by simp
qed

text \<open>Lines short enough for the buffer never lead to a drop.\<close>

definition short_lines :: "string \<Rightarrow> bool" where
  "short_lines s \<longleftrightarrow> (\<forall>u v. s = u @ v \<longrightarrow> length (snd (take_lines u)) + kChunkSize \<le> kMaxLineLength)"

lemma ReadLoop_not_dropped:
  "\<forall>c \<in> set chunks. CHR 0x00 \<notin> set c \<and> length c \<le> kChunkSize \<Longrightarrow>
     short_lines (pre @ concat chunks) \<Longrightarrow>
     \<not> snd (snd (ReadLoop (snd (take_lines pre)) chunks))"
proof (induction chunks arbitrary: pre)
  case Nil
  then show ?case by simp
next
  case (Cons c chunks)
  have c: "c_string c = c" "length c \<le> kChunkSize"
    using Cons.prems(1) by (auto simp: c_string_def takeWhile_eq_all_conv)
  have "length (snd (take_lines pre)) + kChunkSize \<le> kMaxLineLength"
    using Cons.prems(2) by (auto simp: short_lines_def)
  then have le: "\<not> kMaxLineLength < length (snd (take_lines pre) @ c)" using c(2) by simp
  have "snd (take_lines (snd (take_lines pre) @ c)) = snd (take_lines (pre @ c))"
    using take_lines_append [of pre c] by simp
  with Cons.IH [of "pre @ c"] Cons.prems le c(1) show ?case by (auto simp: split_beta Let_def)
qed

subsection \<open>Messages\<close>

definition sendable :: "string \<Rightarrow> bool" where
  "sendable m \<longleftrightarrow> m \<noteq> [] \<and> newline \<notin> set m \<and> CHR 0x00 \<notin> set m \<and> length m + kChunkSize \<le> kMaxLineLength"

definition sent_stream :: "string list \<Rightarrow> string" where
  "sent_stream ms = concat (map (\<lambda>m. the (SendControlMessage True m)) ms)"

lemma sent_stream_Cons: "sent_stream (m # ms) = m @ newline # sent_stream ms"
  by (simp add: sent_stream_def SendControlMessage_def)

lemma stream_lines_sent: "\<forall>m \<in> set ms. sendable m \<Longrightarrow> stream_lines (sent_stream ms) = ms"
proof (induction ms)
  case Nil
  then show ?case by (simp add: stream_lines_def sent_stream_def take_lines_plain)
next
  case (Cons m ms)
  then show ?case
    by (auto simp: sent_stream_Cons stream_lines_def take_lines_line sendable_def)
qed

lemma short_lines_sent: "\<forall>m \<in> set ms. sendable m \<Longrightarrow> short_lines (sent_stream ms)"
proof (induction ms)
  case Nil
  then show ?case by (simp add: short_lines_def sent_stream_def take_lines_plain kChunkSize_def kMaxLineLength_def)
next
  case (Cons m ms)
  have m: "newline \<notin> set m" "length m + kChunkSize \<le> kMaxLineLength"
    using Cons.prems by (simp_all add: sendable_def)
  show ?case unfolding short_lines_def
  proof (intro allI impI)
    fix u v
    assume "sent_stream (m # ms) = u @ v"
    then have "(m @ [newline]) @ sent_stream ms = u @ v" by (simp add: sent_stream_Cons)
    then consider (inside) w where "m @ [newline] = u @ w" "w \<noteq> []" | (after) w where "u = m @ newline # w" "sent_stream ms = w @ v"
      unfolding append_eq_append_conv2 by (metis append.assoc append_Cons append_Nil append_Nil2)
    then show "length (snd (take_lines u)) + kChunkSize \<le> kMaxLineLength"
    proof cases
      case inside
      then have "u = take (length u) m" by (metis append_eq_conv_conj butlast_append butlast_snoc)
      then have "newline \<notin> set u" "length u \<le> length m" using m(1)
        by (metis in_set_takeD) (metis \<open>u = take (length u) m\<close> length_take min.cobounded1)
      with m(2) show ?thesis by (simp add: take_lines_plain)
    next
      case after
      have "length (snd (take_lines w)) + kChunkSize \<le> kMaxLineLength"
        using Cons.IH Cons.prems after(2) by (auto simp: short_lines_def)
      then show ?thesis by (simp add: after(1) take_lines_line [OF m(1)])
    qed
  qed
qed

subsection \<open>Properties\<close>

text \<open>C32. Framing: nonempty messages without newline and NUL and of at most \<open>64 KiB - 4095\<close> characters arrive
  exactly as they were sent, in order and each once, however \<open>recv\<close> cuts the stream into chunks;
  nothing is left in the buffer and the connection is not dropped.\<close>

theorem control_messages_roundtrip:
  assumes "\<forall>m \<in> set ms. sendable m" and "concat chunks = sent_stream ms"
    and "\<forall>c \<in> set chunks. c \<noteq> [] \<and> length c \<le> kChunkSize"
  shows "ReadLoop [] chunks = (ms, [], False)"
proof -
  have "CHR 0x00 \<notin> set (sent_stream ms)"
    using assms(1) by (induction ms) (auto simp: sent_stream_Cons sendable_def newline_def sent_stream_def
        SendControlMessage_def)
  then have chunks: "\<forall>c \<in> set chunks. CHR 0x00 \<notin> set c" using assms(2) by (metis UN_I set_concat)
  have ok: "\<not> snd (snd (ReadLoop [] chunks))"
    using ReadLoop_not_dropped [of chunks "[]"] assms chunks short_lines_sent [OF assms(1)]
    by (simp add: take_lines_plain)
  have "snd (take_lines (sent_stream ms)) = []"
    using assms(1) by (induction ms)
      (simp_all add: sent_stream_Cons take_lines_line sendable_def, simp add: sent_stream_def take_lines_plain)
  then show ?thesis
    using ReadLoop_lines [of chunks "[]"] ok assms chunks stream_lines_sent [OF assms(1)]
    by (simp add: prod_eq_iff)
qed

theorem control_messages_roundtrip_witness:
  "ReadLoop [] [''ab'', ''c'' @ [newline] @ ''d'', [newline]] = ([''abc'', ''d''], [], False)"
  by (rule control_messages_roundtrip)
    (simp_all add: sendable_def kChunkSize_def kMaxLineLength_def newline_def sent_stream_def SendControlMessage_def)

text \<open>Bounded memory: whatever a peer sends, the loop never holds more than \<open>64 KiB\<close> and one
  chunk.\<close>

theorem control_buffer_bounded:
  assumes "\<forall>c \<in> set chunks. length c \<le> kChunkSize"
  shows "length (fst (snd (ReadLoop [] chunks))) \<le> 64 * 1024 + 4095"
  using ReadLoop_bounded [of "[]" chunks] assms by (simp add: kMaxLineLength_def kChunkSize_def)

theorem control_buffer_bounded_witness:
  "length (fst (snd (ReadLoop [] [''ab'', ''c'']))) \<le> 64 * 1024 + 4095"
  by (rule control_buffer_bounded) (simp add: kChunkSize_def)

end
