(* ===== verification/Json_Text.thy ===== *)
theory Json_Text
  imports Veyra_Prelude
begin

text \<open>
  The JSON text of the control channel as \<open>native/windows/core/service_manager.cpp\<close> writes and
  reads it: \<open>ExtractJsonString\<close> searches the text for a quoted key and takes the value after
  the next colon. Positions of \<open>std::string\<close> are the suffixes they start.
\<close>

subsection \<open>The code\<close>

definition quote :: char where
  "quote = CHR 0x22"

text \<open>The text behind the first occurrence of \<open>needle\<close>, \<open>None\<close> for \<open>npos\<close>.\<close>

fun after :: "string \<Rightarrow> string \<Rightarrow> string option" where
  "after needle [] = (if needle = [] then Some [] else None)"
| "after needle (c # s) =
     (if take (length needle) (c # s) = needle then Some (drop (length needle) (c # s))
      else after needle s)"

definition ExtractJsonString :: "string \<Rightarrow> string \<Rightarrow> string" where
  "ExtractJsonString json key =
     (case after (quote # key @ [quote]) json of
        None \<Rightarrow> []
      | Some s1 \<Rightarrow>
         (case after '':'' s1 of
            None \<Rightarrow> []
          | Some s2 \<Rightarrow>
             (case dropWhile (\<lambda>c. c = CHR 0x20 \<or> c = CHR 0x09) s2 of
                [] \<Rightarrow> []
              | c # s3 \<Rightarrow>
                  if c = quote then
                    if quote \<in> set s3 then takeWhile (\<lambda>x. x \<noteq> quote) s3 else []
                  else if \<exists>x \<in> set s3. x = CHR 0x2C \<or> x = CHR 0x7D then
                    c # takeWhile (\<lambda>x. x \<noteq> CHR 0x2C \<and> x \<noteq> CHR 0x7D) s3
                  else [])))"

text \<open>\<open>BuildControlMessage\<close> with the token of the service; the payload's own braces are stripped.\<close>

definition strip_braces :: "string \<Rightarrow> string" where
  "strip_braces payload =
     (let inner = (if payload \<noteq> [] \<and> hd payload = CHR 0x7B then tl payload else payload)
      in if inner \<noteq> [] \<and> last inner = CHR 0x7D then butlast inner else inner)"

definition BuildControlMessage :: "string \<Rightarrow> string \<Rightarrow> string \<Rightarrow> string" where
  "BuildControlMessage token type payloadJson =
     ''{'' @ quote # ''type'' @ quote # '':'' @ quote # type @ [quote] @
     (if token \<noteq> [] then '','' @ quote # ''auth_token'' @ quote # '':'' @ quote # token @ [quote] else []) @
     (let inner = strip_braces payloadJson in if inner \<noteq> [] then '','' @ inner else []) @ ''}''"

text \<open>A JSON key with its quotes and colon.\<close>

definition json_key :: "string \<Rightarrow> string" where
  "json_key k = quote # k @ [quote] @ '':''"

subsection \<open>Flat objects of strings\<close>

definition field_text :: "string \<times> string \<Rightarrow> string" where
  "field_text f = quote # fst f @ quote # '':'' @ quote # snd f @ [quote]"

fun fields_text :: "(string \<times> string) list \<Rightarrow> string" where
  "fields_text [] = []"
| "fields_text [f] = field_text f"
| "fields_text (f # g # fs) = field_text f @ '','' @ fields_text (g # fs)"

definition object_text :: "(string \<times> string) list \<Rightarrow> string" where
  "object_text fs = ''{'' @ fields_text fs @ ''}''"

text \<open>Texts that need no escape, and keys that are not mistaken for punctuation between strings.\<close>

definition plain :: "string \<Rightarrow> bool" where
  "plain s \<longleftrightarrow> quote \<notin> set s"

definition plain_key :: "string \<Rightarrow> bool" where
  "plain_key k \<longleftrightarrow> plain k \<and> k \<noteq> '':'' \<and> k \<noteq> '',''"

lemma after_skip:
  "plain x \<Longrightarrow> after (quote # k) (x @ s) = after (quote # k) s"
  by (induction x) (auto simp: plain_def)

lemma take_quoted:
  "plain v \<Longrightarrow> plain k \<Longrightarrow> take (Suc (length k)) (v @ quote # s) = k @ [quote] \<longleftrightarrow> v = k"
proof (induction v arbitrary: k)
  case Nil
  then show ?case by (cases k) (auto simp: plain_def)
next
  case (Cons c v)
  then show ?case by (cases k) (auto simp: plain_def)
qed

lemma after_here: "after (quote # k @ [quote]) (quote # k @ quote # s) = Some s"
  by simp

text \<open>A quoted string other than the key is passed, whatever follows its closing quote.\<close>

lemma after_pass:
  assumes "plain v" "plain k" "v \<noteq> k" and nxt: "take (Suc (length k)) s \<noteq> k @ [quote]"
  shows "after (quote # k @ [quote]) (quote # v @ quote # s) = after (quote # k @ [quote]) s"
proof -
  have "take (Suc (length k)) (v @ quote # s) \<noteq> k @ [quote]"
    using take_quoted [OF assms(1,2)] assms(3) by blast
  then have "after (quote # k @ [quote]) (quote # v @ quote # s) = after (quote # k @ [quote]) (v @ quote # s)"
    by simp
  also have "\<dots> = after (quote # k @ [quote]) (quote # s)"
    using assms(1) by (rule after_skip)
  also have "\<dots> = after (quote # k @ [quote]) s" using nxt by simp
  finally show ?thesis .
qed

lemma not_separator:
  "plain k \<Longrightarrow> k \<noteq> [c] \<Longrightarrow> c \<noteq> quote \<Longrightarrow> take (Suc (length k)) (c # quote # s) \<noteq> k @ [quote]"
proof (cases k)
  case (Cons a k')
  assume "plain k" "k \<noteq> [c]"
  then show ?thesis using Cons by (cases k') (auto simp: plain_def)
qed auto

text \<open>What follows the value of a field inside an object.\<close>

definition closes :: "string \<Rightarrow> bool" where
  "closes s \<longleftrightarrow> s = ''}'' \<or> (\<exists>r. s = CHR 0x2C # quote # r)"

lemma fields_text_Cons: "\<exists>s. fields_text (f # fs) @ ''}'' = field_text f @ s \<and> closes s \<and>
    (fs \<noteq> [] \<longrightarrow> s = '','' @ fields_text fs @ ''}'')"
proof (cases fs)
  case Nil
  then show ?thesis by (intro exI [of _ "''}''"]) (simp add: closes_def)
next
  case (Cons g gs)
  moreover have "\<exists>r. fields_text (g # gs) = quote # r" by (cases gs) (auto simp: field_text_def)
  ultimately show ?thesis
    by (intro exI [of _ "'','' @ fields_text fs @ ''}''"]) (auto simp: closes_def)
qed

lemma after_field:
  assumes "plain_key k" "plain k'" "plain v'" "k' \<noteq> k" "v' \<noteq> k" "closes s"
  shows "after (quote # k @ [quote]) (field_text (k', v') @ s) = after (quote # k @ [quote]) s"
proof -
  have k: "plain k" "k \<noteq> '':''" "k \<noteq> '',''" using assms(1) by (simp_all add: plain_key_def)
  have "after (quote # k @ [quote]) (field_text (k', v') @ s) =
      after (quote # k @ [quote]) (CHR 0x3A # quote # v' @ quote # s)"
    using after_pass [OF assms(2) k(1) assms(4) not_separator [OF k(1,2)]]
    by (simp add: field_text_def quote_def)
  also have "\<dots> = after (quote # k @ [quote]) (quote # v' @ quote # s)" by (simp add: quote_def)
  also have "\<dots> = after (quote # k @ [quote]) s"
  proof (rule after_pass [OF assms(3) k(1) assms(5)])
    show "take (Suc (length k)) s \<noteq> k @ [quote]"
      using assms(6) not_separator [OF k(1,3)] by (auto simp: closes_def quote_def append_eq_Cons_conv)
  qed
  finally show ?thesis .
qed

lemma extract_at_field:
  assumes "plain v" "after (quote # k @ [quote]) json = Some (CHR 0x3A # quote # v @ quote # s)"
  shows "ExtractJsonString json k = v"
proof -
  have "takeWhile (\<lambda>x. x \<noteq> quote) (v @ quote # s) = v"
    using assms(1) by (induction v) (auto simp: plain_def)
  with assms(2) show ?thesis by (simp add: ExtractJsonString_def quote_def)
qed

lemma after_fields:
  "plain_key k \<Longrightarrow> \<forall>f \<in> set fs. plain (fst f) \<and> plain (snd f) \<and> snd f \<noteq> k \<Longrightarrow> map_of fs k = Some v \<Longrightarrow>
     \<exists>s. after (quote # k @ [quote]) (fields_text fs @ ''}'') = Some (CHR 0x3A # quote # v @ quote # s)"
proof (induction fs)
  case Nil
  then show ?case by simp
next
  case (Cons f fs)
  obtain k' v' where f: "f = (k', v')" by (cases f)
  obtain s where s: "fields_text (f # fs) @ ''}'' = field_text f @ s" "closes s"
    "fs \<noteq> [] \<longrightarrow> s = '','' @ fields_text fs @ ''}''"
    using fields_text_Cons by blast
  show ?case
  proof (cases "k' = k")
    case True
    then have "v' = v" using Cons.prems(3) f by simp
    with True s(1) show ?thesis using after_here [of k] by (simp add: f field_text_def)
  next
    case False
    then have "map_of fs k = Some v" "fs \<noteq> []" using Cons.prems(3) f by auto
    then obtain t where "after (quote # k @ [quote]) (fields_text fs @ ''}'') = Some (CHR 0x3A # quote # v @ quote # t)"
      using Cons.IH Cons.prems(1,2) by auto
    moreover have "after (quote # k @ [quote]) (fields_text (f # fs) @ ''}'') = after (quote # k @ [quote]) s"
      using after_field [of k k' v' s] Cons.prems(1,2) s(1,2) False f by simp
    moreover have "after (quote # k @ [quote]) s = after (quote # k @ [quote]) (fields_text fs @ ''}'')"
      using s(3) \<open>fs \<noteq> []\<close> by (simp add: quote_def)
    ultimately show ?thesis by auto
  qed
qed

text \<open>The extractor finds the value of a field of a flat object.\<close>

lemma extract_field:
  assumes "plain_key k" "\<forall>f \<in> set fs. plain (fst f) \<and> plain (snd f) \<and> snd f \<noteq> k" "map_of fs k = Some v"
  shows "ExtractJsonString (object_text fs) k = v"
proof -
  obtain s where "after (quote # k @ [quote]) (fields_text fs @ ''}'') = Some (CHR 0x3A # quote # v @ quote # s)"
    using after_fields [OF assms] by blast
  moreover have "after (quote # k @ [quote]) (object_text fs) = after (quote # k @ [quote]) (fields_text fs @ ''}'')"
    by (simp add: object_text_def quote_def)
  moreover have "plain v" using assms(2,3) by (metis map_of_SomeD snd_conv)
  ultimately show ?thesis by (intro extract_at_field) simp_all
qed

lemma message_is_object:
  "BuildControlMessage token type [] =
     object_text ((''type'', type) # (if token \<noteq> [] then [(''auth_token'', token)] else []))"
  by (simp add: BuildControlMessage_def object_text_def field_text_def strip_braces_def Let_def)

end
