(* ===== verification/Number_Text.thy ===== *)
theory Number_Text
  imports Float_Model "HOL-Library.Word"
begin

text \<open>
  The decimal texts the program writes: \<open>std::to_string\<close> of integers, and of floating point
  values in fixed notation with a number of decimals (6 for \<open>std::to_string\<close>, 1 for the
  telemetry report), rounded from the exact value, ties to even; and \<open>std::stoul\<close>, which reads one.
\<close>

definition digit :: "nat \<Rightarrow> char" where
  "digit d = char_of (48 + d)"

fun nat_text :: "nat \<Rightarrow> string" where
  "nat_text n = (if n < 10 then [digit n] else nat_text (n div 10) @ [digit (n mod 10)])"

declare nat_text.simps [simp del]

definition int_text :: "int \<Rightarrow> string" where
  "int_text i = (if i < 0 then ''-'' @ nat_text (nat (- i)) else nat_text (nat i))"

definition pad :: "nat \<Rightarrow> string \<Rightarrow> string" where
  "pad n s = replicate (n - length s) (CHR 0x30) @ s"

fun fixed_text :: "nat \<Rightarrow> flt \<Rightarrow> string" where
  "fixed_text decimals (Finite x) =
     (let k = nat (round_half_even (\<bar>x\<bar> * 10 ^ decimals))
      in (if x < 0 then ''-'' else []) @ nat_text (k div 10 ^ decimals) @
         (if 0 < decimals then ''.'' @ pad decimals (nat_text (k mod 10 ^ decimals)) else []))"
| "fixed_text decimals PosInf = ''inf''"
| "fixed_text decimals NegInf = ''-inf''"
| "fixed_text decimals NaN = ''nan''"

text \<open>
  \<open>std::stoul\<close> in base ten with a 32 bit \<open>unsigned long\<close>; \<open>None\<close> is an exception, for no digits
  or a value out of range.
\<close>

definition is_space :: "char \<Rightarrow> bool" where
  "is_space c \<longleftrightarrow> c = CHR 0x20 \<or> (9 \<le> (of_char c :: nat) \<and> (of_char c :: nat) \<le> 13)"

definition is_digit :: "char \<Rightarrow> bool" where
  "is_digit c \<longleftrightarrow> 48 \<le> (of_char c :: nat) \<and> (of_char c :: nat) \<le> 57"

definition digits_value :: "string \<Rightarrow> int" where
  "digits_value = foldl (\<lambda>n c. 10 * n + (int (of_char c) - 48)) 0"

definition stoul :: "string \<Rightarrow> 32 word option" where
  "stoul s =
     (let s = dropWhile is_space s;
          negative = (s \<noteq> [] \<and> hd s = CHR 0x2D);
          s = (if s \<noteq> [] \<and> (hd s = CHR 0x2D \<or> hd s = CHR 0x2B) then tl s else s);
          ds = takeWhile is_digit s
      in if ds = [] then None
         else let n = digits_value ds in
              if 2 ^ 32 \<le> n then None
              else Some (if negative then - of_int n else of_int n))"

lemma digit_value: "d < 10 \<Longrightarrow> of_char (digit d) = 48 + d"
  by (simp add: digit_def)

lemma digits_value_snoc: "digits_value (s @ [c]) = 10 * digits_value s + (int (of_char c) - 48)"
  by (simp add: digits_value_def)

lemma nat_text_digits: "list_all is_digit (nat_text n) \<and> digits_value (nat_text n) = int n \<and> nat_text n \<noteq> []"
proof (induction n rule: nat_text.induct)
  case (1 n)
  show ?case
  proof (cases "n < 10")
    case True
    then show ?thesis by (simp add: nat_text.simps [of n] is_digit_def digit_def digits_value_def)
  next
    case False
    have "digits_value (nat_text (n div 10) @ [digit (n mod 10)]) = 10 * int (n div 10) + int (n mod 10)"
      using 1 [OF False] digit_value [of "n mod 10"]
      by (simp add: digits_value_snoc digit_def)
    also have "\<dots> = int n" by (simp add: zdiv_int zmod_int)
    finally show ?thesis using 1 [OF False] False
      by (simp add: nat_text.simps [of n] is_digit_def digit_value)
  qed
qed

text \<open>Reading what was written.\<close>

lemma nat_text_scan:
  "dropWhile is_space (nat_text n) = nat_text n" "takeWhile is_digit (nat_text n) = nat_text n"
  "hd (nat_text n) \<noteq> CHR 0x2D" "hd (nat_text n) \<noteq> CHR 0x2B"
proof -
  let ?s = "nat_text n"
  have d: "list_all is_digit ?s" "?s \<noteq> []" using nat_text_digits [of n] by auto
  then have h: "is_digit (hd ?s)" by (cases ?s) auto
  then show "dropWhile is_space ?s = ?s" using d(2)
    by (cases ?s) (auto simp: is_digit_def is_space_def)
  show "hd ?s \<noteq> CHR 0x2D" "hd ?s \<noteq> CHR 0x2B" using h by (auto simp: is_digit_def)
  show "takeWhile is_digit ?s = ?s" using d(1) unfolding takeWhile_eq_all_conv list_all_iff by blast
qed

lemma stoul_digits:
  assumes "n < 4294967296"
  shows "stoul (nat_text n) = Some (of_nat n)" and "stoul (''-'' @ nat_text n) = Some (- of_nat n)"
proof -
  have d: "digits_value (nat_text n) = int n" "nat_text n \<noteq> []" using nat_text_digits [of n] by auto
  have small: "int n < 2 ^ 32" using assms by simp
  show "stoul (nat_text n) = Some (of_nat n)"
    using d small by (simp add: stoul_def Let_def nat_text_scan)
  have "dropWhile is_space (CHR 0x2D # nat_text n) = CHR 0x2D # nat_text n"
    by (simp add: is_space_def)
  then show "stoul (''-'' @ nat_text n) = Some (- of_nat n)"
    using d small by (simp add: stoul_def Let_def nat_text_scan)
qed

lemma stoul_nat_text: "stoul (nat_text (unat (w :: 32 word))) = Some w"
  using stoul_digits(1) [of "unat w"] unsigned_less [of w, where 'a = nat] by simp

text \<open>Also a Java \<open>int\<close>, which prints an identifier above \<open>2 ^ 31\<close> as a negative number.\<close>

lemma stoul_int_text: "stoul (int_text (sint (w :: 32 word))) = Some w"
proof -
  let ?k = "sint w"
  have bounds: "- (2 ^ 31) \<le> ?k" "?k < 2 ^ 31" using sint_greater_eq [of w] sint_less [of w] by simp_all
  have whole: "(of_int ?k :: 32 word) = w" by simp
  show ?thesis
  proof (cases "?k < 0")
    case True
    have "(of_nat (nat (- ?k)) :: 32 word) = of_int (int (nat (- ?k)))" by simp
    also have "\<dots> = - of_int ?k" using True by simp
    finally have n: "(of_nat (nat (- ?k)) :: 32 word) = - w" using whole by simp
    have "nat (- ?k) < 4294967296" using bounds by simp
    from stoul_digits(2) [OF this] True n show ?thesis by (simp add: int_text_def)
  next
    case False
    have "(of_nat (nat ?k) :: 32 word) = of_int (int (nat ?k))" by simp
    also have "\<dots> = w" using False whole by simp
    finally have n: "(of_nat (nat ?k) :: 32 word) = w" .
    have "nat ?k < 4294967296" using bounds by simp
    from stoul_digits(1) [OF this] False n show ?thesis by (simp add: int_text_def)
  qed
qed

end
