(* ===== verification/Service.thy ===== *)
theory Service
  imports Reassembly_Safety Jitter_Buffer Telemetry Control_Link Json_Text Number_Text
begin

text \<open>
  Class \<open>ServiceManager\<close> of \<open>native/windows/core/service_manager.cpp\<close> with the peer filter of
  \<open>IocpUdpServer\<close> (\<open>native/windows/network/iocp_udp_server.cpp\<close>): pairing over the control
  connection, the media path from a datagram to the decoder, and the camera commands. The
  decoder, the renderer and the virtual camera are Windows components; what reaches the decoder
  is an event. The sockets, the random bytes of the key pair and \<open>inet_pton\<close> are arguments.
\<close>

subsection \<open>State\<close>

datatype PairingState = PS_DISCONNECTED | AWAITING_CHALLENGE | AWAITING_PAIRING_OK | PAIRED

text \<open>
  The key object of the service is never changed after it was published, so the reassembler
  holds its value. \<open>sv_udpServer\<close> is \<open>expectedPeerAddr_\<close> of the server, if it exists.
\<close>

record Service =
  sv_isStreaming :: bool
  sv_pairingState :: PairingState
  sv_pin :: string
  sv_token :: string
  sv_hostIp :: string
  sv_crypto :: "SessionCrypto option"
  sv_statusCallback :: bool
  sv_udpServer :: "u32 option"
  sv_tcpClient :: bool
  sv_connected :: bool
  sv_reassembler :: "SessionCrypto FrameReassembler option"
  sv_jitterBuffer :: "JitterBuffer option"
  sv_decoder :: bool
  sv_telemetry :: Telemetry

datatype sv_event =
    Status string
  | ToPhone string
  | Decode VideoFrame

definition Service_new :: Service where
  "Service_new = \<lparr>sv_isStreaming = False, sv_pairingState = PS_DISCONNECTED, sv_pin = [], sv_token = [],
     sv_hostIp = [], sv_crypto = None, sv_statusCallback = False, sv_udpServer = None,
     sv_tcpClient = False, sv_connected = False, sv_reassembler = None, sv_jitterBuffer = None,
     sv_decoder = False, sv_telemetry = Telemetry_new\<rparr>"

definition Initialize :: "Service \<Rightarrow> bool \<times> Service" where
  "Initialize s = (True, s\<lparr>sv_decoder := True,
     sv_jitterBuffer := Some (JitterBuffer_new \<lparr>minDelayMs = 20, maxDelayMs = 60, maxQueueFrames = 10\<rparr> True),
     sv_reassembler := Some (FrameReassembler_new True True),
     sv_udpServer := Some 0, sv_tcpClient := True, sv_connected := False\<rparr>)"

subsection \<open>Messages to the phone\<close>

definition status :: "string \<Rightarrow> Service \<Rightarrow> sv_event list" where
  "status msg s = (if sv_statusCallback s then [Status msg] else [])"

definition tcp_send :: "string \<Rightarrow> Service \<Rightarrow> sv_event list" where
  "tcp_send msg s =
     (if sv_tcpClient s then
        case SendControlMessage (sv_connected s) msg of Some t \<Rightarrow> [ToPhone t] | None \<Rightarrow> []
      else [])"

definition sv_command :: "string \<Rightarrow> string \<Rightarrow> Service \<Rightarrow> sv_event list" where
  "sv_command type payload s =
     (if sv_tcpClient s \<and> sv_isStreaming s
      then tcp_send (BuildControlMessage (sv_token s) type payload) s else [])"

definition bool_text :: "bool \<Rightarrow> string" where
  "bool_text b = (if b then ''true'' else ''false'')"

definition sv_SetZoom :: "flt \<Rightarrow> Service \<Rightarrow> sv_event list" where
  "sv_SetZoom zoom s = sv_command ''setZoom'' (''{'' @ json_key ''zoom'' @ fixed_text 6 zoom @ ''}'') s"

definition sv_SetExposure :: "int \<Rightarrow> Service \<Rightarrow> sv_event list" where
  "sv_SetExposure exposure s =
     sv_command ''setExposure'' (''{'' @ json_key ''exposure'' @ int_text exposure @ ''}'') s"

definition sv_SetFocus :: "bool \<Rightarrow> flt \<Rightarrow> Service \<Rightarrow> sv_event list" where
  "sv_SetFocus autoFocus distance s =
     sv_command ''setFocus'' (''{'' @ json_key ''autoFocus'' @ bool_text autoFocus @ '','' @
       json_key ''distance'' @ fixed_text 6 distance @ ''}'') s"

definition sv_SetTorch :: "bool \<Rightarrow> Service \<Rightarrow> sv_event list" where
  "sv_SetTorch enabled s = sv_command ''setTorch'' (''{'' @ json_key ''enabled'' @ bool_text enabled @ ''}'') s"

definition sv_SwitchCamera :: "bool \<Rightarrow> Service \<Rightarrow> sv_event list" where
  "sv_SwitchCamera front s = sv_command ''switchCamera'' (''{'' @ json_key ''front'' @ bool_text front @ ''}'') s"

definition sv_RequestIdr :: "Service \<Rightarrow> sv_event list" where
  "sv_RequestIdr s = sv_command ''requestIdr'' [] s"

subsection \<open>Connecting\<close>

text \<open>\<open>inet\<close> is \<open>inet_pton\<close> for IPv4: \<open>None\<close> when the text is not an address.\<close>

definition SetExpectedPeer :: "(string \<Rightarrow> u32 option) \<Rightarrow> string \<Rightarrow> Service \<Rightarrow> Service" where
  "SetExpectedPeer inet hostIp s =
     s\<lparr>sv_udpServer := map_option (\<lambda>_. if hostIp \<noteq> [] then (case inet hostIp of Some a \<Rightarrow> a | None \<Rightarrow> 0) else 0)
         (sv_udpServer s)\<rparr>"

text \<open>
  \<open>ConnectDevice\<close> has two parts, before and after \<open>TcpControlClient::Connect\<close>; \<open>connects\<close> is what that
  returns. Its \<open>Disconnect\<close> may still let the reader thread of the previous connection finish lines it had
  received: theory \<open>Core_Service\<close> has that case.
\<close>

definition connect_begin :: "string \<Rightarrow> string \<Rightarrow> bool \<Rightarrow> Service \<Rightarrow> Service" where
  "connect_begin hostIp pin onStatus s =
     s\<lparr>sv_pin := pin, sv_token := [], sv_crypto := None, sv_hostIp := hostIp,
       sv_pairingState := AWAITING_CHALLENGE, sv_statusCallback := onStatus\<rparr>"

definition connect_end :: "bool \<Rightarrow> Service \<Rightarrow> bool \<times> sv_event list \<times> Service" where
  "connect_end connects s =
     (let s = s\<lparr>sv_connected := connects\<rparr> in
      if \<not> connects then
        let s = s\<lparr>sv_pairingState := PS_DISCONNECTED\<rparr> in (False, status ''connect_failed'' s, s)
      else (True, status ''waiting_for_challenge'' s, s))"

definition ConnectDevice ::
  "bool \<Rightarrow> string \<Rightarrow> string \<Rightarrow> bool \<Rightarrow> Service \<Rightarrow> bool \<times> sv_event list \<times> Service" where
  "ConnectDevice connects hostIp pin onStatus s =
     (if \<not> sv_tcpClient s then (False, [], s)
      else connect_end connects (connect_begin hostIp pin onStatus s))"

lemmas ConnectDevice_simps = ConnectDevice_def connect_begin_def connect_end_def

definition DisconnectDevice :: "(string \<Rightarrow> u32 option) \<Rightarrow> Service \<Rightarrow> Service" where
  "DisconnectDevice inet s =
     SetExpectedPeer inet [] (s\<lparr>sv_connected := False, sv_isStreaming := False,
       sv_pairingState := PS_DISCONNECTED, sv_token := [], sv_crypto := None\<rparr>)"

definition Shutdown :: "(string \<Rightarrow> u32 option) \<Rightarrow> Service \<Rightarrow> Service" where
  "Shutdown inet s = (DisconnectDevice inet s)\<lparr>sv_udpServer := None, sv_decoder := False\<rparr>"

subsection \<open>Pairing\<close>

definition pairing_response :: "string \<Rightarrow> string \<Rightarrow> string" where
  "pairing_response pin clientPubB64 =
     ''{'' @ json_key ''type'' @ quote # ''pairing_response'' @ quote # '','' @
     json_key ''pin'' @ quote # pin @ quote # '','' @
     json_key ''client_pubkey'' @ quote # clientPubB64 @ [quote] @ ''}''"

definition arm_receiver :: "(string \<Rightarrow> u32 option) \<Rightarrow> SessionCrypto \<Rightarrow> u32 \<Rightarrow> Service \<Rightarrow> Service" where
  "arm_receiver inet crypto sessionId s =
     SetExpectedPeer inet (sv_hostIp s) (s\<lparr>sv_crypto := Some crypto,
       sv_reassembler := map_option (\<lambda>r.
         let r = ra_SetCrypto (Some crypto) r
         in if sessionId \<noteq> 0 then SetExpectedSessionId sessionId r else r) (sv_reassembler s)\<rparr>)"

definition HandlePairingChallenge ::
  "('ctx, 'mpi, 'point) mbedtls \<Rightarrow> (string \<Rightarrow> u32 option) \<Rightarrow> bytes \<Rightarrow> string \<Rightarrow> u32 \<Rightarrow> Service \<Rightarrow>
     sv_event list \<times> Service" where
  "HandlePairingChallenge P inet entropy serverPubKeyB64 sessionId s =
     (if sv_pairingState s \<noteq> AWAITING_CHALLENGE then ([], s)
      else if serverPubKeyB64 = [] then (status ''pairing_error:missing_pubkey'' s, s)
      else
        let serverPub = Base64Decode P serverPubKeyB64 in
        if length serverPub \<noteq> VEYRA_PUBLIC_KEY_SIZE then (status ''pairing_error:invalid_pubkey'' s, s)
        else
          let myKeys = GenerateKeyPair P entropy;
              (ok, crypto) = DeriveSessionKeys P False (Some serverPub) (Some (publicKey myKeys))
                               (Some (privateKey myKeys)) SessionCrypto_new
          in if \<not> ok \<or> \<not> IsKeySet crypto then (status ''pairing_error:derive_failed'' s, s)
             else
               let s = (arm_receiver inet crypto sessionId s)\<lparr>sv_pairingState := AWAITING_PAIRING_OK\<rparr>
               in (tcp_send (pairing_response (sv_pin s) (Base64Encode P (publicKey myKeys))) s, s))"

definition start_stream_payload :: string where
  "start_stream_payload = ''{'' @ json_key ''video'' @ ''{'' @ json_key ''width'' @ ''1280,'' @
     json_key ''height'' @ ''720,'' @ json_key ''fps'' @ ''30,'' @ json_key ''bitrate'' @ ''2500000}}''"

definition HandlePairingResult :: "string \<Rightarrow> string \<Rightarrow> Service \<Rightarrow> sv_event list \<times> Service" where
  "HandlePairingResult token errorReason s =
     (if errorReason \<noteq> [] then
        let s = s\<lparr>sv_pairingState := PS_DISCONNECTED, sv_isStreaming := False, sv_crypto := None\<rparr>
        in (status (''pairing_error:'' @ errorReason) s, s)
      else if token = [] then (status ''pairing_error:missing_token'' s, s)
      else
        let s = s\<lparr>sv_token := token, sv_pairingState := PAIRED, sv_isStreaming := True\<rparr>
        in (status ''paired'' s @
            tcp_send (BuildControlMessage token ''startStream'' start_stream_payload) s @
            tcp_send (BuildControlMessage token ''hello'' []) s, s))"

definition OnTcpControlMessage ::
  "('ctx, 'mpi, 'point) mbedtls \<Rightarrow> (string \<Rightarrow> u32 option) \<Rightarrow> bytes \<Rightarrow> string \<Rightarrow> Service \<Rightarrow>
     sv_event list \<times> Service" where
  "OnTcpControlMessage P inet entropy message s =
     (let type = ExtractJsonString message ''type'' in
      if type = ''pairing_challenge'' then
        HandlePairingChallenge P inet entropy (ExtractJsonString message ''server_pubkey'')
          (case stoul (ExtractJsonString message ''session_id'') of Some i \<Rightarrow> i | None \<Rightarrow> 0) s
      else if type = ''pairing_ok'' then HandlePairingResult (ExtractJsonString message ''token'') [] s
      else if type = ''pairing_error'' then HandlePairingResult [] (ExtractJsonString message ''reason'') s
      else ([], s))"

subsection \<open>Media\<close>

definition on_frame :: "int \<Rightarrow> VideoFrame \<Rightarrow> Service \<Rightarrow> (sv_event list \<times> Service) option" where
  "on_frame now frame s =
     (let decoded = (if sv_decoder s then [Decode frame] else []) in
      case sv_jitterBuffer s of
        None \<Rightarrow> Some (decoded, s)
      | Some jb \<Rightarrow>
          map_option (\<lambda>(idr, jb'). (decoded @ concat (map (\<lambda>_. sv_RequestIdr s) idr),
              s\<lparr>sv_jitterBuffer := Some jb'\<rparr>)) (PushFrame now frame jb))"

fun on_media_events :: "int \<Rightarrow> rx_event list \<Rightarrow> Service \<Rightarrow> (sv_event list \<times> Service) option" where
  "on_media_events now [] s = Some ([], s)"
| "on_media_events now (FrameReady f # es) s =
     (case on_frame now f s of
        None \<Rightarrow> None
      | Some (o1, s1) \<Rightarrow> map_option (\<lambda>(o2, s2). (o1 @ o2, s2)) (on_media_events now es s1))"
| "on_media_events now (MissingKeyframe i # es) s =
     map_option (\<lambda>(o2, s2). (sv_RequestIdr s @ o2, s2)) (on_media_events now es s)"

definition OnUdpPacketReceived ::
  "('ctx, 'mpi, 'point) mbedtls \<Rightarrow> int \<Rightarrow> u64 \<Rightarrow> bytes \<Rightarrow> Service \<Rightarrow> (sv_event list \<times> Service) option" where
  "OnUdpPacketReceived P now nowUs data s =
     (case sv_reassembler s of
        None \<Rightarrow> Some ([], s)
      | Some r \<Rightarrow>
          let (_, es, r') = PushPacket (Decrypt P) (Some data) (length data) r in
          map_option (\<lambda>(out, s'). (out, s'\<lparr>sv_telemetry :=
              RecordBytesReceived nowUs (of_nat (length data)) (sv_telemetry s')\<rparr>))
            (on_media_events now es (s\<lparr>sv_reassembler := Some r'\<rparr>)))"

text \<open>
  One turn of \<open>WorkerLoop\<close>: \<open>recvfrom\<close> fails for a datagram longer than the buffer, and an
  empty one is skipped; then the source is compared with the expected peer.
\<close>

definition WorkerLoop_turn ::
  "('ctx, 'mpi, 'point) mbedtls \<Rightarrow> int \<Rightarrow> u64 \<Rightarrow> u32 \<Rightarrow> bytes \<Rightarrow> Service \<Rightarrow> (sv_event list \<times> Service) option" where
  "WorkerLoop_turn P now nowUs clientAddr data s =
     (case sv_udpServer s of
        None \<Rightarrow> Some ([], s)
      | Some peerAddr \<Rightarrow>
          if data = [] \<or> VEYRA_MAX_PACKET_SIZE < length data then Some ([], s)
          else if peerAddr \<noteq> 0 \<and> clientAddr \<noteq> peerAddr then Some ([], s)
          else OnUdpPacketReceived P now nowUs data s)"

subsection \<open>Runs of an initialized service\<close>

datatype sv_op =
    Connect bool string string bool
  | Disconnect
  | ShutDown
  | Control bytes string
  | Datagram int u64 u32 bytes

fun sv_step ::
  "('ctx, 'mpi, 'point) mbedtls \<Rightarrow> (string \<Rightarrow> u32 option) \<Rightarrow> sv_op \<Rightarrow> Service \<Rightarrow>
     (sv_event list \<times> Service) option" where
  "sv_step P inet (Connect connects ip pin cb) s = Some (snd (ConnectDevice connects ip pin cb s))"
| "sv_step P inet Disconnect s = Some ([], DisconnectDevice inet s)"
| "sv_step P inet ShutDown s = Some ([], Shutdown inet s)"
| "sv_step P inet (Control entropy m) s = Some (OnTcpControlMessage P inet entropy m s)"
| "sv_step P inet (Datagram now us src d) s = WorkerLoop_turn P now us src d s"

definition armed_with :: "SessionCrypto \<Rightarrow> Service \<Rightarrow> bool" where
  "armed_with c s \<longleftrightarrow> (\<exists>r. sv_reassembler s = Some r \<and> ra_crypto r = Some c)"

lemma SetExpectedPeer_simps [simp]:
  "sv_reassembler (SetExpectedPeer inet h s) = sv_reassembler s"
  "sv_pairingState (SetExpectedPeer inet h s) = sv_pairingState s"
  by (simp_all add: SetExpectedPeer_def)

lemma no_decode_status [simp]: "Decode f \<notin> set (status m s)"
  by (simp add: status_def)

lemma tcp_send_cases: "tcp_send m s = [] \<or> tcp_send m s = [ToPhone (m @ [newline])]"
  by (simp add: tcp_send_def SendControlMessage_def)

lemma no_decode_send [simp]: "Decode f \<notin> set (tcp_send m s)"
  using tcp_send_cases [of m s] by auto

lemma no_decode_idr [simp]: "Decode f \<notin> set (sv_RequestIdr s)"
  by (simp add: sv_RequestIdr_def sv_command_def)

lemma crypto_kept [simp]:
  "ra_crypto (ra_SetCrypto c r) = c" "ra_crypto (SetExpectedSessionId i r) = ra_crypto r"
  by (simp_all add: ra_SetCrypto_def SetExpectedSessionId_def)

lemma on_frame_keeps:
  "on_frame now f s = Some (out, s') \<Longrightarrow> sv_reassembler s' = sv_reassembler s"
  by (auto simp: on_frame_def Let_def split: option.splits)

lemma on_media_events_keep:
  "on_media_events now es s = Some (out, s') \<Longrightarrow> sv_reassembler s' = sv_reassembler s"
  by (induction now es s arbitrary: out s' rule: on_media_events.induct)
    (auto split: option.splits dest: on_frame_keeps)

subsection \<open>The media path is the reassembler\<close>

fun sv_run ::
  "('ctx, 'mpi, 'point) mbedtls \<Rightarrow> (string \<Rightarrow> u32 option) \<Rightarrow> sv_op list \<Rightarrow> Service \<Rightarrow>
     (sv_event list \<times> Service) option" where
  "sv_run P inet [] s = Some ([], s)"
| "sv_run P inet (x # xs) s =
     (case sv_step P inet x s of
        None \<Rightarrow> None
      | Some (es, s1) \<Rightarrow> map_option (\<lambda>(fs, s2). (es @ fs, s2)) (sv_run P inet xs s1))"

fun decoded :: "sv_event list \<Rightarrow> VideoFrame list" where
  "decoded [] = []"
| "decoded (Decode f # es) = f # decoded es"
| "decoded (_ # es) = decoded es"

fun ready_frames :: "rx_event list \<Rightarrow> VideoFrame list" where
  "ready_frames [] = []"
| "ready_frames (FrameReady f # es) = f # ready_frames es"
| "ready_frames (MissingKeyframe i # es) = ready_frames es"

lemma decoded_append [simp]: "decoded (xs @ ys) = decoded xs @ decoded ys"
  by (induction xs rule: decoded.induct) auto

lemma ready_frames_append [simp]: "ready_frames (xs @ ys) = ready_frames xs @ ready_frames ys"
  by (induction xs rule: ready_frames.induct) auto

lemma decoded_none: "\<forall>f. Decode f \<notin> set es \<Longrightarrow> decoded es = []"
  by (induction es rule: decoded.induct) auto

lemma decoded_idr [simp]: "decoded (sv_RequestIdr s) = []" "decoded (concat (map (\<lambda>_. sv_RequestIdr s) idr)) = []"
  by (rule decoded_none, simp)+

definition sv_jitter_config :: JitterBufferConfig where
  "sv_jitter_config = \<lparr>minDelayMs = 20, maxDelayMs = 60, maxQueueFrames = 10\<rparr>"

text \<open>The service takes media from \<open>src\<close> with the reassembler \<open>r\<close>.\<close>

definition media_ready :: "u32 \<Rightarrow> SessionCrypto FrameReassembler \<Rightarrow> Service \<Rightarrow> bool" where
  "media_ready src r s \<longleftrightarrow> sv_reassembler s = Some r \<and> sv_decoder s \<and>
     (\<exists>a. sv_udpServer s = Some a \<and> (a = 0 \<or> a = src)) \<and>
     (\<exists>jb. sv_jitterBuffer s = Some jb \<and> jb_inv sv_jitter_config jb)"

lemma on_frame_decodes:
  assumes "media_ready src r s"
  shows "\<exists>out s'. on_frame now f s = Some (out, s') \<and> decoded out = [f] \<and> media_ready src r s'"
proof -
  obtain jb where jb: "sv_jitterBuffer s = Some jb" "jb_inv sv_jitter_config jb"
    using assms by (auto simp: media_ready_def)
  have "0 < unat (maxQueueFrames sv_jitter_config)" by (simp add: sv_jitter_config_def)
  from PushFrame_total [OF jb(2) this, of now f] obtain idr jb' where
    "PushFrame now f jb = Some (idr, jb')" "jb_inv sv_jitter_config jb'" by blast
  with assms jb show ?thesis by (simp add: on_frame_def media_ready_def)
qed

lemma on_media_events_decode:
  "media_ready src r s \<Longrightarrow>
     \<exists>out s'. on_media_events now es s = Some (out, s') \<and> decoded out = ready_frames es \<and> media_ready src r s'"
proof (induction es arbitrary: s)
  case Nil
  then show ?case by simp
next
  case (Cons e es)
  show ?case
  proof (cases e)
    case (FrameReady f)
    obtain o1 s1 where 1: "on_frame now f s = Some (o1, s1)" "decoded o1 = [f]" "media_ready src r s1"
      using on_frame_decodes [OF Cons.prems] by blast
    with Cons.IH [OF 1(3)] FrameReady show ?thesis by auto
  next
    case (MissingKeyframe i)
    with Cons show ?thesis by fastforce
  qed
qed

lemma datagram_decodes:
  assumes "media_ready src r s" and "d \<noteq> []" and "length d \<le> VEYRA_MAX_PACKET_SIZE"
  shows "\<exists>out s'. WorkerLoop_turn P now us src d s = Some (out, s') \<and>
    decoded out = ready_frames (fst (receive (Decrypt P) r d)) \<and>
    media_ready src (snd (receive (Decrypt P) r d)) s'"
proof -
  obtain b es r' where push: "PushPacket (Decrypt P) (Some d) (length d) r = (b, es, r')"
    by (cases "PushPacket (Decrypt P) (Some d) (length d) r") auto
  have "media_ready src r' (s\<lparr>sv_reassembler := Some r'\<rparr>)" using assms(1) by (auto simp: media_ready_def)
  from on_media_events_decode [OF this, of now es] obtain out s' where
    m: "on_media_events now es (s\<lparr>sv_reassembler := Some r'\<rparr>) = Some (out, s')" "decoded out = ready_frames es"
      "media_ready src r' s'" by blast
  have "WorkerLoop_turn P now us src d s = OnUdpPacketReceived P now us d s"
    using assms by (auto simp: WorkerLoop_turn_def media_ready_def)
  with m push assms(1) show ?thesis
    by (auto simp: OnUdpPacketReceived_def receive_def media_ready_def)
qed

lemma datagrams_decode:
  "media_ready src r s \<Longrightarrow> \<forall>d \<in> set ds. d \<noteq> [] \<and> length d \<le> VEYRA_MAX_PACKET_SIZE \<Longrightarrow>
     \<exists>es s'. sv_run P inet (map (Datagram now us src) ds) s = Some (es, s') \<and>
       decoded es = ready_frames (fst (receive_all (Decrypt P) r ds))"
proof (induction ds arbitrary: s r)
  case Nil
  then show ?case by (simp add: receive_all_def)
next
  case (Cons d ds)
  from datagram_decodes [of src r s d P now us] Cons.prems obtain o1 s1 where
    1: "WorkerLoop_turn P now us src d s = Some (o1, s1)" "decoded o1 = ready_frames (fst (receive (Decrypt P) r d))"
      "media_ready src (snd (receive (Decrypt P) r d)) s1" by auto
  from Cons.IH [OF 1(3)] Cons.prems(2) obtain es s2 where
    "sv_run P inet (map (Datagram now us src) ds) s1 = Some (es, s2)"
    "decoded es = ready_frames (fst (receive_all (Decrypt P) (snd (receive (Decrypt P) r d)) ds))" by auto
  with 1 show ?case by (auto simp: receive_all_def split_beta)
qed

subsection \<open>Runs of an armed service\<close>

definition from_peer :: "u32 \<Rightarrow> Service \<Rightarrow> bool" where
  "from_peer src s = (case sv_udpServer s of None \<Rightarrow> False | Some a \<Rightarrow> a = 0 \<or> src = a)"

text \<open>The datagrams of a run whose source is the expected peer, if one is set at that time.\<close>

fun heard ::
  "('ctx, 'mpi, 'point) mbedtls \<Rightarrow> (string \<Rightarrow> u32 option) \<Rightarrow> sv_op list \<Rightarrow> Service \<Rightarrow> bytes list" where
  "heard P inet [] s = []"
| "heard P inet (x # xs) s =
     (case x of Datagram now us src d \<Rightarrow> if from_peer src s then [d] else [] | _ \<Rightarrow> []) @
     (case sv_step P inet x s of None \<Rightarrow> [] | Some (es, s1) \<Rightarrow> heard P inet xs s1)"

definition holds :: "('ctx, 'mpi, 'point) mbedtls \<Rightarrow> SessionCrypto \<Rightarrow> u32 \<Rightarrow> u32 list \<Rightarrow> bytes list \<Rightarrow> Service \<Rightarrow> bool" where
  "holds P c i old ds s \<longleftrightarrow> (\<exists>r. sv_reassembler s = Some r \<and> only_delivered (Decrypt P) c i old ds r)"

lemma holds_armed: "holds P c i old ds s \<Longrightarrow> armed_with c s"
  by (auto simp: holds_def armed_with_def only_delivered_def)

lemma other_ops_keep:
  "\<forall>e m. x = Control e m \<longrightarrow> ExtractJsonString m ''type'' \<noteq> ''pairing_challenge'' \<Longrightarrow>
     \<forall>now us src d. x \<noteq> Datagram now us src d \<Longrightarrow> sv_step P inet x s = Some (es, s') \<Longrightarrow>
     sv_reassembler s' = sv_reassembler s \<and> (\<forall>f. Decode f \<notin> set es)"
  by (cases x) (auto simp: ConnectDevice_simps DisconnectDevice_def Shutdown_def OnTcpControlMessage_def
      HandlePairingResult_def Let_def split: if_splits)

lemma on_frame_decode:
  "on_frame now f s = Some (out, s') \<Longrightarrow> Decode g \<in> set out \<Longrightarrow> g = f"
  by (auto simp: on_frame_def Let_def split: option.splits if_splits)

lemma on_media_events_from:
  "on_media_events now es s = Some (out, s') \<Longrightarrow> Decode f \<in> set out \<Longrightarrow> FrameReady f \<in> set es"
proof (induction es arbitrary: s out)
  case Nil
  then show ?case by simp
next
  case (Cons e es)
  show ?case
  proof (cases e)
    case (FrameReady g)
    with Cons.prems obtain o1 s1 o2 where
      1: "on_frame now g s = Some (o1, s1)" "on_media_events now es s1 = Some (o2, s')" "out = o1 @ o2"
      by (auto split: option.splits)
    with Cons.IH [OF 1(2)] on_frame_decode [OF 1(1)] Cons.prems(2) FrameReady show ?thesis by auto
  next
    case (MissingKeyframe k)
    with Cons show ?thesis by auto
  qed
qed

lemma datagram_authentic:
  assumes H: "holds P c i old ds s" and heard: "from_peer src s \<longrightarrow> d \<in> set ds"
    and step: "WorkerLoop_turn P now us src d s = Some (es, s')"
  shows "holds P c i old ds s' \<and> (\<forall>f. Decode f \<in> set es \<longrightarrow> vf_frameId f \<in> set old \<or>
    assembled_from (delivered (Decrypt P) c i ds (vf_frameId f)) (vf_data f))"
proof (cases "OnUdpPacketReceived P now us d s = Some (es, s') \<and> from_peer src s")
  case False
  then have "es = []" "s' = s"
    using step by (auto simp: WorkerLoop_turn_def from_peer_def split: option.splits if_splits)
  with H show ?thesis by simp
next
  case True
  obtain r where r: "sv_reassembler s = Some r" "only_delivered (Decrypt P) c i old ds r"
    using H by (auto simp: holds_def)
  obtain b ev r' where push: "PushPacket (Decrypt P) (Some d) (length d) r = (b, ev, r')"
    by (cases "PushPacket (Decrypt P) (Some d) (length d) r") auto
  obtain s1 where m: "on_media_events now ev (s\<lparr>sv_reassembler := Some r'\<rparr>) = Some (es, s1)"
    "sv_reassembler s' = sv_reassembler s1"
    using True push r(1) by (auto simp: OnUdpPacketReceived_def)
  have "receive (Decrypt P) r d = (ev, r')" by (simp add: receive_def push)
  with only_delivered_step [OF r(2), of d] True heard have
    "only_delivered (Decrypt P) c i old ds r'"
    "\<forall>f. FrameReady f \<in> set ev \<longrightarrow> vf_frameId f \<in> set old \<or>
       assembled_from (delivered (Decrypt P) c i ds (vf_frameId f)) (vf_data f)" by auto
  with on_media_events_keep [OF m(1)] on_media_events_from [OF m(1)] m(2) show ?thesis
    by (auto simp: holds_def)
qed

lemma run_authentic:
  "holds P c i old ds s \<Longrightarrow> set (heard P inet xs s) \<subseteq> set ds \<Longrightarrow>
     \<forall>e m. Control e m \<in> set xs \<longrightarrow> ExtractJsonString m ''type'' \<noteq> ''pairing_challenge'' \<Longrightarrow>
     sv_run P inet xs s = Some (es, s') \<Longrightarrow>
     holds P c i old ds s' \<and> (\<forall>f. Decode f \<in> set es \<longrightarrow> vf_frameId f \<in> set old \<or>
       assembled_from (delivered (Decrypt P) c i ds (vf_frameId f)) (vf_data f))"
proof (induction xs arbitrary: s es)
  case Nil
  then show ?case by simp
next
  case (Cons x xs)
  obtain e1 s1 e2 where x: "sv_step P inet x s = Some (e1, s1)" "sv_run P inet xs s1 = Some (e2, s')" "es = e1 @ e2"
    using Cons.prems(4) by (auto split: option.splits)
  have "holds P c i old ds s1 \<and> (\<forall>f. Decode f \<in> set e1 \<longrightarrow> vf_frameId f \<in> set old \<or>
      assembled_from (delivered (Decrypt P) c i ds (vf_frameId f)) (vf_data f))"
  proof (cases "\<exists>now us src d. x = Datagram now us src d")
    case True
    then obtain now us src d where d: "x = Datagram now us src d" by blast
    with Cons.prems(2) x(1) datagram_authentic [OF Cons.prems(1), of src d now us e1 s1] show ?thesis
      by (auto split: if_splits)
  next
    case False
    with other_ops_keep [OF _ _ x(1)] Cons.prems(1,3) show ?thesis by (auto simp: holds_def)
  qed
  moreover have "set (heard P inet xs s1) \<subseteq> set ds" using Cons.prems(2) x(1) by auto
  ultimately show ?case using Cons.IH [of s1 e2] Cons.prems(3) x(2,3) by auto
qed

subsection \<open>Properties\<close>

definition demo_inet :: "string \<Rightarrow> u32 option" where
  "demo_inet h = (if h = ''10.0.0.5'' then Some 5 else None)"

definition demo_service :: Service where
  "demo_service = arm_receiver demo_inet demo_client 9
     ((snd (Initialize Service_new))\<lparr>sv_hostIp := ''10.0.0.5''\<rparr>)"

text \<open>C9. Once a session key is armed, the service decodes authenticated media: let the service be armed with
  a key and a nonzero session id while its receiver is in any state it can reach, and let any sequence of
  connects, disconnects, shutdowns, control messages other than a further \<open>pairing_challenge\<close> and
  datagrams follow. Every frame that reaches the decoder then either has the id of a frame that was
  already half received when the key was armed, or is made of bytes that were each delivered, for that
  frame and that fragment index, by a datagram which passed the peer filter, belongs to the session and
  opened under the key. The key stays in force throughout.\<close>

theorem armed_service_decodes_only_authentic_frames:
  assumes "sv_reassembler s0 = Some r0" and "rx_reachable (Decrypt P) r0" and "i \<noteq> 0"
    and "\<forall>e m. Control e m \<in> set xs \<longrightarrow> ExtractJsonString m ''type'' \<noteq> ''pairing_challenge''"
    and "sv_run P inet xs (arm_receiver inet c i s0) = Some (es, s')"
  shows "armed_with c s' \<and>
    (\<forall>f. Decode f \<in> set es \<longrightarrow> vf_frameId f \<in> set (map fst (ra_pending r0)) \<or>
       assembled_from (delivered (Decrypt P) c i (heard P inet xs (arm_receiver inet c i s0)) (vf_frameId f)) (vf_data f))"
proof -
  let ?s = "arm_receiver inet c i s0"
  have "sv_reassembler ?s = Some (SetExpectedSessionId i (ra_SetCrypto (Some c) r0))"
    using assms(1,3) by (simp add: arm_receiver_def Let_def)
  then have "holds P c i (map fst (ra_pending r0)) (heard P inet xs ?s) ?s"
    using only_delivered_armed [OF assms(2)] by (auto simp: holds_def)
  from run_authentic [OF this subset_refl assms(4,5)] show ?thesis by (auto simp: holds_armed)
qed

theorem armed_service_decodes_only_authentic_frames_witness:
  "\<exists>f es s'. sv_run demo_lib demo_inet [Datagram 0 0 5 demo_sealed, Datagram 0 0 6 demo_sealed] demo_service = Some (es, s') \<and>
     Decode f \<in> set es \<and> vf_data f = [7, 8, 9] \<and>
     assembled_from (delivered (Decrypt demo_lib) demo_client 9 [demo_sealed] 1) (vf_data f)"
proof -
  let ?s0 = "(snd (Initialize Service_new))\<lparr>sv_hostIp := ''10.0.0.5''\<rparr>"
  let ?xs = "[Datagram 0 0 5 demo_sealed, Datagram 0 0 6 demo_sealed]"
  let ?f = "\<lparr>vf_frameId = 1, vf_timestampUs = 50000, vf_isKeyframe = True, vf_data = [7, 8, 9]\<rparr>"
  have r: "sv_reassembler ?s0 = Some (FrameReassembler_new True True)" by (simp add: Initialize_def)
  have "map_option fst (sv_run demo_lib demo_inet ?xs demo_service) = Some [Decode ?f]"
    by code_simp
  then obtain s' where s: "sv_run demo_lib demo_inet ?xs (arm_receiver demo_inet demo_client 9 ?s0) = Some ([Decode ?f], s')"
    unfolding demo_service_def by auto
  have h: "heard demo_lib demo_inet ?xs (arm_receiver demo_inet demo_client 9 ?s0) = [demo_sealed]"
    by code_simp
  have "assembled_from (delivered (Decrypt demo_lib) demo_client 9 [demo_sealed] 1) [7, 8, 9]"
    using armed_service_decodes_only_authentic_frames [OF r rx_reachable.created _ _ s] h
    by (simp add: FrameReassembler_new_def)
  with s show ?thesis unfolding demo_service_def by auto
qed

text \<open>C35. Pairing can be skipped: let the service be initialized and connected, with no packet or message
  received since. One message whose extracted type is \<open>pairing_ok\<close> and whose extracted token is not empty
  makes the service paired and streaming without a key exchange. It reports \<open>paired\<close> to a status callback,
  sends the two lines \<open>startStream\<close> and \<open>hello\<close> with that token, holds no key, and an unencrypted keyframe
  of one packet, from any address and of any session, is then decoded.\<close>

theorem pairing_ok_skips_the_key_exchange:
  assumes "s = snd (snd (ConnectDevice True ip pin cb (snd (Initialize s0))))"
    and "ExtractJsonString m ''type'' = ''pairing_ok''" and "ExtractJsonString m ''token'' = token" and "token \<noteq> []"
    and "OnTcpControlMessage P inet e m s = (es, s')"
  shows "es = (if cb then [Status ''paired''] else []) @
      [ToPhone (BuildControlMessage token ''startStream'' start_stream_payload @ [newline]),
       ToPhone (BuildControlMessage token ''hello'' [] @ [newline])] \<and>
    sv_pairingState s' = PAIRED \<and> sv_isStreaming s' \<and> sv_token s' = token \<and> sv_crypto s' = None \<and>
    (\<forall>d h b. open_packet (Decrypt P) None (Some d) (length d) = Some (h, b) \<and> length d \<le> 1200 \<and>
       has_flag (hdr_flags h) FLAG_KEYFRAME \<and> hdr_fragmentIndex h = 0 \<and> hdr_fragmentCount h = 1 \<longrightarrow>
       (\<exists>s''. WorkerLoop_turn P now us src d s' = Some ([Decode \<lparr>vf_frameId = hdr_frameId h,
          vf_timestampUs = hdr_timestampUs h, vf_isKeyframe = True, vf_data = b\<rparr>], s'')))"
proof -
  have s: "sv_crypto s = None" "sv_udpServer s = Some 0" "sv_decoder s" "sv_tcpClient s" "sv_connected s"
    "sv_statusCallback s = cb" "sv_reassembler s = Some (FrameReassembler_new True True)"
    "sv_jitterBuffer s = Some (JitterBuffer_new \<lparr>minDelayMs = 20, maxDelayMs = 60, maxQueueFrames = 10\<rparr> True)"
    by (simp_all add: assms(1) ConnectDevice_simps Initialize_def Let_def)
  have s': "s' = s\<lparr>sv_token := token, sv_pairingState := PAIRED, sv_isStreaming := True\<rparr>"
    using assms(2-5) by (simp add: OnTcpControlMessage_def HandlePairingResult_def Let_def)
  have "es = (if cb then [Status ''paired''] else []) @
      [ToPhone (BuildControlMessage token ''startStream'' start_stream_payload @ [newline]),
       ToPhone (BuildControlMessage token ''hello'' [] @ [newline])]"
    using assms(2-5) s by (auto simp: OnTcpControlMessage_def HandlePairingResult_def Let_def status_def tcp_send_def
        SendControlMessage_def)
  moreover have "\<exists>s''. WorkerLoop_turn P now us src d s' = Some ([Decode \<lparr>vf_frameId = hdr_frameId h,
          vf_timestampUs = hdr_timestampUs h, vf_isKeyframe = True, vf_data = b\<rparr>], s'')"
    if o: "open_packet (Decrypt P) None (Some d) (length d) = Some (h, b)" and len: "length d \<le> 1200"
      and h: "has_flag (hdr_flags h) FLAG_KEYFRAME" "hdr_fragmentIndex h = 0" "hdr_fragmentCount h = 1" for d h b
  proof -
    have "d \<noteq> []" using o by (auto simp: open_packet_def wire_simps)
    moreover have "fst (snd (PushPacket (Decrypt P) (Some d) (length d) (FrameReassembler_new True True))) =
        [FrameReady \<lparr>vf_frameId = hdr_frameId h, vf_timestampUs = hdr_timestampUs h,
          vf_isKeyframe = True, vf_data = b\<rparr>]"
      using o h
      by (simp add: PushPacket_def FrameReassembler_new_def Accept_def ReplayFilter_init_def deliver_def
          stale_def store_fragment_def pending_entry_def PendingFrame_default_def add_fragment_def
          frame_complete_def assemble_def fragment_at_def Let_def)
    ultimately show ?thesis using len s
      by (auto simp: WorkerLoop_turn_def s' OnUdpPacketReceived_def VEYRA_MAX_PACKET_SIZE_def on_frame_def
          PushFrame_def JitterBuffer_new_def Let_def split: prod.splits)
  qed
  ultimately show ?thesis using s(1) s' by simp
qed

theorem pairing_ok_skips_the_key_exchange_witness:
  "\<exists>es s'. OnTcpControlMessage demo_lib demo_inet [] (object_text [(''type'', ''pairing_ok''), (''token'', ''x'')])
      (snd (snd (ConnectDevice True ''10.0.0.5'' ''1234'' True (snd (Initialize Service_new))))) = (es, s') \<and>
     sv_pairingState s' = PAIRED \<and> hd es = Status ''paired'' \<and>
     es ! 2 = ToPhone (BuildControlMessage ''x'' ''hello'' [] @ [newline])"
proof -
  let ?m = "object_text [(''type'', ''pairing_ok''), (''token'', ''x'')]"
  let ?s = "snd (snd (ConnectDevice True ''10.0.0.5'' ''1234'' True (snd (Initialize Service_new))))"
  have m: "ExtractJsonString ?m ''type'' = ''pairing_ok''" "ExtractJsonString ?m ''token'' = ''x''" by code_simp+
  obtain es s' where r: "OnTcpControlMessage demo_lib demo_inet [] ?m ?s = (es, s')"
    by (cases "OnTcpControlMessage demo_lib demo_inet [] ?m ?s") auto
  have x: "''x'' \<noteq> []" by simp
  from pairing_ok_skips_the_key_exchange [OF refl m x r] r show ?thesis by simp
qed

end
