(* ===== verification/Json_Syntax.thy ===== *)
theory Json_Syntax
  imports Json_Text Number_Text "HOL-Library.Monad_Syntax"
begin

text \<open>
  JSON texts as their readers see them: a grammar of the texts without exponents, arrays, empty objects
  and escapes by number, which the two programs never write, a
  recursive descent reader for it, and the proof that the reader returns what the grammar derives, so
  that a text has one reading. The messages and reports that the program assembles piece by piece are
  shown to be texts of this grammar in the theories that build them.
\<close>

subsection \<open>Values and tokens\<close>

text \<open>A number is kept as its text. No text of the grammar below reads as one of the last two.\<close>

datatype json = JNumber string | JString string | JBool bool | JObject "(string \<times> json) list"
  | JArray "json list" | JNull

definition is_ws :: "char \<Rightarrow> bool" where
  "is_ws c \<longleftrightarrow> c \<in> {CHR 0x20, CHR 0x09, CHR 0x0A, CHR 0x0D}"

definition blank :: "string \<Rightarrow> bool" where
  "blank w \<longleftrightarrow> list_all is_ws w"

text \<open>Characters that stand for themselves inside a string.\<close>

definition plain_char :: "char \<Rightarrow> bool" where
  "plain_char c \<longleftrightarrow> c \<noteq> quote \<and> c \<noteq> CHR 0x5C \<and> 32 \<le> (of_char c :: nat)"

definition plain_text :: "string \<Rightarrow> bool" where
  "plain_text s \<longleftrightarrow> list_all plain_char s"

text \<open>A backslash stands before a character that cannot stand for itself; the slash may have one.\<close>

definition backslash :: char where
  "backslash = CHR 0x5C"

definition may_escape :: "char \<Rightarrow> bool" where
  "may_escape c \<longleftrightarrow> c \<in> {quote, backslash, CHR 0x2F}"

fun unescape :: "string \<Rightarrow> string option" where
  "unescape [] = Some []"
| "unescape (c # s) =
     (if c = backslash then
        (case s of [] \<Rightarrow> None
         | d # s' \<Rightarrow> if may_escape d then map_option ((#) d) (unescape s') else None)
      else if plain_char c then map_option ((#) c) (unescape s)
      else None)"

text \<open>The characters of a number, and which of their sequences are numbers.\<close>

definition number_char :: "char \<Rightarrow> bool" where
  "number_char c \<longleftrightarrow> is_digit c \<or> c = CHR 0x2D \<or> c = CHR 0x2E"

definition unsigned_number :: "string \<Rightarrow> bool" where
  "unsigned_number s \<longleftrightarrow>
     (let ip = takeWhile is_digit s; r = dropWhile is_digit s
      in ip \<noteq> [] \<and> (hd ip = CHR 0x30 \<longrightarrow> length ip = 1) \<and>
         (r = [] \<or> hd r = CHR 0x2E \<and> tl r \<noteq> [] \<and> list_all is_digit (tl r)))"

definition number_text :: "string \<Rightarrow> bool" where
  "number_text s \<longleftrightarrow> unsigned_number (if s \<noteq> [] \<and> hd s = CHR 0x2D then tl s else s)"

subsection \<open>The grammar\<close>

inductive reads :: "string \<Rightarrow> json \<Rightarrow> bool"
  and reads_members :: "string \<Rightarrow> (string \<times> json) list \<Rightarrow> bool"
where
  reads_number: "number_text s \<Longrightarrow> reads s (JNumber s)"
| reads_string: "unescape s = Some t \<Longrightarrow> reads (quote # s @ [quote]) (JString t)"
| reads_true: "reads ''true'' (JBool True)"
| reads_false: "reads ''false'' (JBool False)"
| reads_object: "reads_members s fs \<Longrightarrow> reads (CHR 0x7B # s @ ''}'') (JObject fs)"
| member_last: "blank w1 \<Longrightarrow> plain_text k \<Longrightarrow> blank w2 \<Longrightarrow> reads v x \<Longrightarrow> blank w3 \<Longrightarrow>
    reads_members (w1 @ json_key k @ w2 @ v @ w3) [(k, x)]"
| member_more: "blank w1 \<Longrightarrow> plain_text k \<Longrightarrow> blank w2 \<Longrightarrow> reads v x \<Longrightarrow> blank w3 \<Longrightarrow> reads_members s fs \<Longrightarrow>
    reads_members (w1 @ json_key k @ w2 @ v @ w3 @ CHR 0x2C # s) ((k, x) # fs)"

text \<open>Blanks before the first member are part of it.\<close>

lemma members_blank:
  assumes "reads_members s fs" and w: "blank w"
  shows "reads_members (w @ s) fs"
  using assms(1)
proof (cases rule: reads_members.cases)
  case (member_last w1 k w2 v x w3)
  then have "blank (w @ w1)" using w by (simp add: blank_def)
  from reads_reads_members.member_last [OF this member_last(4-7)] member_last(1,2) show ?thesis by simp
next
  case (member_more w1 k w2 v x w3 t fs)
  then have "blank (w @ w1)" using w by (simp add: blank_def)
  from reads_reads_members.member_more [OF this member_more(4-8)] member_more(1,2) show ?thesis by simp
qed

subsection \<open>The reader\<close>

definition skip_ws :: "string \<Rightarrow> string" where
  "skip_ws = dropWhile is_ws"

text \<open>The rest of a string behind its opening quote.\<close>

fun read_string :: "string \<Rightarrow> (string \<times> string) option" where
  "read_string [] = None"
| "read_string (c # s) =
     (if c = quote then Some ([], s)
      else if c = backslash then
        (case s of [] \<Rightarrow> None
         | d # s' \<Rightarrow> if may_escape d then map_option (apfst ((#) d)) (read_string s') else None)
      else if plain_char c then map_option (apfst ((#) c)) (read_string s)
      else None)"

definition read_number :: "string \<Rightarrow> (json \<times> string) option" where
  "read_number s =
     (let t = takeWhile number_char s
      in if number_text t then Some (JNumber t, dropWhile number_char s) else None)"

definition expect :: "char \<Rightarrow> string \<Rightarrow> string option" where
  "expect c s = (if s \<noteq> [] \<and> hd s = c then Some (tl s) else None)"

text \<open>The first argument bounds the depth and the number of members; the length of the text is enough.\<close>

fun read_value :: "nat \<Rightarrow> string \<Rightarrow> (json \<times> string) option"
  and read_members :: "nat \<Rightarrow> string \<Rightarrow> ((string \<times> json) list \<times> string) option"
where
  "read_value 0 s = None"
| "read_value (Suc n) s =
     (if take 1 s = [quote] then do { (t, r) \<leftarrow> read_string (tl s); Some (JString t, r) }
      else if take 4 s = ''true'' then Some (JBool True, drop 4 s)
      else if take 5 s = ''false'' then Some (JBool False, drop 5 s)
      else if take 1 s = ''{'' then do { (fs, r) \<leftarrow> read_members n (tl s); Some (JObject fs, r) }
      else read_number s)"
| "read_members 0 s = None"
| "read_members (Suc n) s = do {
     s \<leftarrow> expect quote (skip_ws s);
     (k, s) \<leftarrow> read_string s;
     s \<leftarrow> expect (CHR 0x3A) s;
     (x, s) \<leftarrow> read_value n (skip_ws s);
     let s = skip_ws s in
     if take 1 s = ''}'' then Some ([(k, x)], tl s)
     else do {
       s \<leftarrow> expect (CHR 0x2C) s;
       (fs, s) \<leftarrow> read_members n s;
       Some ((k, x) # fs, s)
     }
   }"

definition read_json :: "string \<Rightarrow> json option" where
  "read_json s =
     (case read_value (length s) (skip_ws s) of
        None \<Rightarrow> None
      | Some (x, r) \<Rightarrow> if skip_ws r = [] then Some x else None)"

subsection \<open>The reader follows the grammar\<close>

lemma skip_blank: "blank w \<Longrightarrow> skip_ws (w @ s) = skip_ws s"
  by (induction w) (auto simp: blank_def skip_ws_def)

lemma skip_solid: "s = [] \<or> \<not> is_ws (hd s) \<Longrightarrow> skip_ws s = s"
  by (cases s) (auto simp: skip_ws_def)

lemma read_string_escaped: "unescape s = Some t \<Longrightarrow> read_string (s @ quote # r) = Some (t, r)"
proof (induction s arbitrary: t rule: unescape.induct)
  case 1
  then show ?case by simp
next
  case (2 c s)
  have "c \<noteq> quote" using 2(3) by (auto simp: plain_char_def backslash_def quote_def split: if_splits)
  then show ?case
    using 2 by (cases s) (auto split: if_splits)
qed

lemma unescape_plain: "plain_text s \<Longrightarrow> unescape s = Some s"
  by (induction s) (auto simp: plain_text_def plain_char_def backslash_def)

lemma read_string_plain: "plain_text t \<Longrightarrow> read_string (t @ quote # r) = Some (t, r)"
  by (rule read_string_escaped [OF unescape_plain])

lemma unsigned_number_parts:
  assumes "unsigned_number s"
  obtains ip r where "s = ip @ r" "ip \<noteq> []" "list_all is_digit ip"
    "r = [] \<or> (\<exists>f. r = CHR 0x2E # f \<and> list_all is_digit f)"
proof
  let ?ip = "takeWhile is_digit s" and ?r = "dropWhile is_digit s"
  show "s = ?ip @ ?r" by simp
  show "list_all is_digit ?ip" by (auto simp: list_all_iff dest: set_takeWhileD)
  note n = assms [unfolded unsigned_number_def Let_def]
  show "?ip \<noteq> []" using n by blast
  show "?r = [] \<or> (\<exists>f. ?r = CHR 0x2E # f \<and> list_all is_digit f)"
    using n list.collapse [of ?r] by metis
qed

lemma digits_are_number_chars: "list_all is_digit s \<Longrightarrow> list_all number_char s"
  by (auto simp: list_all_iff number_char_def)

lemma unsigned_number_chars: "unsigned_number s \<Longrightarrow> list_all number_char s \<and> s \<noteq> [] \<and> is_digit (hd s)"
proof (erule unsigned_number_parts)
  fix ip r
  assume "s = ip @ r" "ip \<noteq> []" "list_all is_digit ip"
    "r = [] \<or> (\<exists>f. r = CHR 0x2E # f \<and> list_all is_digit f)"
  then show ?thesis
    using digits_are_number_chars by (cases ip) (auto simp: number_char_def)
qed

lemma number_text_chars: "number_text s \<Longrightarrow> list_all number_char s \<and> s \<noteq> [] \<and> (is_digit (hd s) \<or> hd s = CHR 0x2D)"
  using unsigned_number_chars [of s] unsigned_number_chars [of "tl s"]
  by (cases s) (auto simp: number_text_def number_char_def split: if_splits)

text \<open>What may follow a value.\<close>

definition ends_value :: "string \<Rightarrow> bool" where
  "ends_value r \<longleftrightarrow> r = [] \<or> \<not> number_char (hd r)"

lemma read_number_text: "number_text s \<Longrightarrow> ends_value r \<Longrightarrow> read_number (s @ r) = Some (JNumber s, r)"
proof -
  assume s: "number_text s" and r: "ends_value r"
  have all: "\<forall>c \<in> set s. number_char c" using number_text_chars [OF s] by (simp add: list_all_iff)
  have "takeWhile number_char r = []" "dropWhile number_char r = r"
    using r by (cases r; simp add: ends_value_def)+
  with all have "takeWhile number_char (s @ r) = s" "dropWhile number_char (s @ r) = r"
    by (simp_all add: takeWhile_append2 dropWhile_append2)
  with s show ?thesis by (simp add: read_number_def)
qed

subsection \<open>The reader is complete\<close>

text \<open>A value starts with a character that is no blank, and only a value of its kind with that character.\<close>

lemma number_char_facts:
  "number_char c \<Longrightarrow> c \<noteq> quote \<and> c \<noteq> CHR 0x7B \<and> c \<noteq> CHR 0x74 \<and> c \<noteq> CHR 0x66 \<and> \<not> is_ws c"
  by (auto simp: number_char_def is_digit_def quote_def is_ws_def)

lemma quote_facts [simp]: "quote \<noteq> CHR 0x7D" "quote \<noteq> CHR 0x74" "quote \<noteq> CHR 0x66" "CHR 0x74 \<noteq> quote"
  "CHR 0x66 \<noteq> quote" "CHR 0x7B \<noteq> quote" "quote \<noteq> CHR 0x7B" "\<not> is_ws quote"
  by (simp_all add: quote_def is_ws_def)

lemma punctuation_facts [simp]:
  "\<not> is_ws (CHR 0x7D)" "\<not> is_ws (CHR 0x2C)" "\<not> is_ws (CHR 0x7B)" "\<not> is_ws (CHR 0x74)" "\<not> is_ws (CHR 0x66)"
  "\<not> number_char (CHR 0x7D)" "\<not> number_char (CHR 0x2C)"
  by (simp_all add: is_ws_def number_char_def is_digit_def)

lemma number_text_head: "number_text s \<Longrightarrow> \<exists>c t. s = c # t \<and> number_char c"
  using number_text_chars [of s] by (cases s) auto

lemma reads_head: "reads s x \<Longrightarrow> \<exists>c t. s = c # t \<and> \<not> is_ws c"
  by (erule reads.cases) (auto dest!: number_text_head number_char_facts)

fun need :: "json \<Rightarrow> nat" and need_members :: "(string \<times> json) list \<Rightarrow> nat" where
  "need (JObject fs) = Suc (need_members fs)"
| "need x = 1"
| "need_members [] = 0"
| "need_members ((k, x) # fs) = Suc (max (need x) (need_members fs))"

lemma json_key_append: "json_key k @ s = quote # k @ quote # CHR 0x3A # s"
  by (simp add: json_key_def)

lemma need_le:
  "reads s x \<Longrightarrow> need x \<le> length s"
  "reads_members s fs \<Longrightarrow> need_members fs \<le> length s"
proof (induction rule: reads_reads_members.inducts)
  case (reads_number s)
  then show ?case using number_text_chars [of s] by (cases s) auto
qed (auto simp: json_key_def)

lemma read_value_number:
  assumes "number_text s" "ends_value r" "0 < n"
  shows "read_value n (s @ r) = Some (JNumber s, r)"
proof -
  obtain c t where s: "s = c # t" "number_char c"
    using number_text_chars [OF assms(1)] by (cases s) auto
  then have "c \<noteq> quote" "c \<noteq> CHR 0x7B" "c \<noteq> CHR 0x74" "c \<noteq> CHR 0x66" using number_char_facts by blast+
  with s read_number_text [OF assms(1,2)] assms(3) show ?thesis by (cases n) simp_all
qed

lemma ends_value_simps [simp]: "ends_value []" "ends_value (c # s) \<longleftrightarrow> \<not> number_char c"
  by (simp_all add: ends_value_def)

lemma ends_after_blank: "blank w \<Longrightarrow> \<not> number_char c \<Longrightarrow> ends_value (w @ c # s)"
  by (cases w) (auto simp: blank_def dest: number_char_facts)

lemma reader_complete:
  "reads s x \<Longrightarrow> need x \<le> n \<Longrightarrow> ends_value r \<Longrightarrow> read_value n (s @ r) = Some (x, r)"
  "reads_members s fs \<Longrightarrow> need_members fs \<le> n \<Longrightarrow> read_members n (s @ CHR 0x7D # r) = Some (fs, r)"
proof (induction arbitrary: n r and n r rule: reads_reads_members.inducts)
  case (reads_number s)
  then show ?case by (simp add: read_value_number)
next
  case (reads_string s t)
  then show ?case by (cases n) (simp_all add: read_string_escaped)
next
  case reads_true
  then show ?case by (cases n) simp_all
next
  case reads_false
  then show ?case by (cases n) simp_all
next
  case (reads_object s fs)
  then obtain m where n: "n = Suc m" "need_members fs \<le> m" by (cases n) auto
  with reads_object.IH [OF n(2), of r] show ?case by simp
next
  case (member_last w1 k w2 v x w3)
  then obtain m where n: "n = Suc m" "need x \<le> m" by (cases n) auto
  have "ends_value (w3 @ CHR 0x7D # r)"
    using member_last.hyps by (intro ends_after_blank) simp_all
  note IH = member_last.IH [OF n(2) this]
  obtain c t where "v = c # t" "\<not> is_ws c" using reads_head member_last.hyps by blast
  with IH member_last.hyps show ?case
    by (simp add: n json_key_append skip_blank skip_solid expect_def read_string_plain)
next
  case (member_more w1 k w2 v x w3 s fs)
  then obtain m where n: "n = Suc m" "need x \<le> m" "need_members fs \<le> m" by (cases n) auto
  have "ends_value (w3 @ CHR 0x2C # s @ CHR 0x7D # r)"
    using member_more.hyps by (intro ends_after_blank) simp_all
  note IH = member_more.IH(1) [OF n(2) this] member_more.IH(2) [OF n(3), of r]
  obtain c t where "v = c # t" "\<not> is_ws c" using reads_head member_more.hyps by blast
  with IH member_more.hyps show ?case
    by (simp add: n json_key_append skip_blank skip_solid expect_def read_string_plain)
qed

text \<open>A derived text is read, as the derived value, with blanks around it.\<close>

lemma read_json_complete:
  assumes "reads s x" "blank w"
  shows "read_json (s @ w) = Some x"
proof -
  have "skip_ws (s @ w) = s @ w" using reads_head [OF assms(1)] by (intro skip_solid) auto
  moreover have "ends_value w"
    using assms(2) by (cases w) (auto simp: blank_def dest: number_char_facts)
  moreover have "need x \<le> length (s @ w)" using need_le(1) [OF assms(1)] by simp
  moreover have "skip_ws w = []" using skip_blank [OF assms(2), of "[]"] by (simp add: skip_ws_def)
  ultimately show ?thesis using reader_complete(1) [OF assms(1)] by (simp add: read_json_def)
qed

corollary one_reading: "reads s x \<Longrightarrow> reads s y \<Longrightarrow> x = y"
  using read_json_complete [of s x "[]"] read_json_complete [of s y "[]"] by (simp add: blank_def)

subsection \<open>The numbers the program writes\<close>

lemma digit_zero: "d < 10 \<Longrightarrow> digit d = CHR 0x30 \<longleftrightarrow> d = 0"
proof -
  assume d: "d < 10"
  have "digit d = CHR 0x30 \<longleftrightarrow> (of_char (digit d) :: nat) = of_char CHR 0x30" by (simp only: of_char_eq_iff)
  also have "\<dots> \<longleftrightarrow> d = 0" using d by (simp add: digit_value)
  finally show ?thesis .
qed

text \<open>No number has a leading zero.\<close>

lemma nat_text_leading: "hd (nat_text n) = CHR 0x30 \<longleftrightarrow> n = 0"
proof (induction n rule: nat_text.induct)
  case (1 n)
  show ?case
  proof (cases "n < 10")
    case True
    then show ?thesis by (simp add: nat_text.simps [of n] digit_zero)
  next
    case False
    moreover have "hd (nat_text (n div 10) @ s) = hd (nat_text (n div 10))" for s
      using nat_text_digits [of "n div 10"] by simp
    ultimately show ?thesis using 1 by (simp add: nat_text.simps [of n])
  qed
qed

lemma unsigned_number_decimal:
  assumes "r = [] \<or> (\<exists>f. r = CHR 0x2E # f \<and> f \<noteq> [] \<and> list_all is_digit f)"
  shows "unsigned_number (nat_text n @ r)"
proof -
  have d: "list_all is_digit (nat_text n)" "nat_text n \<noteq> []" using nat_text_digits [of n] by auto
  have r: "takeWhile is_digit r = []" "dropWhile is_digit r = r"
    using assms by (auto simp: is_digit_def)
  then have p: "takeWhile is_digit (nat_text n @ r) = nat_text n" "dropWhile is_digit (nat_text n @ r) = r"
    using d(1) by (auto simp: list_all_iff takeWhile_append2 dropWhile_append2)
  have "length (nat_text n) = 1" if "hd (nat_text n) = CHR 0x30"
    using that by (simp add: nat_text_leading nat_text.simps [of 0])
  then show ?thesis unfolding unsigned_number_def Let_def p using d(2) assms by auto
qed

lemma number_text_decimal:
  assumes "r = [] \<or> (\<exists>f. r = CHR 0x2E # f \<and> f \<noteq> [] \<and> list_all is_digit f)"
  shows "number_text (nat_text n @ r)" "number_text (CHR 0x2D # nat_text n @ r)"
proof -
  have "hd (nat_text n @ r) \<noteq> CHR 0x2D" using nat_text_digits [of n] nat_text_scan(3) [of n] by simp
  then show "number_text (nat_text n @ r)" "number_text (CHR 0x2D # nat_text n @ r)"
    using unsigned_number_decimal [OF assms] by (auto simp: number_text_def)
qed

lemma number_text_nat: "number_text (nat_text n)"
  using number_text_decimal(1) [of "[]" n] by simp

lemma number_text_int: "number_text (int_text i)"
  using number_text_decimal [of "[]" "nat (- i)"] by (auto simp: int_text_def number_text_nat)

lemma number_text_fixed: "0 < d \<Longrightarrow> number_text (fixed_text d (Finite x))"
proof -
  assume d: "0 < d"
  define k where "k = nat (round_half_even (\<bar>x\<bar> * 10 ^ d))"
  define f where "f = pad d (nat_text (k mod 10 ^ d))"
  have "list_all is_digit f" "f \<noteq> []"
    using nat_text_digits [of "k mod 10 ^ d"] by (auto simp: f_def pad_def list_all_iff is_digit_def)
  then show ?thesis
    using d number_text_decimal [of "CHR 0x2E # f" "k div 10 ^ d"] by (auto simp: Let_def simp flip: k_def f_def)
qed

text \<open>No number stands for the other floating point values.\<close>

lemma no_reading:
  assumes "take 1 s = [c]" "c \<notin> {quote, CHR 0x7B, CHR 0x74, CHR 0x66}" "\<not> number_char c"
  shows "read_value n s = None"
proof -
  obtain t where s: "s = c # t" using assms(1) by (cases s) auto
  then have "take 4 s \<noteq> ''true''" "take 5 s \<noteq> ''false''" using assms(2) by auto
  moreover have "\<not> number_text []" by (simp add: number_text_def unsigned_number_def)
  ultimately show ?thesis using assms s by (cases n) (auto simp: read_number_def)
qed

end
