(* ===== verification/Telemetry_Report.thy ===== *)
theory Telemetry_Report
  imports Telemetry Json_Syntax Control_Link
begin

text \<open>
  The telemetry report as text: \<open>TelemetryCollector::ToJsonString\<close> of
  \<open>native/core/src/telemetry.cpp\<close>, and its copy into the fixed buffer of the C interface,
  \<open>veyra_core_get_telemetry_json\<close> of \<open>native/windows/ipc/veyra_ffi_export.cpp\<close>. The lemmas bound the
  length of the decimal texts.
\<close>

subsection \<open>The code\<close>

text \<open>One line of the report: \<open>"key": value\<close> and what ends it.\<close>

definition report_line :: "nat \<Rightarrow> string \<Rightarrow> string \<Rightarrow> string \<Rightarrow> string" where
  "report_line indent key val ending =
     replicate indent (CHR 0x20) @ json_key key @ '' '' @ val @ ending @ [newline]"

text \<open>A \<open>float\<close> is printed in fixed notation with one decimal.\<close>

definition ToJsonString :: "u8 \<Rightarrow> u8 \<Rightarrow> Telemetry \<Rightarrow> string" where
  "ToJsonString activeTransport activeProfile t =
     (let stats = GetCurrentStatsPayload activeTransport activeProfile t;
          bd = GetAverageLatencyBreakdown t
      in ''{'' @ [newline] @
         report_line 2 ''fps'' (fixed_text 1 (st_fps stats)) '','' @
         report_line 2 ''bitrate_bps'' (nat_text (unat (st_bitrateBps stats))) '','' @
         report_line 2 ''latency_ms'' (fixed_text 1 (st_latencyMs stats)) '','' @
         report_line 2 ''packet_loss_pct'' (fixed_text 1 (st_packetLossPercent stats)) '','' @
         report_line 2 ''battery_pct'' (nat_text (unat (st_batteryPercent stats))) '','' @
         report_line 2 ''temperature_c'' (int_text (sint (st_temperatureCelsius stats))) '','' @
         report_line 2 ''breakdown'' ''{'' [] @
         report_line 4 ''capture_to_encode_ms'' (fixed_text 1 (captureToEncodeMs bd)) '','' @
         report_line 4 ''network_transit_ms'' (fixed_text 1 (networkTransitMs bd)) '','' @
         report_line 4 ''jitter_delay_ms'' (fixed_text 1 (jitterBufferDelayMs bd)) '','' @
         report_line 4 ''decode_ms'' (fixed_text 1 (decodeDurationMs bd)) '','' @
         report_line 4 ''present_ms'' (fixed_text 1 (presentationDelayMs bd)) [] @
         ''  }'' @ [newline] @ ''}'')"

definition kTelemetryBuffer :: nat where
  "kTelemetryBuffer = 4096"

text \<open>What is copied into the buffer, with the terminating NUL.\<close>

definition veyra_core_get_telemetry_json :: "string \<Rightarrow> string" where
  "veyra_core_get_telemetry_json json =
     (let json = (if kTelemetryBuffer \<le> length json then take (kTelemetryBuffer - 1) json else json)
      in json @ [CHR 0x00])"

subsection \<open>Lengths of decimal texts\<close>

lemma nat_text_length: "n < 10 ^ k \<Longrightarrow> 0 < k \<Longrightarrow> length (nat_text n) \<le> k"
proof (induction k arbitrary: n)
  case 0
  then show ?case by simp
next
  case (Suc k)
  show ?case
  proof (cases "n < 10")
    case True
    then show ?thesis by (simp add: nat_text.simps [of n])
  next
    case False
    then have "0 < k" using Suc.prems(1) by (cases k) auto
    moreover have "n div 10 < 10 ^ k"
      using Suc.prems(1) by (intro less_mult_imp_div_less) (simp add: mult.commute)
    ultimately
    show ?thesis using Suc.IH [of "n div 10"] False by (simp add: nat_text.simps [of n])
  qed
qed

text \<open>Values of type \<open>float\<close>.\<close>

fun f_single :: "flt \<Rightarrow> bool" where
  "f_single (Finite x) \<longleftrightarrow> \<bar>x\<bar> < 2 ^ 128"
| "f_single y \<longleftrightarrow> True"

lemma mk_flt_single: "f_single (mk_flt binary32 x)"
proof -
  have "(2 :: rat) powi (emax binary32 + 1) = 2 ^ 128" by (simp add: binary32_def power_int_def)
  then show ?thesis by (auto simp: mk_flt_def Let_def)
qed

lemma f_single_of_nat: "f_single (f_of_nat binary32 n)"
  by (simp add: f_of_nat_def mk_flt_single del: f_single.simps(1))

lemma f_single_narrow: "f_single (f_narrow binary32 x)"
  by (cases x) (simp_all add: mk_flt_single del: f_single.simps(1))

lemma f_single_zero: "f_single (Finite 0)"
  by simp

lemma f_single_scale: "f_single x \<Longrightarrow> f_single (f_scale binary32 c x)"
  by (cases x) (simp_all add: mk_flt_single del: f_single.simps(1))

lemma f_single_div: "f_single x \<Longrightarrow> f_single (f_div binary32 x y)"
  by (cases x; cases y) (simp_all add: mk_flt_single)

lemmas f_singles = f_single_of_nat f_single_narrow f_single_zero f_single_scale f_single_div

lemma fixed_text_length:
  assumes "f_single x"
  shows "length (fixed_text 1 x) \<le> 43"
proof (cases x)
  case (Finite y)
  let ?k = "nat (round_half_even (\<bar>y\<bar> * 10))"
  have "\<bar>y\<bar> * 10 \<le> of_int (10 ^ 40)" using assms Finite by simp
  then have "round_half_even (\<bar>y\<bar> * 10) \<le> 10 ^ 40" by (rule round_half_even_le)
  then have "?k div 10 < 10 ^ 40" by simp
  then have "length (nat_text (?k div 10)) \<le> 40" by (rule nat_text_length) simp
  moreover have "length (nat_text (?k mod 10)) \<le> 1" by (rule nat_text_length) simp_all
  moreover have "fixed_text 1 x =
      (if y < 0 then ''-'' else []) @ nat_text (?k div 10) @ ''.'' @ pad 1 (nat_text (?k mod 10))"
    by (simp add: Finite Let_def)
  moreover have "length (if y < 0 then ''-'' else []) \<le> 1" by simp
  ultimately show ?thesis by (simp only: length_append pad_def length_replicate) simp
qed simp_all

lemma stats_single:
  "f_single (st_fps (GetCurrentStatsPayload tr pr t))"
  "f_single (st_latencyMs (GetCurrentStatsPayload tr pr t))"
  "f_single (st_packetLossPercent (GetCurrentStatsPayload tr pr t))"
  "f_single (captureToEncodeMs (GetAverageLatencyBreakdown t))"
  "f_single (networkTransitMs (GetAverageLatencyBreakdown t))"
  "f_single (jitterBufferDelayMs (GetAverageLatencyBreakdown t))"
  "f_single (decodeDurationMs (GetAverageLatencyBreakdown t))"
  "f_single (presentationDelayMs (GetAverageLatencyBreakdown t))"
  by (simp_all only: GetCurrentStatsPayload_def Let_def TelemetryStatsPayload.simps packet_loss_percent_def
      GetAverageLatencyBreakdown_def ComputeLatencyBreakdownLocked_def no_latency_def average_stage_def
      LatencyBreakdown.simps f_singles split: if_split) simp_all

lemma int8_length: "length (int_text (sint (c :: 8 word))) \<le> 4"
proof -
  have "- 128 \<le> sint c" "sint c < 128" using sint_greater_eq [of c] sint_less [of c] by simp_all
  then have "nat \<bar>sint c\<bar> < 10 ^ 3" by simp
  then have "length (nat_text (nat \<bar>sint c\<bar>)) \<le> 3" by (rule nat_text_length) simp
  then show ?thesis by (auto simp: int_text_def)
qed

lemma line_length: "length (report_line i k v e) = i + length k + length v + length e + 5"
  by (simp add: report_line_def json_key_def)

subsection \<open>The report as a value\<close>

lemma report_blanks: "blank (replicate i (CHR 0x20))" "blank [newline]" "blank '' ''" "blank []"
  by (simp_all add: blank_def is_ws_def newline_def list_all_iff)

lemma report_line_reads:
  assumes "plain_text k" "reads v x" "reads_members s fs"
  shows "reads_members (report_line i k v '','' @ s) ((k, x) # fs)"
  using member_more [OF report_blanks(1) assms(1) report_blanks(3) assms(2) report_blanks(4)
      members_blank [OF assms(3) report_blanks(2)], of i]
  by (simp add: report_line_def)

lemma report_last_reads:
  assumes "plain_text k" "reads v x" "blank w"
  shows "reads_members (report_line i k v [] @ w) [(k, x)]"
proof -
  have "blank (newline # w)" using assms(3) report_blanks(2) by (simp add: blank_def)
  from member_last [OF report_blanks(1) assms(1) report_blanks(3) assms(2) this] show ?thesis
    by (simp add: report_line_def)
qed

lemma report_keys:
  "plain_text ''fps''" "plain_text ''bitrate_bps''" "plain_text ''latency_ms''" "plain_text ''packet_loss_pct''"
  "plain_text ''battery_pct''" "plain_text ''temperature_c''" "plain_text ''breakdown''"
  "plain_text ''capture_to_encode_ms''" "plain_text ''network_transit_ms''" "plain_text ''jitter_delay_ms''"
  "plain_text ''decode_ms''" "plain_text ''present_ms''"
  by (simp_all add: plain_text_def plain_char_def quote_def)

lemma reads_figure: "f_upto n y \<Longrightarrow> reads (fixed_text 1 y) (JNumber (fixed_text 1 y))"
  by (intro reads_number) (auto dest!: f_upto_Finite intro: number_text_fixed simp del: fixed_text.simps)

definition report_value :: "TelemetryStatsPayload \<Rightarrow> LatencyBreakdown \<Rightarrow> json" where
  "report_value stats bd = JObject
     [(''fps'', JNumber (fixed_text 1 (st_fps stats))),
      (''bitrate_bps'', JNumber (nat_text (unat (st_bitrateBps stats)))),
      (''latency_ms'', JNumber (fixed_text 1 (st_latencyMs stats))),
      (''packet_loss_pct'', JNumber (fixed_text 1 (st_packetLossPercent stats))),
      (''battery_pct'', JNumber (nat_text (unat (st_batteryPercent stats)))),
      (''temperature_c'', JNumber (int_text (sint (st_temperatureCelsius stats)))),
      (''breakdown'', JObject
        [(''capture_to_encode_ms'', JNumber (fixed_text 1 (captureToEncodeMs bd))),
         (''network_transit_ms'', JNumber (fixed_text 1 (networkTransitMs bd))),
         (''jitter_delay_ms'', JNumber (fixed_text 1 (jitterBufferDelayMs bd))),
         (''decode_ms'', JNumber (fixed_text 1 (decodeDurationMs bd))),
         (''present_ms'', JNumber (fixed_text 1 (presentationDelayMs bd)))])]"

lemma breakdown_reads:
  assumes "reads a x1" "reads b x2" "reads c x3" "reads d x4" "reads e x5"
  shows "reads_members (report_line 2 ''breakdown'' ''{'' [] @
      report_line 4 ''capture_to_encode_ms'' a '','' @ report_line 4 ''network_transit_ms'' b '','' @
      report_line 4 ''jitter_delay_ms'' c '','' @ report_line 4 ''decode_ms'' d '','' @
      report_line 4 ''present_ms'' e [] @ ''  }'' @ [newline])
    [(''breakdown'', JObject [(''capture_to_encode_ms'', x1), (''network_transit_ms'', x2),
       (''jitter_delay_ms'', x3), (''decode_ms'', x4), (''present_ms'', x5)])]"
proof -
  have "reads_members (report_line 4 ''present_ms'' e [] @ ''  '') [(''present_ms'', x5)]"
    using assms(5) report_keys by (intro report_last_reads) (simp_all add: blank_def is_ws_def)
  then have "reads_members (report_line 4 ''capture_to_encode_ms'' a '','' @ report_line 4 ''network_transit_ms'' b '','' @
      report_line 4 ''jitter_delay_ms'' c '','' @ report_line 4 ''decode_ms'' d '','' @
      report_line 4 ''present_ms'' e [] @ ''  '')
    [(''capture_to_encode_ms'', x1), (''network_transit_ms'', x2),
       (''jitter_delay_ms'', x3), (''decode_ms'', x4), (''present_ms'', x5)]"
    using assms report_keys by (intro report_line_reads)
  from reads_object [OF members_blank [OF this report_blanks(2)]]
  have "reads (CHR 0x7B # ([newline] @ report_line 4 ''capture_to_encode_ms'' a '','' @
      report_line 4 ''network_transit_ms'' b '','' @ report_line 4 ''jitter_delay_ms'' c '','' @
      report_line 4 ''decode_ms'' d '','' @ report_line 4 ''present_ms'' e [] @ ''  '') @ ''}'')
    (JObject [(''capture_to_encode_ms'', x1), (''network_transit_ms'', x2),
       (''jitter_delay_ms'', x3), (''decode_ms'', x4), (''present_ms'', x5)])" .
  from member_last [OF report_blanks(1) report_keys(7) report_blanks(3) this report_blanks(2), of 2]
  show ?thesis by (simp add: report_line_def)
qed

lemma report_reads:
  assumes "length (tm_timingHistory t) \<le> 120"
  shows "reads (ToJsonString tr pr t) (report_value (GetCurrentStatsPayload tr pr t) (GetAverageLatencyBreakdown t))"
proof -
  let ?s = "GetCurrentStatsPayload tr pr t" and ?b = "GetAverageLatencyBreakdown t"
  note fig = figures_upto(1-5) [OF assms refl refl, THEN reads_figure]
    figures_upto(6-8) [OF assms refl refl, of tr pr, THEN reads_figure]
  from breakdown_reads [OF fig(1-5)] have "reads_members
      (report_line 2 ''fps'' (fixed_text 1 (st_fps ?s)) '','' @
       report_line 2 ''bitrate_bps'' (nat_text (unat (st_bitrateBps ?s))) '','' @
       report_line 2 ''latency_ms'' (fixed_text 1 (st_latencyMs ?s)) '','' @
       report_line 2 ''packet_loss_pct'' (fixed_text 1 (st_packetLossPercent ?s)) '','' @
       report_line 2 ''battery_pct'' (nat_text (unat (st_batteryPercent ?s))) '','' @
       report_line 2 ''temperature_c'' (int_text (sint (st_temperatureCelsius ?s))) '','' @
       report_line 2 ''breakdown'' ''{'' [] @
       report_line 4 ''capture_to_encode_ms'' (fixed_text 1 (captureToEncodeMs ?b)) '','' @
       report_line 4 ''network_transit_ms'' (fixed_text 1 (networkTransitMs ?b)) '','' @
       report_line 4 ''jitter_delay_ms'' (fixed_text 1 (jitterBufferDelayMs ?b)) '','' @
       report_line 4 ''decode_ms'' (fixed_text 1 (decodeDurationMs ?b)) '','' @
       report_line 4 ''present_ms'' (fixed_text 1 (presentationDelayMs ?b)) [] @ ''  }'' @ [newline])
    (case report_value ?s ?b of JObject fs \<Rightarrow> fs)" (is "reads_members ?text _")
    unfolding report_value_def json.case
    by (intro report_line_reads report_keys fig reads_number number_text_nat number_text_int)
  from reads_object [OF members_blank [OF this report_blanks(2)]]
  have "reads (CHR 0x7B # ([newline] @ ?text) @ ''}'') (report_value ?s ?b)" by (simp add: report_value_def)
  then show ?thesis by (simp only: ToJsonString_def Let_def append.simps append_assoc)
qed

subsection \<open>Properties\<close>

text \<open>The report is never cut: whatever the collector has recorded, the text of its report is
  shorter than the buffer of the C interface, so the caller receives the whole report and one
  terminating NUL.\<close>

theorem telemetry_report_is_complete:
  "length (ToJsonString tr pr t) < kTelemetryBuffer \<and>
   veyra_core_get_telemetry_json (ToJsonString tr pr t) = ToJsonString tr pr t @ [CHR 0x00]"
proof -
  note fixed = stats_single(1-3) [THEN fixed_text_length, of tr pr t] stats_single(4-8) [THEN fixed_text_length, of t]
  let ?s = "GetCurrentStatsPayload tr pr t"
  have "length (nat_text (unat (st_bitrateBps ?s))) \<le> 10"
    using unsigned_less [of "st_bitrateBps ?s", where 'a = nat] by (intro nat_text_length) simp_all
  moreover have "length (nat_text (unat (st_batteryPercent ?s))) \<le> 3"
    using unsigned_less [of "st_batteryPercent ?s", where 'a = nat] by (intro nat_text_length) simp_all
  moreover have "length (int_text (sint (st_temperatureCelsius ?s))) \<le> 4"
    by (rule int8_length)
  ultimately have "length (ToJsonString tr pr t) < kTelemetryBuffer"
    using fixed
    by (simp add: ToJsonString_def Let_def line_length kTelemetryBuffer_def)
  then show ?thesis by (simp add: veyra_core_get_telemetry_json_def)
qed

text \<open>C34. The report is JSON and complete: whatever calls the collector has had, a JSON reader takes its
  report as one object with exactly the documented members, the last one an object too, and every
  figure a number: no sum, average or percentage is ever infinite or not a number, however large the
  counters, and no integer has a leading zero.\<close>

theorem telemetry_report_is_json:
  "read_json (ToJsonString tr pr (tm_run ops)) =
     Some (report_value (GetCurrentStatsPayload tr pr (tm_run ops)) (GetAverageLatencyBreakdown (tm_run ops)))"
  using read_json_complete [OF report_reads [OF timing_history_bounded], of "[]"] by (simp add: blank_def)

end
