(* ===== verification/Mobile_Sender.thy ===== *)
theory Mobile_Sender
  imports Sender Telemetry_Report
begin

text \<open>
  The sender of the Android application, \<open>NativeSenderContext\<close> of
  \<open>apps/veyracam/android/app/src/main/cpp/veyra_jni_bridge.cpp\<close>, and its JNI entry points: pairing
  in the server role, sending of video and audio, telemetry. The context and its packetizer share
  the key object of a completed pairing: the objects are a store, a \<open>shared_ptr\<close> is a position
  in it. Sockets are arguments and the datagrams handed to \<open>sendto\<close> are results.
\<close>

subsection \<open>State\<close>

record NativeSender =
  ns_sessionId :: u32
  ns_packetizer :: "nat Packetizer"
  ns_telemetry :: Telemetry
  ns_frameCounter :: u32
  ns_audioCounter :: u32
  ns_pendingKeys :: KeyPair
  ns_crypto :: "nat option"
  ns_udpSocket :: int
  ns_udpHost :: string
  ns_udpPort :: int
  ns_udpAddr :: "u16 \<times> u32"
  ns_objects :: "SessionCrypto list"

definition NativeSender_new :: "u32 \<Rightarrow> NativeSender" where
  "NativeSender_new sessionId = \<lparr>ns_sessionId = sessionId, ns_packetizer = Packetizer_new sessionId,
     ns_telemetry = Telemetry_new, ns_frameCounter = 0, ns_audioCounter = 0,
     ns_pendingKeys = zero_pair, ns_crypto = None, ns_udpSocket = -1, ns_udpHost = [], ns_udpPort = 0,
     ns_udpAddr = (0, 0), ns_objects = []\<rparr>"

text \<open>Sealing with the object that the packetizer refers to.\<close>

definition seal_at ::
  "('ctx, 'mpi, 'point) mbedtls \<Rightarrow> SessionCrypto list \<Rightarrow> nat \<Rightarrow> bytes option \<Rightarrow> nat \<Rightarrow> u32 \<Rightarrow> bytes \<Rightarrow>
     nat \<times> bytes" where
  "seal_at P objects r = Encrypt P (objects ! r)"

subsection \<open>The destination\<close>

definition CloseUdp :: "NativeSender \<Rightarrow> NativeSender" where
  "CloseUdp s = (if 0 \<le> ns_udpSocket s then s\<lparr>ns_udpSocket := -1\<rparr> else s)"

text \<open>\<open>fd\<close> is what \<open>socket\<close> returns, \<open>inet\<close> is \<open>inet_pton\<close>; the port is cut to 16 bits.\<close>

definition ConfigureUdp ::
  "int \<Rightarrow> (string \<Rightarrow> u32 option) \<Rightarrow> string \<Rightarrow> int \<Rightarrow> NativeSender \<Rightarrow> bool \<times> NativeSender" where
  "ConfigureUdp fd inet host port s =
     (let s = (CloseUdp s)\<lparr>ns_udpSocket := fd\<rparr> in
      if fd < 0 then (False, s)
      else
        let s = s\<lparr>ns_udpAddr := (of_int port, snd (ns_udpAddr s))\<rparr> in
        case inet host of
          None \<Rightarrow> (False, s\<lparr>ns_udpSocket := -1\<rparr>)
        | Some a \<Rightarrow> (True, s\<lparr>ns_udpAddr := (of_int port, a), ns_udpHost := host, ns_udpPort := port\<rparr>))"

subsection \<open>Pairing\<close>

definition BeginPairing ::
  "('ctx, 'mpi, 'point) mbedtls \<Rightarrow> bytes \<Rightarrow> NativeSender \<Rightarrow> string \<times> NativeSender" where
  "BeginPairing P entropy s =
     (let keys = GenerateKeyPair P entropy
      in (Base64Encode P (publicKey keys),
          s\<lparr>ns_pendingKeys := keys, ns_crypto := Some (length (ns_objects s)),
            ns_objects := ns_objects s @ [SessionCrypto_new]\<rparr>))"

definition CompletePairing ::
  "('ctx, 'mpi, 'point) mbedtls \<Rightarrow> string \<Rightarrow> NativeSender \<Rightarrow> bool \<times> NativeSender" where
  "CompletePairing P clientPubKeyB64 s =
     (case ns_crypto s of
        None \<Rightarrow> (False, s)
      | Some r \<Rightarrow>
          let clientPub = Base64Decode P clientPubKeyB64 in
          if length clientPub \<noteq> VEYRA_PUBLIC_KEY_SIZE then (False, s)
          else
            let (ok, c) = DeriveSessionKeys P True (Some clientPub) (Some (publicKey (ns_pendingKeys s)))
                            (Some (privateKey (ns_pendingKeys s))) (ns_objects s ! r)
            in if \<not> ok \<or> \<not> IsKeySet c then
                 (False, s\<lparr>ns_objects := (ns_objects s)[r := crypto_Reset c], ns_crypto := None\<rparr>)
               else
                 (True, s\<lparr>ns_objects := (ns_objects s)[r := c],
                          ns_packetizer := pkt_SetCrypto (Some r) (ns_packetizer s)\<rparr>))"

subsection \<open>Sending\<close>

text \<open>The clock is read once per datagram: \<open>clock i\<close> is its \<open>i\<close>th reading.\<close>

fun record_sent :: "(nat \<Rightarrow> u64) \<Rightarrow> nat \<Rightarrow> bytes list \<Rightarrow> Telemetry \<Rightarrow> Telemetry" where
  "record_sent clock i [] t = t"
| "record_sent clock i (p # ps) t =
     record_sent clock (i + 1) ps (RecordBytesReceived (clock i) (of_nat (length p)) t)"

definition SendVideoNal ::
  "('ctx, 'mpi, 'point) mbedtls \<Rightarrow> (nat \<Rightarrow> u64) \<Rightarrow> bytes \<Rightarrow> bool \<Rightarrow> u64 \<Rightarrow> NativeSender \<Rightarrow>
     bytes list \<times> NativeSender" where
  "SendVideoNal P clock nal isKeyframe timestampUs s =
     (if nal = [] then ([], s)
      else
        let s = s\<lparr>ns_frameCounter := ns_frameCounter s + 1\<rparr>;
            (packets, pk) = PacketizeFrame (seal_at P (ns_objects s)) (Some nal) (length nal)
                              (ns_frameCounter s) timestampUs isKeyframe (ns_packetizer s);
            timing = \<lparr>captureUs = timestampUs, encodeUs = timestampUs + 3000, netSendUs = timestampUs + 4000,
                      netRecvUs = 0, jitterReadyUs = 0, decodeUs = 0, presentUs = 0\<rparr>;
            s = s\<lparr>ns_packetizer := pk, ns_telemetry := RecordFrameTiming timing (ns_telemetry s)\<rparr>
        in if 0 \<le> ns_udpSocket s
           then (packets, s\<lparr>ns_telemetry := record_sent clock 0 packets (ns_telemetry s)\<rparr>)
           else ([], s))"

definition SendAudioFrame ::
  "('ctx, 'mpi, 'point) mbedtls \<Rightarrow> bytes \<Rightarrow> u64 \<Rightarrow> NativeSender \<Rightarrow> bytes list \<times> NativeSender" where
  "SendAudioFrame P audio timestampUs s =
     (if audio = [] then ([], s)
      else
        let s = s\<lparr>ns_audioCounter := ns_audioCounter s + 1\<rparr>;
            (pkt, pk) = PacketizeAudio (seal_at P (ns_objects s)) (Some audio) (length audio)
                          (ns_audioCounter s) timestampUs (ns_packetizer s);
            s = s\<lparr>ns_packetizer := pk\<rparr>
        in if 0 \<le> ns_udpSocket s then ([pkt], s) else ([], s))"

definition GetTelemetryJson :: "NativeSender \<Rightarrow> string" where
  "GetTelemetryJson s = ToJsonString (transport_byte WIFI_LAN) (profile_byte BALANCED) (ns_telemetry s)"

subsection \<open>The JNI entry points\<close>

text \<open>
  A handle of zero is \<open>None\<close>; any other is the address of a live object, which the functions do not check.
  A byte buffer is null (\<open>None\<close>), not direct (\<open>Some None\<close>) or has contents. A Java string is \<open>None\<close> when it is
  null or \<open>GetStringUTFChars\<close> fails; its result is used without a check. \<open>None\<close> as a result is undefined
  behaviour: a read outside of the buffer, or a \<open>std::string\<close> made of a null pointer.
\<close>

definition buffer_slice :: "bytes \<Rightarrow> int \<Rightarrow> int \<Rightarrow> bytes option" where
  "buffer_slice buf offset len =
     (if 0 \<le> offset \<and> offset + len \<le> int (length buf)
      then Some (take (nat len) (drop (nat offset) buf)) else None)"

definition nativeSendVideoNal ::
  "('ctx, 'mpi, 'point) mbedtls \<Rightarrow> (nat \<Rightarrow> u64) \<Rightarrow> bytes option option \<Rightarrow> int \<Rightarrow> int \<Rightarrow> bool \<Rightarrow> u64 \<Rightarrow>
     NativeSender option \<Rightarrow> (bytes list \<times> NativeSender option) option" where
  "nativeSendVideoNal P clock byteBuffer offset len isKeyframe timestampUs handle =
     (case (handle, byteBuffer) of
        (Some s, Some direct) \<Rightarrow>
          if len \<le> 0 then Some ([], handle)
          else (case direct of
              None \<Rightarrow> Some ([], handle)
            | Some buf \<Rightarrow> map_option (\<lambda>nal. map_prod id Some (SendVideoNal P clock nal isKeyframe timestampUs s))
                            (buffer_slice buf offset len))
      | _ \<Rightarrow> Some ([], handle))"

definition nativeSendAudioFrame ::
  "('ctx, 'mpi, 'point) mbedtls \<Rightarrow> bytes option option \<Rightarrow> int \<Rightarrow> int \<Rightarrow> u64 \<Rightarrow>
     NativeSender option \<Rightarrow> (bytes list \<times> NativeSender option) option" where
  "nativeSendAudioFrame P byteBuffer offset len timestampUs handle =
     (case (handle, byteBuffer) of
        (Some s, Some direct) \<Rightarrow>
          if len \<le> 0 then Some ([], handle)
          else (case direct of
              None \<Rightarrow> Some ([], handle)
            | Some buf \<Rightarrow> map_option (\<lambda>a. map_prod id Some (SendAudioFrame P a timestampUs s))
                            (buffer_slice buf offset len))
      | _ \<Rightarrow> Some ([], handle))"

definition nativeBeginPairing ::
  "('ctx, 'mpi, 'point) mbedtls \<Rightarrow> bytes \<Rightarrow> NativeSender option \<Rightarrow> string \<times> NativeSender option" where
  "nativeBeginPairing P entropy handle =
     (case handle of None \<Rightarrow> ([], None) | Some s \<Rightarrow> map_prod id Some (BeginPairing P entropy s))"

text \<open>The two functions with a string, and what they do once they have its text.\<close>

definition complete_with_text ::
  "('ctx, 'mpi, 'point) mbedtls \<Rightarrow> string \<Rightarrow> NativeSender option \<Rightarrow> bool \<times> NativeSender option" where
  "complete_with_text P key handle =
     (case handle of None \<Rightarrow> (False, None) | Some s \<Rightarrow> map_prod id Some (CompletePairing P key s))"

definition nativeCompletePairing ::
  "('ctx, 'mpi, 'point) mbedtls \<Rightarrow> string option \<Rightarrow> NativeSender option \<Rightarrow> (bool \<times> NativeSender option) option" where
  "nativeCompletePairing P clientPubKeyB64 handle =
     (if handle = None then Some (False, None)
      else map_option (\<lambda>key. complete_with_text P key handle) clientPubKeyB64)"

definition configure_with_text ::
  "int \<Rightarrow> (string \<Rightarrow> u32 option) \<Rightarrow> string \<Rightarrow> int \<Rightarrow> NativeSender option \<Rightarrow> bool \<times> NativeSender option" where
  "configure_with_text fd inet host port handle =
     (case handle of None \<Rightarrow> (False, None) | Some s \<Rightarrow> map_prod id Some (ConfigureUdp fd inet host port s))"

definition nativeConfigureUdpDestination ::
  "int \<Rightarrow> (string \<Rightarrow> u32 option) \<Rightarrow> string option \<Rightarrow> int \<Rightarrow> NativeSender option \<Rightarrow>
     (bool \<times> NativeSender option) option" where
  "nativeConfigureUdpDestination fd inet host port handle =
     (if handle = None then Some (False, None)
      else map_option (\<lambda>h. configure_with_text fd inet h port handle) host)"

lemma native_with_text:
  "nativeCompletePairing P (Some key) handle = Some (complete_with_text P key handle)"
  "nativeConfigureUdpDestination fd inet (Some host) port handle = Some (configure_with_text fd inet host port handle)"
  by (simp_all add: nativeCompletePairing_def complete_with_text_def nativeConfigureUdpDestination_def
      configure_with_text_def split: option.split)

text \<open>\<open>nativeDestroySession\<close>: the destructor closes the socket; the result is the last state of the object.\<close>

definition nativeDestroySession :: "NativeSender option \<Rightarrow> NativeSender option" where
  "nativeDestroySession handle = map_option CloseUdp handle"

definition nativeCreateSession :: "u8 \<Rightarrow> u8 \<Rightarrow> u8 \<Rightarrow> u8 \<Rightarrow> NativeSender option" where
  "nativeCreateSession b0 b1 b2 b3 = Some (NativeSender_new (RandomId b0 b1 b2 b3))"

text \<open>The identifier as a Java \<open>int\<close>.\<close>

definition nativeGetSessionId :: "NativeSender option \<Rightarrow> int" where
  "nativeGetSessionId handle = (case handle of None \<Rightarrow> 0 | Some s \<Rightarrow> sint (ns_sessionId s))"

definition nativeGetTelemetryJson :: "NativeSender option \<Rightarrow> string" where
  "nativeGetTelemetryJson handle = (case handle of None \<Rightarrow> ''{}'' | Some s \<Rightarrow> GetTelemetryJson s)"

subsection \<open>Histories\<close>

datatype ns_op =
    Configure int string int
  | Begin bytes
  | Complete string
  | Video "nat \<Rightarrow> u64" bytes bool u64
  | Audio bytes u64

fun ns_step ::
  "('ctx, 'mpi, 'point) mbedtls \<Rightarrow> (string \<Rightarrow> u32 option) \<Rightarrow> NativeSender \<Rightarrow> ns_op \<Rightarrow>
     bytes list \<times> NativeSender" where
  "ns_step P inet s (Configure fd host port) = ([], snd (ConfigureUdp fd inet host port s))"
| "ns_step P inet s (Begin entropy) = ([], snd (BeginPairing P entropy s))"
| "ns_step P inet s (Complete key) = ([], snd (CompletePairing P key s))"
| "ns_step P inet s (Video clock nal key ts) = SendVideoNal P clock nal key ts s"
| "ns_step P inet s (Audio a ts) = SendAudioFrame P a ts s"

definition ns_run ::
  "('ctx, 'mpi, 'point) mbedtls \<Rightarrow> (string \<Rightarrow> u32 option) \<Rightarrow> NativeSender \<Rightarrow> ns_op list \<Rightarrow>
     bytes list \<times> NativeSender" where
  "ns_run P inet = emits (ns_step P inet)"

definition ns_inv :: "NativeSender \<Rightarrow> bool" where
  "ns_inv s \<longleftrightarrow> pkt_sessionId (ns_packetizer s) = ns_sessionId s \<and>
     (\<forall>r. ns_crypto s = Some r \<or> pkt_crypto (ns_packetizer s) = Some r \<longrightarrow> r < length (ns_objects s))"

text \<open>What each operation does to the packetizer and the store.\<close>

lemma ConfigureUdp_keeps [simp]:
  "ns_packetizer (snd (ConfigureUdp fd inet host port s)) = ns_packetizer s"
  "ns_objects (snd (ConfigureUdp fd inet host port s)) = ns_objects s"
  "ns_crypto (snd (ConfigureUdp fd inet host port s)) = ns_crypto s"
  "ns_sessionId (snd (ConfigureUdp fd inet host port s)) = ns_sessionId s"
  by (simp_all add: ConfigureUdp_def CloseUdp_def Let_def split: option.split)

lemma BeginPairing_simps [simp]:
  "ns_packetizer (snd (BeginPairing P e s)) = ns_packetizer s"
  "ns_objects (snd (BeginPairing P e s)) = ns_objects s @ [SessionCrypto_new]"
  "ns_crypto (snd (BeginPairing P e s)) = Some (length (ns_objects s))"
  "ns_sessionId (snd (BeginPairing P e s)) = ns_sessionId s"
  "ns_pendingKeys (snd (BeginPairing P e s)) = GenerateKeyPair P e"
  "ns_udpSocket (snd (BeginPairing P e s)) = ns_udpSocket s"
  "ns_frameCounter (snd (BeginPairing P e s)) = ns_frameCounter s"
  "fst (BeginPairing P e s) = Base64Encode P (publicKey (GenerateKeyPair P e))"
  by (simp_all add: BeginPairing_def Let_def)

lemma CompletePairing_cases:
  obtains (refused) "CompletePairing P k s = (False, s)"
  | (failed) r c where "ns_crypto s = Some r"
      "CompletePairing P k s = (False, s\<lparr>ns_objects := (ns_objects s)[r := c], ns_crypto := None\<rparr>)" "\<not> hasKeys c"
  | (armed) r c where "ns_crypto s = Some r"
      "CompletePairing P k s = (True, s\<lparr>ns_objects := (ns_objects s)[r := c],
         ns_packetizer := pkt_SetCrypto (Some r) (ns_packetizer s)\<rparr>)" "hasKeys c"
proof (cases "ns_crypto s")
  case None
  then show ?thesis using refused by (simp add: CompletePairing_def)
next
  case (Some r)
  let ?d = "DeriveSessionKeys P True (Some (Base64Decode P k)) (Some (publicKey (ns_pendingKeys s)))
      (Some (privateKey (ns_pendingKeys s))) (ns_objects s ! r)"
  obtain ok c where d: "?d = (ok, c)" by (cases ?d)
  have reset: "\<not> hasKeys (crypto_Reset c)" by (simp add: crypto_Reset_def)
  consider "length (Base64Decode P k) \<noteq> VEYRA_PUBLIC_KEY_SIZE"
    | "length (Base64Decode P k) = VEYRA_PUBLIC_KEY_SIZE" "\<not> ok \<or> \<not> hasKeys c"
    | "length (Base64Decode P k) = VEYRA_PUBLIC_KEY_SIZE" "ok" "hasKeys c" by blast
  then show ?thesis
  proof cases
    case 1
    with Some show ?thesis by (intro refused) (simp add: CompletePairing_def)
  next
    case 2
    with Some d reset show ?thesis by (intro failed [of r "crypto_Reset c"]) (simp_all add: CompletePairing_def IsKeySet_def)
  next
    case 3
    with Some d show ?thesis by (intro armed [of r c]) (simp_all add: CompletePairing_def IsKeySet_def)
  qed
qed

lemma SendVideoNal_cases:
  obtains (empty) "nal = []" "SendVideoNal P clock nal key ts s = ([], s)"
  | (sent) pk t where "nal \<noteq> []"
      "snd (PacketizeFrame (seal_at P (ns_objects s)) (Some nal) (length nal) (ns_frameCounter s + 1) ts key (ns_packetizer s)) = pk"
      "SendVideoNal P clock nal key ts s =
        (if 0 \<le> ns_udpSocket s
         then fst (PacketizeFrame (seal_at P (ns_objects s)) (Some nal) (length nal) (ns_frameCounter s + 1) ts key (ns_packetizer s))
         else [], s\<lparr>ns_frameCounter := ns_frameCounter s + 1, ns_packetizer := pk, ns_telemetry := t\<rparr>)"
proof (cases "nal = []")
  case True
  then show ?thesis using empty by (simp add: SendVideoNal_def)
next
  case False
  obtain ps pk where p: "PacketizeFrame (seal_at P (ns_objects s)) (Some nal) (length nal) (ns_frameCounter s + 1)
      ts key (ns_packetizer s) = (ps, pk)" by fastforce
  show ?thesis
    using False p by (cases "0 \<le> ns_udpSocket s"; intro sent [of pk]) (simp_all add: SendVideoNal_def Let_def)
qed

lemma SendAudioFrame_cases:
  obtains (empty) "a = []" "SendAudioFrame P a ts s = ([], s)"
  | (sent) p pk where "a \<noteq> []"
      "PacketizeAudio (seal_at P (ns_objects s)) (Some a) (length a) (ns_audioCounter s + 1) ts (ns_packetizer s) = (p, pk)"
      "SendAudioFrame P a ts s = (if 0 \<le> ns_udpSocket s then [p] else [],
         s\<lparr>ns_audioCounter := ns_audioCounter s + 1, ns_packetizer := pk\<rparr>)"
proof (cases "a = []")
  case True
  then show ?thesis using empty by (simp add: SendAudioFrame_def)
next
  case False
  obtain p pk where p: "PacketizeAudio (seal_at P (ns_objects s)) (Some a) (length a) (ns_audioCounter s + 1) ts
      (ns_packetizer s) = (p, pk)" by fastforce
  show ?thesis using False p by (intro sent [of p pk]) (auto simp: SendAudioFrame_def Let_def)
qed

lemma video_keeps:
  "pkt_crypto (snd (PacketizeFrame seal (Some d) (length d) fid ts k pk)) = pkt_crypto pk"
  "pkt_sessionId (snd (PacketizeFrame seal (Some d) (length d) fid ts k pk)) = pkt_sessionId pk"
  using send_numbered [of pk "SendFrame d fid ts k" seal] by auto

lemma video_packets:
  "p \<in> set (fst (PacketizeFrame seal (Some d) (length d) fid ts k pk)) \<Longrightarrow> \<exists>q. packet_of seal pk q p"
  using send_all_packets [of p seal pk "[SendFrame d fid ts k]"] by (simp add: send_all_def split_beta)

lemma audio_keeps:
  "PacketizeAudio seal (Some a) (length a) fid ts pk = (p, pk') \<Longrightarrow>
     pkt_crypto pk' = pkt_crypto pk \<and> pkt_sessionId pk' = pkt_sessionId pk"
  using send_numbered [of pk "SendAudio a fid ts" seal] by auto

lemma ns_step_inv: "ns_inv s \<Longrightarrow> ns_inv (snd (ns_step P inet s x))"
proof (cases x)
  case (Configure fd host port)
  assume "ns_inv s"
  then show ?thesis using Configure by (simp add: ns_inv_def)
next
  case (Begin e)
  assume "ns_inv s"
  then show ?thesis using Begin by (auto simp: ns_inv_def less_SucI)
next
  case (Complete k)
  assume "ns_inv s"
  then show ?thesis using Complete
    by (cases rule: CompletePairing_cases [of P k s]) (auto simp: ns_inv_def pkt_SetCrypto_def)
next
  case (Video clock nal key ts)
  assume "ns_inv s"
  then show ?thesis using Video
    by (cases rule: SendVideoNal_cases [of nal P clock key ts s]) (auto simp: ns_inv_def video_keeps)
next
  case (Audio a ts)
  assume "ns_inv s"
  then show ?thesis using Audio
    by (cases rule: SendAudioFrame_cases [of a P ts s]) (auto simp: ns_inv_def dest!: audio_keeps)
qed

lemma ns_run_inv: "ns_inv s \<Longrightarrow> ns_inv (snd (ns_run P inet s ops))"
  unfolding ns_run_def by (rule emits_invariant) (simp_all add: ns_step_inv)

text \<open>A datagram of session \<open>sid\<close> that is the complete output of one successful \<open>Encrypt\<close>.\<close>

definition sealed_datagram :: "('ctx, 'mpi, 'point) mbedtls \<Rightarrow> u32 \<Rightarrow> bytes \<Rightarrow> bool" where
  "sealed_datagram P sid p \<longleftrightarrow>
     (\<exists>c h msg n. hasKeys c \<and> has_flag (hdr_flags h) FLAG_ENCRYPTED \<and> hdr_sessionId h = sid \<and>
        fst (Encrypt P c msg n (hdr_sequence h) (header_bytes h)) = n + 16 \<and>
        p = header_bytes h @ take (n + 16) (snd (Encrypt P c msg n (hdr_sequence h) (header_bytes h))))"

lemma Encrypt_needs_keys: "0 < fst (Encrypt P c msg n q aad) \<Longrightarrow> hasKeys c"
  by (auto simp: Encrypt_def split: if_splits)

lemma packet_of_sealed_datagram:
  assumes "packet_of (seal_at P objects) pk q p" and "pkt_crypto pk \<noteq> None"
  shows "sealed_datagram P (pkt_sessionId pk) p"
proof -
  obtain r where "pkt_crypto pk = Some r" using assms(2) by auto
  then obtain h msg n where h: "hdr_sequence h = q" "hdr_sessionId h = pkt_sessionId pk"
    "has_flag (hdr_flags h) FLAG_ENCRYPTED"
    "fst (Encrypt P (objects ! r) msg n q (header_bytes h)) = n + 16"
    "p = header_bytes h @ take (n + 16) (snd (Encrypt P (objects ! r) msg n q (header_bytes h)))"
    using assms(1) by (auto simp: packet_of_def seal_at_def)
  moreover have "hasKeys (objects ! r)" using h(4) by (intro Encrypt_needs_keys [of P _ msg n q "header_bytes h"]) simp
  ultimately show ?thesis unfolding sealed_datagram_def
    by (intro exI [of _ "objects ! r"] exI [of _ h] exI [of _ msg] exI [of _ n]) simp
qed

definition ns_armed :: "NativeSender \<Rightarrow> bool" where
  "ns_armed s \<longleftrightarrow> pkt_crypto (ns_packetizer s) \<noteq> None \<and> pkt_sessionId (ns_packetizer s) = ns_sessionId s"

lemma ns_step_armed:
  assumes "ns_armed s"
  shows "ns_armed (snd (ns_step P inet s x)) \<and> ns_sessionId (snd (ns_step P inet s x)) = ns_sessionId s \<and>
    (\<forall>p \<in> set (fst (ns_step P inet s x)). p = [] \<or> sealed_datagram P (ns_sessionId s) p)"
proof (cases x)
  case (Video clock nal key ts)
  have "sealed_datagram P (ns_sessionId s) p"
    if "p \<in> set (fst (PacketizeFrame (seal_at P (ns_objects s)) (Some nal) (length nal) (ns_frameCounter s + 1) ts key
      (ns_packetizer s)))" for p
    using video_packets [OF that] packet_of_sealed_datagram [of P "ns_objects s" "ns_packetizer s" _ p] assms
    by (auto simp: ns_armed_def)
  with assms Video show ?thesis
    by (cases rule: SendVideoNal_cases [of nal P clock key ts s]) (auto simp: ns_armed_def video_keeps)
next
  case (Audio a ts)
  let ?call = "PacketizeAudio (seal_at P (ns_objects s)) (Some a) (length a) (ns_audioCounter s + 1) ts (ns_packetizer s)"
  have "p = [] \<or> sealed_datagram P (ns_sessionId s) p" if "?call = (p, pk)" for p pk
  proof (cases "p = []")
    case False
    with that audio_packet [of "seal_at P (ns_objects s)" "Some a" "length a" "ns_audioCounter s + 1" ts "ns_packetizer s"]
    have "packet_of (seal_at P (ns_objects s)) (ns_packetizer s) (pkt_sequence (ns_packetizer s)) p" by simp
    from packet_of_sealed_datagram [OF this] assms show ?thesis by (simp add: ns_armed_def)
  qed simp
  note packet = this
  show ?thesis
  proof (cases rule: SendAudioFrame_cases [of a P ts s])
    case empty
    then show ?thesis using assms Audio by simp
  next
    case (sent p pk)
    then show ?thesis using packet [OF sent(2)] audio_keeps [OF sent(2)] assms Audio by (simp add: ns_armed_def)
  qed
next
  case (Complete k)
  with assms show ?thesis
    by (cases rule: CompletePairing_cases [of P k s]) (auto simp: ns_armed_def pkt_SetCrypto_def)
qed (use assms in \<open>simp_all add: ns_armed_def\<close>)

text \<open>A refused pairing after \<open>BeginPairing\<close> changes neither the packetizer nor the objects it uses.\<close>

lemma video_same_object:
  assumes "\<And>r. pkt_crypto pk = Some r \<Longrightarrow> objs' ! r = objs ! r"
  shows "PacketizeFrame (seal_at P objs') (Some d) (length d) fid ts k pk = PacketizeFrame (seal_at P objs) (Some d) (length d) fid ts k pk"
proof -
  have step: "packetize_fragment (seal_at P objs') d (length d) fid ts k fc (nth_state pk i) i =
      packetize_fragment (seal_at P objs) d (length d) fid ts k fc (nth_state pk i) i" for fc i
    using assms by (cases "pkt_crypto pk") (simp_all add: packetize_fragment_def seal_at_def Let_def)
  show ?thesis by (cases "d = []") (simp_all add: PacketizeFrame_def [of _ _ 0] PacketizeFrame_emits Let_def step)
qed

lemma refused_pairing_keeps:
  assumes "ns_inv s" and "CompletePairing P k (snd (BeginPairing P e s)) = (False, s')"
  shows "ns_packetizer s' = ns_packetizer s" "ns_udpSocket s' = ns_udpSocket s"
    "ns_frameCounter s' = ns_frameCounter s"
    "pkt_crypto (ns_packetizer s) = Some r \<Longrightarrow> ns_objects s' ! r = ns_objects s ! r"
proof -
  let ?b = "snd (BeginPairing P e s)"
  have "s' = ?b \<or> (\<exists>c. s' = ?b\<lparr>ns_objects := (ns_objects s @ [SessionCrypto_new])[length (ns_objects s) := c],
      ns_crypto := None\<rparr>)"
    using assms(2) by (cases rule: CompletePairing_cases [of P k ?b]) auto
  then show "ns_packetizer s' = ns_packetizer s" "ns_udpSocket s' = ns_udpSocket s"
    "ns_frameCounter s' = ns_frameCounter s"
    "pkt_crypto (ns_packetizer s) = Some r \<Longrightarrow> ns_objects s' ! r = ns_objects s ! r"
    using assms(1) by (auto simp: ns_inv_def nth_append)
qed

lemma SendVideoNal_packets:
  "fst (SendVideoNal P clock nal key ts s) =
     (if nal = [] \<or> ns_udpSocket s < 0 then []
      else fst (PacketizeFrame (seal_at P (ns_objects s)) (Some nal) (length nal) (ns_frameCounter s + 1) ts key
        (ns_packetizer s)))"
  by (cases rule: SendVideoNal_cases [of nal P clock key ts s]) auto

text \<open>Without keys nothing can be sealed.\<close>

lemma keyless_video_is_silent:
  assumes "pkt_crypto pk = Some r" and "\<not> hasKeys (objs ! r)"
  shows "fst (PacketizeFrame (seal_at P objs) (Some d) (length d) fid ts k pk) = []"
proof -
  have "fst (packetize_fragment (seal_at P objs) d (length d) fid ts k fc (nth_state pk i) i) = []" for fc i
    using assms by (simp add: packetize_fragment_def seal_at_def Encrypt_def kAeadTagSize_def wire_simps Let_def)
  then show ?thesis by (cases "d = []") (simp_all add: PacketizeFrame_def [of _ _ 0] PacketizeFrame_emits Let_def)
qed

lemma keyless_audio_is_empty:
  assumes "pkt_crypto pk = Some r" and "\<not> hasKeys (objs ! r)"
  shows "fst (PacketizeAudio (seal_at P objs) (Some a) (length a) fid ts pk) = []"
  using assms by (simp add: PacketizeAudio_def seal_at_def Encrypt_def kAeadTagSize_def wire_simps Let_def)

lemma ns_step_session: "ns_sessionId (snd (ns_step P inet s x)) = ns_sessionId s"
proof (cases x)
  case (Complete k)
  then show ?thesis by (cases rule: CompletePairing_cases [of P k s]) auto
next
  case (Video clock nal key ts)
  then show ?thesis by (cases rule: SendVideoNal_cases [of nal P clock key ts s]) auto
next
  case (Audio a ts)
  then show ?thesis by (cases rule: SendAudioFrame_cases [of a P ts s]) auto
qed simp_all

lemma ns_run_reaches:
  "ns_inv (snd (ns_run P inet (NativeSender_new i) ops)) \<and>
     ns_sessionId (snd (ns_run P inet (NativeSender_new i) ops)) = i"
  unfolding ns_run_def
  by (rule emits_invariant [where I = "\<lambda>s. ns_inv s \<and> ns_sessionId s = i"])
    (simp_all add: ns_step_inv ns_step_session, simp add: ns_inv_def NativeSender_new_def Packetizer_new_def)

lemma CompletePairing_armed:
  assumes "CompletePairing P k s = (True, s')" and "ns_inv s"
  obtains r where "ns_crypto s' = Some r" "pkt_crypto (ns_packetizer s') = Some r" "r < length (ns_objects s')"
    "ns_armed s'" "ns_sessionId s' = ns_sessionId s"
  using assms
  by (cases rule: CompletePairing_cases [of P k s]) (auto simp: ns_inv_def ns_armed_def pkt_SetCrypto_def)

subsection \<open>Properties\<close>

definition demo_ready :: NativeSender where
  "demo_ready = snd (ConfigureUdp 5 (\<lambda>_. Some 7) ''10.0.0.7'' 5151 (NativeSender_new 9))"

definition demo_history :: "ns_op list" where
  "demo_history = [Configure 5 ''10.0.0.7'' 5151, Begin (replicate 32 3)]"

definition demo_strict :: "(u8 \<times> u8 \<times> cp_mode, bytes, bytes) mbedtls" where
  "demo_strict = demo_lib\<lparr>ecp_point_read_binary := (\<lambda>b. if b = replicate 32 0 then None else Some b)\<rparr>"

definition demo_client_key :: string where
  "demo_client_key = replicate 32 (CHR 0x04)"

definition demo_zero_key :: string where
  "demo_zero_key = replicate 32 (CHR 0x00)"

definition demo_phone_state :: NativeSender where
  "demo_phone_state = snd (CompletePairing demo_strict demo_client_key
     (snd (ns_run demo_strict (\<lambda>_. Some 7) (NativeSender_new 9) demo_history)))"

lemma demo_completes:
  "CompletePairing demo_strict demo_client_key
     (snd (ns_run demo_strict (\<lambda>_. Some 7) (NativeSender_new 9) demo_history)) = (True, demo_phone_state)"
proof -
  have "fst (CompletePairing demo_strict demo_client_key
     (snd (ns_run demo_strict (\<lambda>_. Some 7) (NativeSender_new 9) demo_history)))" by code_simp
  then show ?thesis by (simp add: demo_phone_state_def prod_eq_iff)
qed

text \<open>C8. No plaintext after pairing: once a pairing of the phone completed, whatever happened before,
  every datagram it hands to the socket in any later history (further pairings that succeed or fail
  and changes of the destination included) is the output of one successful encryption under keys
  that were set, in a packet of its session; or it is empty.\<close>

theorem paired_phone_sends_no_plaintext:
  assumes "CompletePairing P k (snd (ns_run P inet (NativeSender_new i) before)) = (True, s)"
    and "p \<in> set (fst (ns_run P inet s later))"
  shows "p = [] \<or> sealed_datagram P i p"
proof -
  let ?s = "snd (ns_run P inet (NativeSender_new i) before)"
  have start: "ns_armed s \<and> ns_sessionId s = i"
    using CompletePairing_armed [OF assms(1)] ns_run_reaches [of P inet i before] by metis
  have "(ns_armed (snd (ns_step P inet t x)) \<and> ns_sessionId (snd (ns_step P inet t x)) = i) \<and>
      (\<forall>p \<in> set (fst (ns_step P inet t x)). p = [] \<or> sealed_datagram P i p)"
    if "ns_armed t \<and> ns_sessionId t = i" for t x
    using ns_step_armed [of t P inet x] that by auto
  with start have "\<forall>p \<in> set (fst (emits (ns_step P inet) s later)). p = [] \<or> sealed_datagram P i p"
    by (rule emits_outputs [where I = "\<lambda>s. ns_armed s \<and> ns_sessionId s = i"])
  with assms(2) show ?thesis by (auto simp: ns_run_def)
qed

theorem paired_phone_sends_no_plaintext_witness:
  "\<exists>p \<in> set (fst (ns_run demo_strict (\<lambda>_. Some 7) demo_phone_state [Video (\<lambda>_. 0) [1] True 50])).
     p \<noteq> [] \<and> sealed_datagram demo_strict 9 p"
proof -
  let ?ps = "fst (ns_run demo_strict (\<lambda>_. Some 7) demo_phone_state [Video (\<lambda>_. 0) [1] True 50])"
  have "case ?ps of [] \<Rightarrow> False | p # _ \<Rightarrow> p \<noteq> []" by code_simp
  then obtain p where p: "p \<in> set ?ps" "p \<noteq> []" by (cases ?ps) auto
  with paired_phone_sends_no_plaintext [OF demo_completes p(1)] show ?thesis by blast
qed

text \<open>A refused pairing leaves the stream alone: when a new pairing is begun and its completion is
  refused, the phone goes on sending exactly the packets it would have sent without it, because the
  new round works on a key object of its own.\<close>

theorem refused_pairing_keeps_the_stream:
  assumes "s = snd (ns_run P inet (NativeSender_new i) ops)"
    and "CompletePairing P k (snd (BeginPairing P e s)) = (False, s')"
  shows "fst (SendVideoNal P clock nal key ts s') = fst (SendVideoNal P clock nal key ts s)"
proof -
  have "ns_inv s" by (simp only: assms(1) ns_run_reaches)
  from refused_pairing_keeps [OF this assms(2)] show ?thesis
    by (simp add: SendVideoNal_packets video_same_object [of "ns_packetizer s" "ns_objects s'" "ns_objects s"])
qed

theorem refused_pairing_keeps_the_stream_witness:
  "let s = snd (ns_run demo_strict (\<lambda>_. Some 7) (NativeSender_new 9) (demo_history @ [Complete demo_client_key]));
       s' = snd (CompletePairing demo_strict demo_zero_key (snd (BeginPairing demo_strict (replicate 32 6) s)))
   in fst (SendVideoNal demo_strict (\<lambda>_. 0) [1, 2, 3] True 50 s') =
      fst (SendVideoNal demo_strict (\<lambda>_. 0) [1, 2, 3] True 50 s)"
proof -
  let ?s = "snd (ns_run demo_strict (\<lambda>_. Some 7) (NativeSender_new 9) (demo_history @ [Complete demo_client_key]))"
  let ?c = "CompletePairing demo_strict demo_zero_key (snd (BeginPairing demo_strict (replicate 32 6) ?s))"
  have "fst ?c = False" by code_simp
  then have "?c = (False, snd ?c)" by (simp add: prod_eq_iff)
  from refused_pairing_keeps_the_stream [OF refl this, of "\<lambda>_. 0" "[1, 2, 3]" True 50] show ?thesis
    by (simp add: Let_def)
qed

text \<open>A second completion destroys the running key: the packetizer shares the key object of the
  completed round, so completing again with a key that gives no shared secret clears the object in
  use; from then on no video packet is sent, and every audio frame is sent as an empty datagram.\<close>

theorem second_completion_silences_the_stream:
  assumes "CompletePairing P k (snd (ns_run P inet (NativeSender_new i) before)) = (True, s)"
    and "length (Base64Decode P k') = VEYRA_PUBLIC_KEY_SIZE"
    and "shared_secret P (Base64Decode P k') (privateKey (ns_pendingKeys s)) = None"
  shows "\<exists>s'. CompletePairing P k' s = (False, s') \<and>
    (\<forall>clock nal key ts. fst (SendVideoNal P clock nal key ts s') = []) \<and>
    (\<forall>a ts. a \<noteq> [] \<and> 0 \<le> ns_udpSocket s \<longrightarrow> fst (SendAudioFrame P a ts s') = [[]])"
proof -
  obtain r where r: "ns_crypto s = Some r" "pkt_crypto (ns_packetizer s) = Some r" "r < length (ns_objects s)"
    using CompletePairing_armed [OF assms(1)] ns_run_reaches [of P inet i before] by metis
  let ?s' = "s\<lparr>ns_objects := (ns_objects s)[r := SessionCrypto_new], ns_crypto := None\<rparr>"
  have "CompletePairing P k' s = (False, ?s')"
    using r(1) assms(2,3)
    by (simp add: CompletePairing_def DeriveSessionKeys_Some crypto_Reset_new Let_def)
  moreover have "\<not> hasKeys (ns_objects ?s' ! r)" using r(3) by (simp add: SessionCrypto_new_def)
  note silent = keyless_video_is_silent [OF r(2) this] keyless_audio_is_empty [OF r(2) this]
  have "fst (SendVideoNal P clock nal key ts ?s') = []" for clock nal key ts
    using silent(1) [of P nal] by (simp add: SendVideoNal_packets)
  moreover have "fst (SendAudioFrame P a ts ?s') = [[]]" if "a \<noteq> []" "0 \<le> ns_udpSocket s" for a ts
    using that silent(2) [of P a "ns_audioCounter s + 1" ts] by (simp add: SendAudioFrame_def Let_def split_beta)
  ultimately show ?thesis by blast
qed

theorem second_completion_silences_the_stream_witness:
  "fst (SendAudioFrame demo_strict [1, 2] 60 (snd (CompletePairing demo_strict demo_zero_key demo_phone_state))) = [[]]"
proof -
  have "length (Base64Decode demo_strict demo_zero_key) = VEYRA_PUBLIC_KEY_SIZE"
    "shared_secret demo_strict (Base64Decode demo_strict demo_zero_key) (privateKey (ns_pendingKeys demo_phone_state)) = None"
    "0 \<le> ns_udpSocket demo_phone_state" by code_simp+
  with second_completion_silences_the_stream [OF demo_completes, of demo_zero_key] show ?thesis by fastforce
qed

end
