(* ===== verification/Pairing.thy ===== *)
theory Pairing
  imports Service Mobile_Sender Reassembly_Roundtrip
begin

text \<open>
  Phone and PC together: the pairing challenge of the phone, the answer of \<open>ServiceManager\<close>, the
  completion by \<open>NativeSenderContext\<close>, and the first video frame on its way from the one to the
  decoder of the other. The challenge is written by the Android application
  (\<open>UdpTransport.kt\<close>, \<open>handleConnection\<close>) with the JSON library of Android; how that library writes the
  key text is an argument.
\<close>

subsection \<open>The challenge\<close>

definition challenge_text :: "string \<Rightarrow> u32 \<Rightarrow> string" where
  "challenge_text keyText sessionId =
     ''{'' @ field_text (''type'', ''pairing_challenge'') @ '','' @ field_text (''server_pubkey'', keyText) @ '','' @
     quote # ''session_id'' @ quote # '':'' @ int_text (sint sessionId) @ ''}''"

text \<open>The texts that the library may print for a key: no quotation mark, and long enough not to be a key.\<close>

definition key_text :: "string \<Rightarrow> bool" where
  "key_text k \<longleftrightarrow> plain k \<and> 32 \<le> length k"

lemma key_textD: "key_text k \<Longrightarrow> plain k \<and> k \<noteq> ''type'' \<and> k \<noteq> ''server_pubkey'' \<and> k \<noteq> ''session_id'' \<and> k \<noteq> []"
  by (auto simp: key_text_def)

lemma challenge_closes:
  "closes ('','' @ field_text f @ s)" "closes ('','' @ quote # s)"
  by (auto simp: closes_def field_text_def)

lemma plain_keys:
  "plain_key ''type''" "plain_key ''server_pubkey''" "plain_key ''session_id''" "plain ''pairing_challenge''"
  "plain ''type''" "plain ''server_pubkey''"
  by (simp_all add: plain_key_def plain_def quote_def)

lemma after_comma: "after (quote # k @ [quote]) ('','' @ s) = after (quote # k @ [quote]) s"
  by (simp add: quote_def)

lemma after_brace: "after (quote # k @ [quote]) (''{'' @ s) = after (quote # k @ [quote]) s"
  by (simp add: quote_def)

lemma at_field: "after (quote # k @ [quote]) (field_text (k, v) @ s) = Some (CHR 0x3A # quote # v @ quote # s)"
  using after_here [of k] by (simp add: field_text_def)

lemma challenge_type: "ExtractJsonString (challenge_text k i) ''type'' = ''pairing_challenge''"
  unfolding challenge_text_def
  by (rule extract_at_field [OF plain_keys(4)]) (simp only: after_brace at_field)

lemma challenge_key:
  assumes "key_text k"
  shows "ExtractJsonString (challenge_text k i) ''server_pubkey'' = k"
  unfolding challenge_text_def
proof (rule extract_at_field)
  show "plain k" using key_textD [OF assms] by simp
  let ?rest = "'','' @ field_text (''server_pubkey'', k) @ '','' @ quote # ''session_id'' @ quote # '':'' @
      int_text (sint i) @ ''}''"
  have "after (quote # ''server_pubkey'' @ [quote]) (field_text (''type'', ''pairing_challenge'') @ ?rest) =
      after (quote # ''server_pubkey'' @ [quote]) ?rest"
    by (rule after_field [OF plain_keys(2,5,4) _ _ challenge_closes(1)]) simp_all
  then show "after (quote # ''server_pubkey'' @ [quote])
      (''{'' @ field_text (''type'', ''pairing_challenge'') @ ?rest) =
      Some (CHR 0x3A # quote # k @ quote # ('','' @ quote # ''session_id'' @ quote # '':'' @ int_text (sint i) @ ''}''))"
    by (simp only: after_brace after_comma at_field)
qed

text \<open>The identifier is a number: it ends at the closing brace.\<close>

lemma nat_text_char: "c \<in> set (nat_text n) \<Longrightarrow> is_digit c"
  using nat_text_digits [of n] by (simp add: list_all_iff)

lemma int_text_shape: "\<exists>c s. int_text i = c # s \<and> (c = CHR 0x2D \<or> is_digit c) \<and> (\<forall>x \<in> set s. is_digit x)"
proof -
  obtain d s where n: "nat_text (nat \<bar>i\<bar>) = d # s" using nat_text_digits [of "nat \<bar>i\<bar>"] by (cases "nat_text (nat \<bar>i\<bar>)") auto
  have "\<forall>x \<in> set (d # s). is_digit x" unfolding n [symmetric] by (blast intro: nat_text_char)
  with n show ?thesis by (cases "i < 0") (simp_all add: int_text_def)
qed

lemma extract_number:
  assumes "after (quote # k @ [quote]) json = Some (CHR 0x3A # int_text i @ ''}'')"
  shows "ExtractJsonString json k = int_text i"
proof -
  obtain c s where c: "int_text i = c # s" "c = CHR 0x2D \<or> is_digit c" "\<forall>x \<in> set s. is_digit x"
    using int_text_shape by blast
  have "c \<noteq> CHR 0x20" "c \<noteq> CHR 0x09" "c \<noteq> quote" using c(2) by (auto simp: is_digit_def quote_def)
  moreover have "\<forall>x \<in> set s. x \<noteq> CHR 0x2C \<and> x \<noteq> CHR 0x7D" using c(3) by (auto simp: is_digit_def)
  then have "takeWhile (\<lambda>x. x \<noteq> CHR 0x2C \<and> x \<noteq> CHR 0x7D) (s @ ''}'') = s"
    by (subst takeWhile_append2) auto
  ultimately show ?thesis using assms c(1) by (simp add: ExtractJsonString_def)
qed

lemma challenge_session:
  assumes "key_text k"
  shows "stoul (ExtractJsonString (challenge_text k i) ''session_id'') = Some i"
proof -
  let ?k = "quote # ''session_id'' @ [quote]" and ?n = "'':'' @ int_text (sint i) @ ''}''"
  let ?r2 = "'','' @ quote # ''session_id'' @ quote # ?n"
  let ?r1 = "'','' @ field_text (''server_pubkey'', k) @ ?r2"
  note k = key_textD [OF assms]
  have "after ?k (challenge_text k i) = after ?k (field_text (''type'', ''pairing_challenge'') @ ?r1)"
    unfolding challenge_text_def by (simp only: after_brace)
  also have "\<dots> = after ?k ?r1"
    by (rule after_field [OF plain_keys(3,5,4) _ _ challenge_closes(1)]) simp_all
  also have "\<dots> = after ?k (field_text (''server_pubkey'', k) @ ?r2)" by (simp only: after_comma)
  also have "\<dots> = after ?k ?r2"
    by (rule after_field [OF plain_keys(3,6) _ _ _ challenge_closes(2)]) (use k in simp_all)
  also have "\<dots> = after ?k (quote # ''session_id'' @ quote # ?n)" by (simp only: after_comma)
  also have "\<dots> = Some ?n" by (rule after_here)
  finally have "after ?k (challenge_text k i) = Some (CHR 0x3A # int_text (sint i) @ ''}'')" by simp
  from extract_number [OF this] show ?thesis by (simp only: stoul_int_text)
qed

subsection \<open>The answer of the PC\<close>

text \<open>A key whose text survives the transport and decodes to it.\<close>

definition base64_faithful :: "('ctx, 'mpi, 'point) mbedtls \<Rightarrow> bytes \<Rightarrow> bool" where
  "base64_faithful P b \<longleftrightarrow> length b = VEYRA_PUBLIC_KEY_SIZE \<and> key_text (Base64Encode P b) \<and>
     Base64Decode P (Base64Encode P b) = b"

definition connected_service :: "string \<Rightarrow> string \<Rightarrow> bool \<Rightarrow> Service" where
  "connected_service ip pin cb = snd (snd (ConnectDevice True ip pin cb (snd (Initialize Service_new))))"

lemma connected_service_simps [simp]:
  "sv_pairingState (connected_service ip pin cb) = AWAITING_CHALLENGE"
  "sv_tcpClient (connected_service ip pin cb)" "sv_connected (connected_service ip pin cb)"
  "sv_hostIp (connected_service ip pin cb) = ip" "sv_pin (connected_service ip pin cb) = pin"
  "sv_udpServer (connected_service ip pin cb) = Some 0" "sv_decoder (connected_service ip pin cb)"
  "sv_reassembler (connected_service ip pin cb) = Some (FrameReassembler_new True True)"
  "sv_jitterBuffer (connected_service ip pin cb) = Some (JitterBuffer_new sv_jitter_config True)"
  by (simp_all add: connected_service_def ConnectDevice_simps Initialize_def Let_def sv_jitter_config_def)

lemma arm_receiver_simps [simp]:
  "sv_tcpClient (arm_receiver inet c i s) = sv_tcpClient s" "sv_connected (arm_receiver inet c i s) = sv_connected s"
  "sv_pin (arm_receiver inet c i s) = sv_pin s"
  by (simp_all add: arm_receiver_def SetExpectedPeer_def)

lemma challenge_handled:
  assumes faithful: "base64_faithful P (publicKey server)" and desk: "desk = GenerateKeyPair P e"
    and derived: "DeriveSessionKeys P False (Some (publicKey server)) (Some (publicKey desk))
      (Some (privateKey desk)) SessionCrypto_new = (True, cc)" and keys: "hasKeys cc"
    and s: "sv_pairingState s = AWAITING_CHALLENGE"
    and s': "s' = (arm_receiver inet cc i s)\<lparr>sv_pairingState := AWAITING_PAIRING_OK\<rparr>"
  shows "OnTcpControlMessage P inet e (challenge_text (Base64Encode P (publicKey server)) i) s =
    (tcp_send (pairing_response (sv_pin s) (Base64Encode P (publicKey desk))) s', s')"
proof -
  let ?k = "Base64Encode P (publicKey server)" and ?m = "challenge_text (Base64Encode P (publicKey server)) i"
  have k: "key_text ?k" "Base64Decode P ?k = publicKey server" "length (publicKey server) = VEYRA_PUBLIC_KEY_SIZE"
    using faithful by (simp_all add: base64_faithful_def)
  have ne: "?k \<noteq> []" using key_textD [OF k(1)] by simp
  have "OnTcpControlMessage P inet e ?m s = HandlePairingChallenge P inet e ?k i s"
    by (simp only: OnTcpControlMessage_def Let_def challenge_type challenge_key [OF k(1)]
        challenge_session [OF k(1)] option.case if_True simp_thms)
  also have "\<dots> = (tcp_send (pairing_response (sv_pin s) (Base64Encode P (publicKey desk))) s', s')"
    using k(2,3) ne derived keys s unfolding desk s'
    by (simp add: HandlePairingChallenge_def Let_def IsKeySet_def)
  finally show ?thesis .
qed

lemma challenge_answered:
  assumes "base64_faithful P (publicKey server)" and "desk = GenerateKeyPair P e"
    and "DeriveSessionKeys P False (Some (publicKey server)) (Some (publicKey desk))
      (Some (privateKey desk)) SessionCrypto_new = (True, cc)" and "hasKeys cc"
    and "s = connected_service ip pin cb"
  shows "OnTcpControlMessage P inet e (challenge_text (Base64Encode P (publicKey server)) i) s =
    ([ToPhone (pairing_response pin (Base64Encode P (publicKey desk)) @ [newline])],
     (arm_receiver inet cc i s)\<lparr>sv_pairingState := AWAITING_PAIRING_OK\<rparr>)"
  using challenge_handled [OF assms(1-4) _ refl, of s inet i] assms(5)
  by (simp add: tcp_send_def SendControlMessage_def)

text \<open>After the answer the service takes media from the phone's address, in the armed state.\<close>

lemma answered_is_ready:
  assumes "inet ip = Some a" and "s = connected_service ip pin cb" and "i \<noteq> 0"
  shows "media_ready a (SetExpectedSessionId i (ra_SetCrypto (Some cc) (FrameReassembler_new True True)))
    ((arm_receiver inet cc i s)\<lparr>sv_pairingState := AWAITING_PAIRING_OK\<rparr>)"
proof -
  have "jb_inv sv_jitter_config (JitterBuffer_new sv_jitter_config True)"
    by (rule jb_reachable_inv) (simp_all add: jb_reachable.created sv_jitter_config_def)
  with assms show ?thesis by (auto simp: media_ready_def arm_receiver_def SetExpectedPeer_def)
qed

text \<open>The objects of the phone form a channel to the PC's key object.\<close>

interpretation stored: total_sealed_channel "\<lambda>r rx. session_live P (objects ! r) rx" "seal_at P objects" "Decrypt P"
  for P :: "('ctx, 'mpi, 'point) mbedtls" and objects
proof unfold_locales
  fix tx rx msg s aad w ct
  assume "session_live P (objects ! tx) rx" and "seal_at P objects tx (Some msg) (length msg) s aad = (w, ct)"
    and "w = length msg + 16"
  then show "length ct = length msg + 16 \<and> Decrypt P rx ct (length msg + 16) s aad = Some msg"
    using Encrypt_opens [of P "objects ! tx" rx msg s aad w ct] by (simp add: seal_at_def session_live_def)
next
  fix tx rx msg s aad
  assume "session_live P (objects ! tx) rx"
  then show "fst (seal_at P objects tx (Some msg) (length msg) s aad) = length msg + 16"
    unfolding seal_at_def by (rule Encrypt_succeeds)
qed

text \<open>A first frame that fits, from an armed phone to an armed receiver of the same session.\<close>

lemma first_frame_decodes:
  assumes live: "session_live P sc cc" and ready: "media_ready src
      (SetExpectedSessionId i (ra_SetCrypto (Some cc) (FrameReassembler_new True True))) s"
    and pk: "pk = \<lparr>pkt_sessionId = i, pkt_sequence = 0, pkt_crypto = Some 0\<rparr>"
    and nal: "nal \<noteq> []" "length nal \<le> 65535 * 1150"
  shows "\<exists>es s'. sv_run P inet (map (Datagram now us src) (frame_packets (seal_at P [sc]) pk nal 1 ts True)) s = Some (es, s') \<and>
    decoded es = [\<lparr>vf_frameId = 1, vf_timestampUs = ts, vf_isKeyframe = True, vf_data = nal\<rparr>]"
proof -
  let ?r = "SetExpectedSessionId i (ra_SetCrypto (Some cc) (FrameReassembler_new True True))"
  have ch: "channel_ok (\<lambda>r rx. session_live P ([sc] ! r) rx) (pkt_crypto pk) (ra_crypto ?r)"
    using live by (simp add: channel_ok_def pk)
  have "packet_count pk nal \<le> 65535"
    using nal(2) by (simp add: packet_count_def pieces_needed_def maxPlaintext_def kAeadTagSize_def wire_simps pk)
  then have fits: "fits pk nal" using nal(1) by (simp add: fits_def pk)
  have "rx_reachable (Decrypt P) ?r" by (intro rx_reachable.intros)
  then have inv: "ra_inv ?r" by (rule rx_reachable_inv)
  have take: "can_take ?r (pkt_sessionId pk) 1 (pkt_sequence pk) True"
    by (rule can_take_fresh) (simp_all add: SetExpectedSessionId_def ra_SetCrypto_def FrameReassembler_new_def pk)
  have "fst (receive_all (Decrypt P) ?r (frame_packets (seal_at P [sc]) pk nal 1 ts True)) =
      [FrameReady \<lparr>vf_frameId = 1, vf_timestampUs = ts, vf_isKeyframe = True, vf_data = nal\<rparr>]"
    by (rule stored.frame_arrives_in_order [OF ch fits inv take]) simp
  with datagrams_decode [OF ready] stored.packets_sized [OF ch fits] show ?thesis by fastforce
qed

text \<open>The phone's part of an honest run on a fresh context.\<close>

lemma phone_completes:
  assumes ph: "ph = snd (ConfigureUdp fd inet host port (NativeSender_new i))" and fd: "0 \<le> fd" "inet host \<noteq> None"
    and faithful: "base64_faithful P (publicKey desk)"
    and derived: "DeriveSessionKeys P True (Some (publicKey desk)) (Some (publicKey (GenerateKeyPair P e)))
      (Some (privateKey (GenerateKeyPair P e))) SessionCrypto_new = (True, sc)" and keys: "hasKeys sc"
  shows "\<exists>ph2. CompletePairing P (Base64Encode P (publicKey desk)) (snd (BeginPairing P e ph)) = (True, ph2) \<and>
    ns_packetizer ph2 = \<lparr>pkt_sessionId = i, pkt_sequence = 0, pkt_crypto = Some 0\<rparr> \<and>
    ns_objects ph2 = [sc] \<and> ns_frameCounter ph2 = 0 \<and> 0 \<le> ns_udpSocket ph2"
proof -
  have sock: "0 \<le> ns_udpSocket ph" "ns_frameCounter ph = 0"
    using fd by (auto simp: ph ConfigureUdp_def CloseUdp_def NativeSender_new_def Let_def)
  have "ns_objects ph = []" "ns_packetizer ph = Packetizer_new i" by (simp_all add: ph NativeSender_new_def)
  with sock derived keys faithful show ?thesis
    by (simp add: CompletePairing_def base64_faithful_def Let_def IsKeySet_def pkt_SetCrypto_def Packetizer_new_def)
qed

text \<open>What the library gives the two key pairs: a shared channel, and texts of the keys that decode to them.\<close>

definition keys_agree :: "('ctx, 'mpi, 'point) mbedtls \<Rightarrow> bytes \<Rightarrow> bytes \<Rightarrow> bool" where
  "keys_agree P e1 e2 \<longleftrightarrow>
     (let phone = GenerateKeyPair P e1; desk = GenerateKeyPair P e2
      in chachapoly_correct P \<and> chachapoly_total P \<and> hkdf_sized P \<and> ecdh_agrees P phone desk \<and>
         base64_faithful P (publicKey phone) \<and> base64_faithful P (publicKey desk) \<and>
         fst (DeriveSessionKeys P True (Some (publicKey desk)) (Some (publicKey phone))
           (Some (privateKey phone)) SessionCrypto_new))"

lemma keys_agreeD:
  assumes "keys_agree P e1 e2"
  obtains sc cc where
    "DeriveSessionKeys P True (Some (publicKey (GenerateKeyPair P e2))) (Some (publicKey (GenerateKeyPair P e1)))
       (Some (privateKey (GenerateKeyPair P e1))) SessionCrypto_new = (True, sc)"
    "DeriveSessionKeys P False (Some (publicKey (GenerateKeyPair P e1))) (Some (publicKey (GenerateKeyPair P e2)))
       (Some (privateKey (GenerateKeyPair P e2))) SessionCrypto_new = (True, cc)"
    "session_live P sc cc" "hasKeys sc" "hasKeys cc"
    "base64_faithful P (publicKey (GenerateKeyPair P e1))" "base64_faithful P (publicKey (GenerateKeyPair P e2))"
proof -
  let ?phone = "GenerateKeyPair P e1" and ?desk = "GenerateKeyPair P e2"
  have k: "chachapoly_correct P" "chachapoly_total P" "hkdf_sized P" "ecdh_agrees P ?phone ?desk"
    "base64_faithful P (publicKey ?phone)" "base64_faithful P (publicKey ?desk)"
    "fst (DeriveSessionKeys P True (Some (publicKey ?desk)) (Some (publicKey ?phone)) (Some (privateKey ?phone)) SessionCrypto_new)"
    using assms by (simp_all add: keys_agree_def Let_def)
  obtain sc where sc: "DeriveSessionKeys P True (Some (publicKey ?desk)) (Some (publicKey ?phone))
      (Some (privateKey ?phone)) SessionCrypto_new = (True, sc)" using k(7) by (metis prod.collapse)
  have "length (publicKey ?phone) = length (publicKey ?desk)" using k(5,6) by (simp add: base64_faithful_def)
  from derive_mirrored [OF k(4) this sc] obtain cc where cc: "DeriveSessionKeys P False (Some (publicKey ?phone)) (Some (publicKey ?desk))
      (Some (privateKey ?desk)) SessionCrypto_new = (True, cc)" "mirrored sc cc" by blast
  have "wf_crypto sc" "wf_crypto cc"
    using DeriveSessionKeys_wf [OF k(3) wf_SessionCrypto_new] sc cc(1) by (metis snd_conv)+
  then have "session_live P sc cc" using k(1,2) cc(2) by (simp add: session_live_def session_paired_def)
  moreover have "hasKeys sc" "hasKeys cc" using cc(2) by (simp_all add: mirrored_def)
  ultimately show ?thesis using that sc cc(1) k(5,6) by blast
qed

subsection \<open>Properties\<close>

text \<open>An honest run streams video: when phone and PC exchange their messages unchanged, the PC
  answers the challenge with its key, the phone accepts it, and the first keyframe, of any size up
  to 65535 packets, received from the phone's address is decoded exactly as it was encoded, and
  nothing else is. The hypotheses state the behaviour of mbedTLS for the two key pairs.\<close>

theorem honest_pairing_streams_video:
  assumes lib: "chachapoly_correct P" "chachapoly_total P" "hkdf_sized P"
    and "phone = GenerateKeyPair P e1" and "desk = GenerateKeyPair P e2" and "ecdh_agrees P phone desk"
    and "base64_faithful P (publicKey phone)" and "base64_faithful P (publicKey desk)"
    and "fst (DeriveSessionKeys P True (Some (publicKey desk)) (Some (publicKey phone))
           (Some (privateKey phone)) SessionCrypto_new)"
    and "ph = snd (ConfigureUdp fd inet host port (NativeSender_new i))" and "0 \<le> fd" and "inet host \<noteq> None"
    and "inet ip = Some src" and "i \<noteq> 0" and "nal \<noteq> []" and "length nal \<le> 65535 * 1150"
    and "OnTcpControlMessage P inet e2 (challenge_text (fst (BeginPairing P e1 ph)) i)
           (connected_service ip pin cb) = (out, s)"
  shows "\<exists>k ph2. out = [ToPhone (pairing_response pin k @ [newline])] \<and>
    CompletePairing P k (snd (BeginPairing P e1 ph)) = (True, ph2) \<and>
    (\<exists>es s'. sv_run P inet (map (Datagram now us src) (fst (SendVideoNal P clock nal True ts ph2))) s = Some (es, s') \<and>
       decoded es = [\<lparr>vf_frameId = 1, vf_timestampUs = ts, vf_isKeyframe = True, vf_data = nal\<rparr>])"
proof -
  have "keys_agree P e1 e2" using assms(1-9) by (simp add: keys_agree_def Let_def)
  from keys_agreeD [OF this] obtain sc cc where keys: "hasKeys sc" "hasKeys cc" and live: "session_live P sc cc"
    and sc: "DeriveSessionKeys P True (Some (publicKey desk)) (Some (publicKey phone)) (Some (privateKey phone)) SessionCrypto_new = (True, sc)"
    and cc: "DeriveSessionKeys P False (Some (publicKey phone)) (Some (publicKey desk)) (Some (privateKey desk)) SessionCrypto_new = (True, cc)"
    unfolding assms(4,5) [symmetric] by metis
  have s: "out = [ToPhone (pairing_response pin (Base64Encode P (publicKey desk)) @ [newline])]"
    "s = (arm_receiver inet cc i (connected_service ip pin cb))\<lparr>sv_pairingState := AWAITING_PAIRING_OK\<rparr>"
    using assms(17) challenge_answered [OF assms(7,5) cc keys(2) refl, of inet i ip pin cb] assms(4) by simp_all
  obtain ph2 where ph2: "CompletePairing P (Base64Encode P (publicKey desk)) (snd (BeginPairing P e1 ph)) = (True, ph2)"
    "ns_packetizer ph2 = \<lparr>pkt_sessionId = i, pkt_sequence = 0, pkt_crypto = Some 0\<rparr>" "ns_objects ph2 = [sc]"
    "ns_frameCounter ph2 = 0" "0 \<le> ns_udpSocket ph2"
    using phone_completes [OF assms(10-12) assms(8), of e1 sc] sc keys(1) assms(4) by auto
  have packets: "fst (SendVideoNal P clock nal True ts ph2) =
      frame_packets (seal_at P [sc]) \<lparr>pkt_sessionId = i, pkt_sequence = 0, pkt_crypto = Some 0\<rparr> nal 1 ts True"
    using ph2(2-5) assms(15) by (simp add: SendVideoNal_packets frame_packets_def)
  from first_frame_decodes [OF live answered_is_ready [of inet ip src, OF assms(13) refl assms(14)] refl assms(15,16),
      where now = now and us = us and ts = ts] s ph2(1) packets
  show ?thesis by auto
qed

lemma demo_keys_generated:
  "GenerateKeyPair demo_lib (replicate 32 3) = demo_phone" "GenerateKeyPair demo_lib (replicate 32 4) = demo_desktop"
  by code_simp+

theorem honest_pairing_streams_video_witness:
  "\<exists>out s k ph2. OnTcpControlMessage demo_lib demo_inet (replicate 32 4)
       (challenge_text (fst (BeginPairing demo_lib (replicate 32 3)
          (snd (ConfigureUdp 3 demo_inet ''10.0.0.5'' 5151 (NativeSender_new 9))))) 9)
       (connected_service ''10.0.0.5'' ''1234'' True) = (out, s) \<and>
     (\<exists>es s'. sv_run demo_lib demo_inet (map (Datagram 0 0 5) (fst (SendVideoNal demo_lib (\<lambda>_. 0) [7, 8, 9] True 50 ph2))) s =
        Some (es, s') \<and> decoded es = [\<lparr>vf_frameId = 1, vf_timestampUs = 50, vf_isKeyframe = True, vf_data = [7, 8, 9]\<rparr>])"
proof -
  let ?m = "OnTcpControlMessage demo_lib demo_inet (replicate 32 4)
       (challenge_text (fst (BeginPairing demo_lib (replicate 32 3)
          (snd (ConfigureUdp 3 demo_inet ''10.0.0.5'' 5151 (NativeSender_new 9))))) 9)
       (connected_service ''10.0.0.5'' ''1234'' True)"
  have m: "?m = (fst ?m, snd ?m)" by simp
  have agree: "ecdh_agrees demo_lib demo_phone demo_desktop" unfolding ecdh_agrees_def by code_simp
  have faithful: "base64_faithful demo_lib (publicKey demo_phone)" "base64_faithful demo_lib (publicKey demo_desktop)"
    unfolding base64_faithful_def key_text_def plain_def quote_def by code_simp+
  have derived: "fst (DeriveSessionKeys demo_lib True (Some (publicKey demo_desktop)) (Some (publicKey demo_phone))
      (Some (privateKey demo_phone)) SessionCrypto_new)" by code_simp
  have addr: "demo_inet ''10.0.0.5'' \<noteq> None" "demo_inet ''10.0.0.5'' = Some 5" by (simp_all add: demo_inet_def)
  show ?thesis
    using honest_pairing_streams_video [OF demo_correct demo_total demo_hkdf_sized demo_keys_generated [symmetric]
        agree faithful derived refl _ addr(1,2) _ _ _ m, of "[7, 8, 9]" 0 0 "\<lambda>_. 0" 50] m by fastforce
qed

text \<open>C27. A key text with an escape stops pairing: when the phone's JSON library writes the key with a
  backslash (Android escapes the character \<open>/\<close> of the Base64 alphabet that way) the PC passes the
  text with the backslash to the Base64 decoder. A decoder that refuses it leaves the service
  waiting for a challenge, with the status \<open>invalid_pubkey\<close> and no answer to the phone.\<close>

theorem escaped_key_stops_pairing:
  assumes "key_text k" and "CHR 0x5C \<in> set k"
    and "\<And>t. CHR 0x5C \<in> set t \<Longrightarrow> base64_decode P t = None"
  shows "OnTcpControlMessage P inet e (challenge_text k i) (connected_service ip pin cb) =
    (status ''pairing_error:invalid_pubkey'' (connected_service ip pin cb), connected_service ip pin cb)"
proof -
  have ne: "k \<noteq> []" using key_textD [OF assms(1)] by simp
  have "Base64Decode P k = []" using assms(2,3) ne by (simp add: Base64Decode_def)
  then have "HandlePairingChallenge P inet e k i (connected_service ip pin cb) =
      (status ''pairing_error:invalid_pubkey'' (connected_service ip pin cb), connected_service ip pin cb)"
    using ne by (simp add: HandlePairingChallenge_def Let_def wire_simps)
  then show ?thesis
    by (simp only: OnTcpControlMessage_def Let_def challenge_type challenge_key [OF assms(1)]
        challenge_session [OF assms(1)] option.case if_True simp_thms)
qed

definition demo_picky :: "(u8 \<times> u8 \<times> cp_mode, bytes, bytes) mbedtls" where
  "demo_picky = demo_lib\<lparr>base64_decode := (\<lambda>t. if CHR 0x5C \<in> set t then None else Some (map of_char t))\<rparr>"

theorem escaped_key_stops_pairing_witness:
  "OnTcpControlMessage demo_picky demo_inet [] (challenge_text (replicate 42 (CHR 0x41) @ [CHR 0x5C, CHR 0x2F]) 9)
     (connected_service ''10.0.0.5'' ''1234'' True) =
   (status ''pairing_error:invalid_pubkey'' (connected_service ''10.0.0.5'' ''1234'' True),
    connected_service ''10.0.0.5'' ''1234'' True)"
  by (rule escaped_key_stops_pairing) (simp_all add: key_text_def plain_def quote_def demo_picky_def)

end
