(* ===== verification/Decoder.thy ===== *)
theory Decoder
  imports Veyra_Prelude "HOL-Library.Monad_Syntax"
begin

text \<open>
  Class \<open>MFDecoder\<close> of \<open>native/windows/decoder/mf_decoder.cpp\<close>, the H.264 decoder around a Media
  Foundation transform. A COM pointer is whether it is set; the result codes of the system calls
  and the picture that the transform returns are arguments. The mutex of the class is not
  recursive: a thread that locks it twice waits for ever, which is \<open>None\<close>, like a call through a
  null pointer or a copy past the end of a buffer.
\<close>

subsection \<open>State\<close>

record DecodedFrameNV12 =
  nv_width :: u32
  nv_height :: u32
  nv_stride :: u32
  nv_timestampUs :: u64
  yPlane :: bytes
  uvPlane :: bytes

text \<open>What is given to the transform: the bytes, the time in units of 100 ns, the key frame mark.\<close>

record mft_sample =
  sm_bytes :: bytes
  sm_time :: u64
  sm_cleanPoint :: bool

text \<open>
  \<open>dec_started\<close> counts the calls of \<open>MFStartup\<close> that were not undone by \<open>MFShutdown\<close>.
  \<open>dec_providesSamples\<close> and \<open>dec_cbSize\<close> are the two fields of \<open>outputStreamInfo_\<close> that are read.
\<close>

record MFDecoder =
  dec_width :: u32
  dec_height :: u32
  dec_initialized :: bool
  dec_isHardwareAccelerated :: bool
  dec_callback :: bool
  dec_mutex :: bool
  dec_decoderMft :: bool
  dec_dxgiDeviceManager :: bool
  dec_d3d11Device :: bool
  dec_providesSamples :: bool
  dec_cbSize :: u32
  dec_started :: nat

definition MFDecoder_new :: MFDecoder where
  "MFDecoder_new = \<lparr>dec_width = 1280, dec_height = 720, dec_initialized = False,
     dec_isHardwareAccelerated = False, dec_callback = False, dec_mutex = False, dec_decoderMft = False,
     dec_dxgiDeviceManager = False, dec_d3d11Device = False, dec_providesSamples = False,
     dec_cbSize = 0, dec_started = 0\<rparr>"

text \<open>The result of each system call of \<open>Initialize\<close>: \<open>True\<close> is \<open>SUCCEEDED\<close>.\<close>

record mf_setup =
  hr_startup :: bool
  hr_create :: bool
  hr_device :: bool
  hr_manager :: bool
  hr_inputType :: bool
  hr_outputType :: bool
  si_providesSamples :: bool
  si_cbSize :: u32

text \<open>
  The results of one \<open>DecodeFrame\<close>: the creation of the buffers and samples, \<open>ProcessInput\<close>, and
  the bytes of the picture when \<open>ProcessOutput\<close> gives one.
\<close>

record mf_call =
  hr_inputBuffer :: bool
  hr_input :: bool
  hr_outputSample :: bool
  hr_outputBuffer :: "u32 \<Rightarrow> bool"
  out_nv12 :: "bytes option"

subsection \<open>Operations\<close>

definition dec_lock :: "MFDecoder \<Rightarrow> MFDecoder option" where
  "dec_lock d = (if dec_mutex d then None else Some (d\<lparr>dec_mutex := True\<rparr>))"

definition dec_unlock :: "MFDecoder \<Rightarrow> MFDecoder" where
  "dec_unlock d = d\<lparr>dec_mutex := False\<rparr>"

definition dec_Shutdown :: "MFDecoder \<Rightarrow> MFDecoder option" where
  "dec_Shutdown d = do {
     d \<leftarrow> dec_lock d;
     Some (dec_unlock
       (if \<not> dec_initialized d then d
        else d\<lparr>dec_decoderMft := False, dec_dxgiDeviceManager := False, dec_d3d11Device := False,
               dec_started := dec_started d - 1, dec_initialized := False\<rparr>))
   }"

definition setup_d3d :: "mf_setup \<Rightarrow> bool \<Rightarrow> MFDecoder \<Rightarrow> MFDecoder" where
  "setup_d3d E hardware d =
     (if \<not> hardware then d
      else if hr_device E then
        (let d = d\<lparr>dec_d3d11Device := True\<rparr> in
         if hr_manager E then d\<lparr>dec_dxgiDeviceManager := True, dec_isHardwareAccelerated := True\<rparr>
         else d\<lparr>dec_dxgiDeviceManager := False\<rparr>)
      else d\<lparr>dec_d3d11Device := False, dec_isHardwareAccelerated := False\<rparr>)"

definition dec_Initialize ::
  "mf_setup \<Rightarrow> u32 \<Rightarrow> u32 \<Rightarrow> bool \<Rightarrow> MFDecoder \<Rightarrow> (bool \<times> MFDecoder) option" where
  "dec_Initialize E width height hardware d = do {
     d \<leftarrow> dec_lock d;
     if dec_initialized d then Some (True, dec_unlock d)
     else
       let d = d\<lparr>dec_width := width, dec_height := height, dec_isHardwareAccelerated := hardware\<rparr> in
       if \<not> hr_startup E then Some (False, dec_unlock d)
       else
         let d = d\<lparr>dec_started := dec_started d + 1\<rparr> in
         if \<not> hr_create E then
           Some (False, dec_unlock (d\<lparr>dec_decoderMft := False, dec_started := dec_started d - 1\<rparr>))
         else
           let d = setup_d3d E hardware (d\<lparr>dec_decoderMft := True\<rparr>) in
           if \<not> hr_inputType E \<or> \<not> hr_outputType E then do {
             d \<leftarrow> dec_Shutdown d;
             Some (False, dec_unlock d)
           }
           else Some (True, dec_unlock (d\<lparr>dec_providesSamples := si_providesSamples E,
             dec_cbSize := si_cbSize E, dec_initialized := True\<rparr>))
   }"

definition dec_SetFrameCallback :: "MFDecoder \<Rightarrow> MFDecoder" where
  "dec_SetFrameCallback d = d\<lparr>dec_callback := True\<rparr>"

text \<open>
  \<open>MFCreateMemoryBuffer\<close> is given the size as a 32 bit number, \<open>memcpy\<close> the whole size.
\<close>

definition copy_in :: "bytes \<Rightarrow> nat \<Rightarrow> bytes option" where
  "copy_in data n = (if length data < n \<or> unat (of_nat n :: u32) < n then None else Some (take n data))"

text \<open>The size of the output buffer; the product is computed with 32 bits.\<close>

definition output_size :: "MFDecoder \<Rightarrow> u32" where
  "output_size d = (if dec_cbSize d \<noteq> 0 then dec_cbSize d else dec_width d * dec_height d * 3 div 2)"

definition decoded_frame :: "u64 \<Rightarrow> bytes \<Rightarrow> MFDecoder \<Rightarrow> DecodedFrameNV12" where
  "decoded_frame timestampUs nv12 d =
     (let ySize = unat (dec_width d * dec_height d);
          uvSize = unat (dec_width d * dec_height d div 2);
          frame = \<lparr>nv_width = dec_width d, nv_height = dec_height d, nv_stride = dec_width d,
                   nv_timestampUs = timestampUs, yPlane = [], uvPlane = []\<rparr>
      in if ySize + uvSize \<le> length nv12
         then frame\<lparr>yPlane := take ySize nv12, uvPlane := take uvSize (drop ySize nv12)\<rparr>
         else frame)"

text \<open>The result, the sample offered to the transform, the frames given to the callback.\<close>

definition dec_DecodeFrame ::
  "mf_call \<Rightarrow> bytes option \<Rightarrow> nat \<Rightarrow> u64 \<Rightarrow> bool \<Rightarrow> MFDecoder \<Rightarrow>
     (bool \<times> mft_sample list \<times> DecodedFrameNV12 list \<times> MFDecoder) option" where
  "dec_DecodeFrame C h264Data dataSize timestampUs isKeyframe d =
     (case h264Data of
        None \<Rightarrow> Some (False, [], [], d)
      | Some data \<Rightarrow>
          if \<not> dec_initialized d \<or> dataSize = 0 then Some (False, [], [], d)
          else do {
            d \<leftarrow> dec_lock d;
            if \<not> hr_inputBuffer C then Some (False, [], [], dec_unlock d)
            else do {
              copied \<leftarrow> copy_in data dataSize;
              if \<not> dec_decoderMft d then None
              else
                let sample = \<lparr>sm_bytes = copied, sm_time = timestampUs * 10, sm_cleanPoint = isKeyframe\<rparr> in
                if \<not> hr_input C \<or>
                   \<not> dec_providesSamples d \<and> \<not> (hr_outputSample C \<and> hr_outputBuffer C (output_size d))
                then Some (False, [sample], [], dec_unlock d)
                else
                  let frames = (case out_nv12 C of None \<Rightarrow> [] | Some nv12 \<Rightarrow> [decoded_frame timestampUs nv12 d]) in
                  Some (True, [sample], if dec_callback d then frames else [], dec_unlock d)
            }
          })"

definition dec_Flush :: "MFDecoder \<Rightarrow> MFDecoder option" where
  "dec_Flush d = do { d \<leftarrow> dec_lock d; Some (dec_unlock d) }"

subsection \<open>Invariant\<close>

text \<open>
  Between two calls the mutex is free, and the transform exists and Media Foundation is started
  once exactly when the decoder is initialized.
\<close>

definition dec_ok :: "MFDecoder \<Rightarrow> bool" where
  "dec_ok d \<longleftrightarrow> \<not> dec_mutex d \<and> dec_started d = (if dec_initialized d then 1 else 0) \<and>
     dec_decoderMft d = dec_initialized d"

lemmas dec_defs = dec_ok_def dec_lock_def dec_unlock_def setup_d3d_def Let_def

lemma MFDecoder_new_ok [simp]: "dec_ok MFDecoder_new"
  by (simp add: MFDecoder_new_def dec_ok_def)

lemma dec_SetFrameCallback_ok: "dec_ok d \<Longrightarrow> dec_ok (dec_SetFrameCallback d)"
  by (simp add: dec_SetFrameCallback_def dec_ok_def)

lemma dec_Shutdown_total:
  assumes "dec_ok d"
  shows "\<exists>d'. dec_Shutdown d = Some d' \<and> dec_ok d' \<and> \<not> dec_initialized d'"
  using assms by (auto simp: dec_Shutdown_def dec_defs)

lemma dec_Initialize_hangs:
  assumes "dec_ok d"
  shows "dec_Initialize E w h hw d = None \<longleftrightarrow>
    \<not> dec_initialized d \<and> hr_startup E \<and> hr_create E \<and> \<not> (hr_inputType E \<and> hr_outputType E)"
  using assms by (auto simp: dec_Initialize_def dec_Shutdown_def dec_defs)

lemma dec_Initialize_ok:
  assumes "dec_ok d" and "dec_Initialize E w h hw d = Some (b, d')"
  shows "dec_ok d' \<and> dec_initialized d' = b \<and>
    (\<not> dec_initialized d \<longrightarrow> dec_width d' = w \<and> dec_height d' = h)"
  using assms by (auto simp: dec_Initialize_def dec_Shutdown_def dec_defs split: if_splits)

lemma copy_in_small: "n \<le> length data \<Longrightarrow> n < 2 ^ 32 \<Longrightarrow> copy_in data n = Some (take n data)"
  by (simp add: copy_in_def u32_cast_small)

lemma decoded_frame_planes:
  "(yPlane (decoded_frame t nv12 d) = [] \<and> uvPlane (decoded_frame t nv12 d) = []) \<or>
   (length (yPlane (decoded_frame t nv12 d)) = unat (dec_width d * dec_height d) \<and>
    length (uvPlane (decoded_frame t nv12 d)) = unat (dec_width d * dec_height d div 2))"
  by (simp add: decoded_frame_def Let_def)

lemma dec_DecodeFrame_keeps:
  assumes "dec_ok d" and "dec_DecodeFrame C data n t key d = Some (b, samples, frames, d')"
  shows "d' = d"
proof -
  have "d\<lparr>dec_mutex := False\<rparr> = d" using assms(1) by (cases d) (simp add: dec_ok_def)
  with assms show ?thesis
    by (auto simp: dec_DecodeFrame_def dec_lock_def dec_unlock_def Let_def split: option.splits if_splits bind_splits)
qed

text \<open>A call with fewer than \<open>2 ^ 32\<close> bytes completes, keeps the decoder, and reports frames of its size.\<close>

lemma dec_DecodeFrame_total:
  assumes "dec_ok d" and "dataSize \<le> length data" and "dataSize < 2 ^ 32"
  shows "\<exists>b samples frames. dec_DecodeFrame C (Some data) dataSize t key d = Some (b, samples, frames, d) \<and>
    (samples = [] \<or> map sm_bytes samples = [take dataSize data]) \<and>
    (frames = [] \<or> dec_initialized d \<and> (\<exists>nv12. frames = [decoded_frame t nv12 d]))"
proof (cases "dec_initialized d \<and> dataSize \<noteq> 0")
  case True
  have frame: "decoded_frame t nv12 (d\<lparr>dec_mutex := True\<rparr>) = decoded_frame t nv12 d" for nv12
    by (simp add: decoded_frame_def Let_def)
  have same: "d\<lparr>dec_mutex := False\<rparr> = d" using assms(1) by (cases d) (simp add: dec_ok_def)
  from True assms show ?thesis
    by (auto simp: dec_DecodeFrame_def dec_defs copy_in_small frame same split: option.split)
next
  case False
  then show ?thesis by (auto simp: dec_DecodeFrame_def)
qed

subsection \<open>Properties\<close>

text \<open>C23. Outcome of the initialization of a decoder on every branch: it never returns exactly when a media
  type is refused after the transform was created, because \<open>Shutdown\<close> locks the mutex that
  \<open>Initialize\<close> holds; otherwise it reports what happened, and a decoder that reports hardware
  acceleration has a Direct3D device but not always the device manager that makes the transform use it.\<close>

theorem decoder_initialization_outcome:
  assumes "dec_ok d" and "\<not> dec_initialized d"
  shows "(dec_Initialize E w h hw d = None \<longleftrightarrow>
      hr_startup E \<and> hr_create E \<and> \<not> (hr_inputType E \<and> hr_outputType E)) \<and>
    (\<forall>b d'. dec_Initialize E w h hw d = Some (b, d') \<longrightarrow>
      b = (hr_startup E \<and> hr_create E \<and> hr_inputType E \<and> hr_outputType E) \<and> dec_ok d' \<and> dec_initialized d' = b \<and>
      (b \<longrightarrow> dec_isHardwareAccelerated d' = (hw \<and> hr_device E)) \<and>
      (b \<and> hw \<and> hr_device E \<longrightarrow> dec_dxgiDeviceManager d' = hr_manager E))"
  using assms by (auto simp: dec_Initialize_def dec_Shutdown_def dec_defs split: if_splits)

theorem decoder_initialization_outcome_witness:
  "dec_Initialize \<lparr>hr_startup = True, hr_create = True, hr_device = True, hr_manager = True, hr_inputType = False,
     hr_outputType = True, si_providesSamples = False, si_cbSize = 0\<rparr> 1280 720 True MFDecoder_new = None"
  using decoder_initialization_outcome [where d = MFDecoder_new and E = "\<lparr>hr_startup = True, hr_create = True,
     hr_device = True, hr_manager = True, hr_inputType = False, hr_outputType = True, si_providesSamples = False,
     si_cbSize = 0\<rparr>" and hw = True and w = 1280 and h = 720]
  by (simp add: MFDecoder_new_def dec_ok_def)

end
