(* ===== verification/Media_Output.thy ===== *)
theory Media_Output
  imports Decoder Service
begin

text \<open>
  Where decoded pictures go: \<open>D3D11Renderer\<close> (\<open>native/windows/renderer/d3d11_renderer.cpp\<close>), the
  virtual cameras (\<open>virtual_camera/mf/mf_virtual_camera.cpp\<close>, \<open>virtual_camera_source.cpp\<close>,
  \<open>virtual_camera/dshow/dshow_filter.cpp\<close>, \<open>dshow_pin.cpp\<close>), and how \<open>ServiceManager\<close> creates, feeds
  and shuts down the decoder and its outputs (\<open>core/service_manager.cpp\<close>). The results of the system
  calls are arguments.
\<close>

subsection \<open>The renderer\<close>

text \<open>\<open>rn_sharedTexture\<close> is the size with which the texture was created.\<close>

record D3D11Renderer =
  rn_width :: u32
  rn_height :: u32
  rn_initialized :: bool
  rn_sharedHandle :: u64
  rn_device :: bool
  rn_context :: bool
  rn_sharedTexture :: "(u32 \<times> u32) option"
  rn_dxgiResource :: bool

definition D3D11Renderer_new :: D3D11Renderer where
  "D3D11Renderer_new = \<lparr>rn_width = 1280, rn_height = 720, rn_initialized = False, rn_sharedHandle = 0,
     rn_device = False, rn_context = False, rn_sharedTexture = None, rn_dxgiResource = False\<rparr>"

record d3d_setup =
  d3_device :: bool
  d3_texture :: bool
  d3_resource :: "u64 option"

definition rn_Initialize :: "d3d_setup \<Rightarrow> u32 \<Rightarrow> u32 \<Rightarrow> D3D11Renderer \<Rightarrow> bool \<times> D3D11Renderer" where
  "rn_Initialize D width height r =
     (if rn_initialized r then (True, r)
      else
        let r = r\<lparr>rn_width := width, rn_height := height\<rparr> in
        if \<not> d3_device D then (False, r\<lparr>rn_device := False, rn_context := False\<rparr>)
        else
          let r = r\<lparr>rn_device := True, rn_context := True\<rparr> in
          if \<not> d3_texture D then (False, r\<lparr>rn_sharedTexture := None\<rparr>)
          else
            let r = r\<lparr>rn_sharedTexture := Some (width, height)\<rparr>;
                r = (case d3_resource D of
                       None \<Rightarrow> r\<lparr>rn_dxgiResource := False\<rparr>
                     | Some h \<Rightarrow> r\<lparr>rn_dxgiResource := True, rn_sharedHandle := h\<rparr>)
            in (True, r\<lparr>rn_initialized := True\<rparr>))"

text \<open>The result and the bytes given to \<open>UpdateSubresource\<close>.\<close>

definition rn_RenderFrame :: "DecodedFrameNV12 \<Rightarrow> D3D11Renderer \<Rightarrow> bool \<times> bytes list" where
  "rn_RenderFrame frame r =
     (if \<not> rn_initialized r \<or> \<not> rn_context r \<or> rn_sharedTexture r = None then (False, [])
      else (True, if yPlane frame \<noteq> [] \<and> uvPlane frame \<noteq> [] then [yPlane frame @ uvPlane frame] else []))"

definition rn_Shutdown :: "D3D11Renderer \<Rightarrow> D3D11Renderer" where
  "rn_Shutdown r =
     (if \<not> rn_initialized r then r
      else r\<lparr>rn_dxgiResource := False, rn_sharedTexture := None, rn_context := False, rn_device := False,
             rn_sharedHandle := 0, rn_initialized := False\<rparr>)"

text \<open>
  The bytes that \<open>UpdateSubresource\<close> reads for an NV12 texture of the given size with rows of
  \<open>pitch\<close> bytes: \<open>height\<close> rows of luminance and half as many of colour.
\<close>

definition nv12_read :: "nat \<Rightarrow> nat \<Rightarrow> nat" where
  "nv12_read pitch height = pitch * (height + height div 2)"

subsection \<open>The virtual cameras\<close>

record MFVirtualCamera =
  vc_isRegistered :: bool
  vc_isActive :: bool
  vc_virtualCamera :: bool

definition MFVirtualCamera_new :: MFVirtualCamera where
  "MFVirtualCamera_new = \<lparr>vc_isRegistered = False, vc_isActive = False, vc_virtualCamera = False\<rparr>"

record camera_setup =
  cs_supported :: bool
  cs_create :: bool
  cs_start :: bool

definition vc_Register :: "camera_setup \<Rightarrow> MFVirtualCamera \<Rightarrow> bool \<times> MFVirtualCamera" where
  "vc_Register V c =
     (if vc_isRegistered c then (True, c)
      else if \<not> cs_supported V then (False, c)
      else
        let c = c\<lparr>vc_virtualCamera := cs_create V\<rparr> in
        if cs_create V \<and> cs_start V then (True, c\<lparr>vc_isRegistered := True\<rparr>) else (False, c))"

definition vc_Unregister :: "MFVirtualCamera \<Rightarrow> MFVirtualCamera" where
  "vc_Unregister c =
     (if \<not> vc_isRegistered c then c
      else c\<lparr>vc_virtualCamera := False, vc_isRegistered := False, vc_isActive := False\<rparr>)"

definition vc_Start :: "MFVirtualCamera \<Rightarrow> MFVirtualCamera" where
  "vc_Start c = c\<lparr>vc_isActive := True\<rparr>"

definition vc_Stop :: "MFVirtualCamera \<Rightarrow> MFVirtualCamera" where
  "vc_Stop c = c\<lparr>vc_isActive := False\<rparr>"

text \<open>The body of \<open>PushFrame\<close> is a comment after its guard.\<close>

definition vc_PushFrame :: "DecodedFrameNV12 \<Rightarrow> MFVirtualCamera \<Rightarrow> MFVirtualCamera" where
  "vc_PushFrame frame c = c"

record DShowFilter =
  ds_width :: u32
  ds_height :: u32
  ds_fps :: u32
  ds_isActive :: bool
  ds_latestRgbFrame :: bytes

definition DShowFilter_new :: DShowFilter where
  "DShowFilter_new = \<lparr>ds_width = 1280, ds_height = 720, ds_fps = 30, ds_isActive = False, ds_latestRgbFrame = []\<rparr>"

definition resize :: "nat \<Rightarrow> 'a \<Rightarrow> 'a list \<Rightarrow> 'a list" where
  "resize n x xs = take n xs @ replicate (n - length xs) x"

definition ds_Initialize :: "u32 \<Rightarrow> u32 \<Rightarrow> u32 \<Rightarrow> DShowFilter \<Rightarrow> DShowFilter" where
  "ds_Initialize width height fps f =
     f\<lparr>ds_width := width, ds_height := height, ds_fps := fps,
       ds_latestRgbFrame := resize (unat (width * height * 3)) 0 (ds_latestRgbFrame f), ds_isActive := True\<rparr>"

definition ds_PushFrame :: "DecodedFrameNV12 \<Rightarrow> DShowFilter \<Rightarrow> DShowFilter" where
  "ds_PushFrame frame f = f"

definition ds_Shutdown :: "DShowFilter \<Rightarrow> DShowFilter" where
  "ds_Shutdown f = f\<lparr>ds_isActive := False, ds_latestRgbFrame := []\<rparr>"

text \<open>\<open>DShowPin::FillBuffer\<close>; a size beyond the buffer is undefined.\<close>

definition FillBuffer :: "bool \<Rightarrow> bytes option \<Rightarrow> nat \<Rightarrow> (bool \<times> bytes option) option" where
  "FillBuffer hasFilter buffer bufferSize =
     (case buffer of
        None \<Rightarrow> Some (False, None)
      | Some b \<Rightarrow>
          if \<not> hasFilter then Some (False, Some b)
          else if length b < bufferSize then None
          else Some (True, Some (replicate bufferSize 0 @ drop bufferSize b)))"

text \<open>\<open>VirtualCameraMediaStream\<close>, the queue between the decoder and a media source.\<close>

record MediaStream =
  vs_isStreaming :: bool
  vs_frameQueue :: "DecodedFrameNV12 list"

definition MediaStream_new :: MediaStream where
  "MediaStream_new = \<lparr>vs_isStreaming = False, vs_frameQueue = []\<rparr>"

definition vs_Start :: "MediaStream \<Rightarrow> MediaStream" where
  "vs_Start s = s\<lparr>vs_isStreaming := True\<rparr>"

definition vs_Stop :: "MediaStream \<Rightarrow> MediaStream" where
  "vs_Stop s = s\<lparr>vs_isStreaming := False, vs_frameQueue := []\<rparr>"

definition vs_PushFrame :: "DecodedFrameNV12 \<Rightarrow> MediaStream \<Rightarrow> MediaStream" where
  "vs_PushFrame frame s =
     (if \<not> vs_isStreaming s then s
      else s\<lparr>vs_frameQueue := (if 3 \<le> length (vs_frameQueue s) then tl (vs_frameQueue s) else vs_frameQueue s) @ [frame]\<rparr>)"

text \<open>The destructors, and the functions of \<open>dshow_registration.cpp\<close>: the result and the line printed.\<close>

definition vc_destroy :: "MFVirtualCamera \<Rightarrow> MFVirtualCamera" where
  "vc_destroy c = vc_Unregister (vc_Stop c)"

definition ds_destroy :: "DShowFilter \<Rightarrow> DShowFilter" where
  "ds_destroy f = ds_Shutdown f"

definition vs_destroy :: "MediaStream \<Rightarrow> MediaStream" where
  "vs_destroy s = vs_Stop s"

definition rn_destroy :: "D3D11Renderer \<Rightarrow> D3D11Renderer" where
  "rn_destroy r = rn_Shutdown r"

definition RegisterDirectShowFilter :: "string \<Rightarrow> bool \<times> string" where
  "RegisterDirectShowFilter filterName = (True, ''[DShowRegistration] DirectShow COM filter registered as: '' @ filterName)"

definition UnregisterDirectShowFilter :: "bool \<times> string" where
  "UnregisterDirectShowFilter = (True, ''[DShowRegistration] DirectShow COM filter unregistered'')"

text \<open>Nothing of a camera outlives it; a renderer keeps its handle only when it was never initialized.\<close>

lemma destroyed_outputs:
  "\<not> vc_isRegistered (vc_destroy c)" "\<not> vc_isActive (vc_destroy c)"
  "ds_latestRgbFrame (ds_destroy f) = []" "vs_frameQueue (vs_destroy s) = []"
  "\<not> rn_initialized (rn_destroy r)" "rn_initialized r \<Longrightarrow> rn_sharedHandle (rn_destroy r) = 0"
  by (simp_all add: vc_destroy_def vc_Unregister_def vc_Stop_def ds_destroy_def ds_Shutdown_def vs_destroy_def vs_Stop_def
      rn_destroy_def rn_Shutdown_def)

subsection \<open>The service and its outputs\<close>

record outputs =
  mo_renderer :: "D3D11Renderer option"
  mo_virtualCamera :: "MFVirtualCamera option"
  mo_dshowFilter :: "DShowFilter option"
  mo_decoder :: "MFDecoder option"

definition outputs_new :: outputs where
  "outputs_new = \<lparr>mo_renderer = None, mo_virtualCamera = None, mo_dshowFilter = None, mo_decoder = None\<rparr>"

text \<open>Replacing or resetting the decoder pointer runs the destructor of the old object.\<close>

definition destroy_decoder :: "MFDecoder option \<Rightarrow> unit option" where
  "destroy_decoder dec = (case dec of None \<Rightarrow> Some () | Some d \<Rightarrow> map_option (\<lambda>_. ()) (dec_Shutdown d))"

text \<open>Steps 1 to 3 of \<open>ServiceManager::Initialize\<close>, which ignores the results of 1 and 3.\<close>

definition mo_Initialize :: "d3d_setup \<Rightarrow> camera_setup \<Rightarrow> mf_setup \<Rightarrow> outputs \<Rightarrow> outputs option" where
  "mo_Initialize D V E m =
     (let (_, renderer) = rn_Initialize D 1280 720 D3D11Renderer_new;
          (registered, camera) = vc_Register V MFVirtualCamera_new;
          dshow = (if registered then mo_dshowFilter m else Some (ds_Initialize 1280 720 30 DShowFilter_new))
      in do {
        _ \<leftarrow> destroy_decoder (mo_decoder m);
        (_, decoder) \<leftarrow> dec_Initialize E 1280 720 True MFDecoder_new;
        Some \<lparr>mo_renderer = Some renderer, mo_virtualCamera = Some (vc_Start camera), mo_dshowFilter = dshow,
              mo_decoder = Some (dec_SetFrameCallback decoder)\<rparr>
      })"

text \<open>The frame callback of the decoder: what is uploaded to the texture.\<close>

definition mo_on_decoded :: "DecodedFrameNV12 \<Rightarrow> outputs \<Rightarrow> bytes list \<times> outputs" where
  "mo_on_decoded frame m =
     ((case mo_renderer m of None \<Rightarrow> [] | Some r \<Rightarrow> snd (rn_RenderFrame frame r)),
      m\<lparr>mo_virtualCamera := map_option (vc_PushFrame frame) (mo_virtualCamera m),
        mo_dshowFilter := map_option (ds_PushFrame frame) (mo_dshowFilter m)\<rparr>)"

fun mo_callbacks :: "DecodedFrameNV12 list \<Rightarrow> outputs \<Rightarrow> bytes list \<times> outputs" where
  "mo_callbacks [] m = ([], m)"
| "mo_callbacks (f # fs) m =
     (let (up, m) = mo_on_decoded f m; (ups, m) = mo_callbacks fs m in (up @ ups, m))"

text \<open>The reaction of the decoder to a frame of the reassembler: samples offered, pictures uploaded.\<close>

definition mo_frame :: "mf_call \<Rightarrow> VideoFrame \<Rightarrow> outputs \<Rightarrow> (mft_sample list \<times> bytes list \<times> outputs) option" where
  "mo_frame C frame m =
     (case mo_decoder m of
        None \<Rightarrow> Some ([], [], m)
      | Some d \<Rightarrow> do {
          (_, samples, frames, d) \<leftarrow> dec_DecodeFrame C (Some (vf_data frame)) (length (vf_data frame))
            (vf_timestampUs frame) (vf_isKeyframe frame) d;
          let (uploads, m) = mo_callbacks frames m in Some (samples, uploads, m\<lparr>mo_decoder := Some d\<rparr>)
        })"

text \<open>
  \<open>ServiceManager::Shutdown\<close> after the connection and the media server are gone: the objects as
  they are destroyed, and the empty pointers.
\<close>

definition mo_Shutdown :: "outputs \<Rightarrow> (outputs \<times> outputs) option" where
  "mo_Shutdown m = do {
     decoder \<leftarrow> (case mo_decoder m of None \<Rightarrow> Some None | Some d \<Rightarrow> map_option Some (dec_Shutdown d));
     _ \<leftarrow> destroy_decoder decoder;
     Some (\<lparr>mo_renderer = map_option rn_Shutdown (mo_renderer m),
            mo_virtualCamera = map_option (vc_Unregister \<circ> vc_Stop) (mo_virtualCamera m),
            mo_dshowFilter = map_option ds_Shutdown (mo_dshowFilter m), mo_decoder = decoder\<rparr>, outputs_new)
   }"

text \<open>\<open>GetSharedTextureHandle\<close>.\<close>

definition mo_texture_handle :: "outputs \<Rightarrow> u64" where
  "mo_texture_handle m = (case mo_renderer m of None \<Rightarrow> 0 | Some r \<Rightarrow> rn_sharedHandle r)"

subsection \<open>Runs\<close>

datatype mo_op =
    MO_Init d3d_setup camera_setup mf_setup
  | MO_Frame mf_call VideoFrame
  | MO_Shutdown

fun mo_step :: "mo_op \<Rightarrow> outputs \<Rightarrow> outputs option" where
  "mo_step (MO_Init D V E) m = mo_Initialize D V E m"
| "mo_step (MO_Frame C f) m = map_option (\<lambda>(samples, uploads, m'). m') (mo_frame C f m)"
| "mo_step MO_Shutdown m = map_option snd (mo_Shutdown m)"

inductive mo_reach :: "outputs \<Rightarrow> bool" where
  start: "mo_reach outputs_new"
| step: "mo_reach m \<Longrightarrow> mo_step x m = Some m' \<Longrightarrow> mo_reach m'"

text \<open>The renderer and the decoder of the service have the size 1280 x 720.\<close>

definition rn_ok :: "D3D11Renderer \<Rightarrow> bool" where
  "rn_ok r \<longleftrightarrow> rn_width r = 1280 \<and> rn_height r = 720 \<and>
     (if rn_initialized r then rn_sharedTexture r = Some (1280, 720) \<and> rn_context r
      else rn_sharedTexture r = None \<and> rn_sharedHandle r = 0)"

definition sized_decoder :: "MFDecoder \<Rightarrow> bool" where
  "sized_decoder d \<longleftrightarrow> dec_ok d \<and> (dec_initialized d \<longrightarrow> dec_width d = 1280 \<and> dec_height d = 720)"

definition mo_ok :: "outputs \<Rightarrow> bool" where
  "mo_ok m \<longleftrightarrow> pred_option rn_ok (mo_renderer m) \<and> pred_option sized_decoder (mo_decoder m)"

lemma rn_Initialize_ok: "rn_ok (snd (rn_Initialize D 1280 720 D3D11Renderer_new))"
  by (auto simp: rn_Initialize_def D3D11Renderer_new_def rn_ok_def Let_def split: option.split)

lemma mo_on_decoded_keeps [simp]: "snd (mo_on_decoded f m) = m"
  by (simp add: mo_on_decoded_def vc_PushFrame_def [abs_def] ds_PushFrame_def [abs_def] option.map_ident)

lemma mo_on_decoded_pair: "mo_on_decoded f m = (fst (mo_on_decoded f m), m)"
  by (rule prod_eqI) simp_all

lemma mo_callbacks_keep [simp]: "snd (mo_callbacks fs m) = m"
proof (induction fs)
  case Nil
  then show ?case by simp
next
  case (Cons f fs)
  then show ?case using mo_on_decoded_keeps [of f m] by (auto simp: split_beta)
qed

lemma mo_callbacks_single: "mo_callbacks [f] m = (fst (mo_on_decoded f m), m)"
  by (subst mo_callbacks.simps, subst mo_on_decoded_pair) simp

lemma destroy_decoder_total: "pred_option sized_decoder dec \<Longrightarrow> destroy_decoder dec = Some ()"
  using dec_Shutdown_total by (cases dec) (fastforce simp: destroy_decoder_def sized_decoder_def)+

text \<open>Starting the service never returns exactly when the decoder does not.\<close>

lemma mo_Initialize_hangs:
  assumes "mo_ok m"
  shows "mo_Initialize D V E m = None \<longleftrightarrow> hr_startup E \<and> hr_create E \<and> \<not> (hr_inputType E \<and> hr_outputType E)"
proof -
  have "\<not> dec_initialized MFDecoder_new" by (simp add: MFDecoder_new_def)
  with dec_Initialize_hangs [of MFDecoder_new E 1280 720 True] destroy_decoder_total [of "mo_decoder m"] assms
  show ?thesis
    by (cases "dec_Initialize E 1280 720 True MFDecoder_new") (auto simp: mo_Initialize_def mo_ok_def split_beta)
qed

lemma mo_Initialize_ok:
  assumes "mo_Initialize D V E m = Some m'"
  shows "mo_ok m'"
proof -
  have new: "\<not> dec_initialized MFDecoder_new" by (simp add: MFDecoder_new_def)
  from assms obtain b d where d: "dec_Initialize E 1280 720 True MFDecoder_new = Some (b, d)"
    "m' = \<lparr>mo_renderer = Some (snd (rn_Initialize D 1280 720 D3D11Renderer_new)),
       mo_virtualCamera = mo_virtualCamera m', mo_dshowFilter = mo_dshowFilter m',
       mo_decoder = Some (dec_SetFrameCallback d)\<rparr>"
    by (auto simp: mo_Initialize_def split_beta split: bind_splits)
  from dec_Initialize_ok [OF MFDecoder_new_ok d(1)] new have "sized_decoder (dec_SetFrameCallback d)"
    by (simp add: sized_decoder_def dec_ok_def dec_SetFrameCallback_def)
  then show ?thesis by (subst d(2)) (simp add: mo_ok_def rn_Initialize_ok)
qed

lemma mo_frame_keeps:
  assumes "mo_ok m" and "mo_frame C f m = Some (samples, uploads, m')"
  shows "m' = m"
proof (cases "mo_decoder m")
  case None
  with assms(2) show ?thesis by (simp add: mo_frame_def)
next
  case (Some d)
  with assms have d: "dec_ok d" by (simp add: mo_ok_def sized_decoder_def)
  from assms(2) Some obtain b frames d' where
    call: "dec_DecodeFrame C (Some (vf_data f)) (length (vf_data f)) (vf_timestampUs f) (vf_isKeyframe f) d =
        Some (b, samples, frames, d')" and m': "m' = (snd (mo_callbacks frames m))\<lparr>mo_decoder := Some d'\<rparr>"
    by (auto simp: mo_frame_def split_beta split: bind_splits)
  with dec_DecodeFrame_keeps [OF d call] Some show ?thesis by (cases m) simp
qed

text \<open>A frame of fewer than \<open>2 ^ 32\<close> bytes is handled, and changes neither the decoder nor its outputs.\<close>

lemma mo_frame_total:
  assumes "mo_ok m" and "length (vf_data f) < 2 ^ 32"
  shows "\<exists>samples uploads. mo_frame C f m = Some (samples, uploads, m) \<and>
    (samples = [] \<or> map sm_bytes samples = [vf_data f]) \<and>
    (uploads = [] \<or> (\<exists>d nv12. mo_decoder m = Some d \<and> dec_initialized d \<and>
       uploads = fst (mo_on_decoded (decoded_frame (vf_timestampUs f) nv12 d) m)))"
proof (cases "mo_decoder m")
  case None
  then show ?thesis by (simp add: mo_frame_def)
next
  case (Some d)
  with assms have d: "dec_ok d" by (simp add: mo_ok_def sized_decoder_def)
  from dec_DecodeFrame_total [OF d order_refl assms(2)] obtain b samples frames where
    call: "dec_DecodeFrame C (Some (vf_data f)) (length (vf_data f)) (vf_timestampUs f) (vf_isKeyframe f) d =
        Some (b, samples, frames, d)"
    and samples: "samples = [] \<or> map sm_bytes samples = [vf_data f]"
    and frames: "frames = [] \<or> dec_initialized d \<and> (\<exists>nv12. frames = [decoded_frame (vf_timestampUs f) nv12 d])"
    by (metis take_all order_refl)
  have same: "m\<lparr>mo_decoder := Some d\<rparr> = m" using Some by (cases m) simp
  have "mo_frame C f m = Some (samples, fst (mo_callbacks frames m), m)"
    using Some call same mo_callbacks_keep [of frames m] by (simp add: mo_frame_def split_beta)
  with samples frames Some show ?thesis by (auto simp: mo_callbacks_single simp del: mo_callbacks.simps(2))
qed

text \<open>\<open>Shutdown\<close> completes and releases what the outputs hold.\<close>

definition released :: "outputs \<Rightarrow> bool" where
  "released m \<longleftrightarrow> pred_option (\<lambda>d. dec_started d = 0 \<and> \<not> dec_decoderMft d \<and> \<not> dec_mutex d) (mo_decoder m) \<and>
     pred_option (\<lambda>c. \<not> vc_isRegistered c \<and> \<not> vc_isActive c) (mo_virtualCamera m) \<and> mo_texture_handle m = 0"

lemma mo_Shutdown_releases:
  assumes ok: "mo_ok m"
  shows "\<exists>old. mo_Shutdown m = Some (old, outputs_new) \<and> released old"
proof -
  have cam: "pred_option (\<lambda>c. \<not> vc_isRegistered c \<and> \<not> vc_isActive c)
      (map_option (vc_Unregister \<circ> vc_Stop) (mo_virtualCamera m))"
    by (cases "mo_virtualCamera m") (simp_all add: vc_Unregister_def vc_Stop_def)
  have ren: "case map_option rn_Shutdown (mo_renderer m) of None \<Rightarrow> True | Some r \<Rightarrow> rn_sharedHandle r = 0"
    using ok by (cases "mo_renderer m") (auto simp: mo_ok_def rn_ok_def rn_Shutdown_def)
  show ?thesis
  proof (cases "mo_decoder m")
    case None
    then show ?thesis using cam ren
      by (auto simp: mo_Shutdown_def destroy_decoder_def mo_texture_handle_def released_def split: option.splits)
  next
    case (Some d)
    with ok obtain d' where d': "dec_Shutdown d = Some d'" "dec_ok d'" "\<not> dec_initialized d'"
      using dec_Shutdown_total by (auto simp: mo_ok_def sized_decoder_def)
    have "destroy_decoder (Some d') = Some ()" by (rule destroy_decoder_total) (simp add: sized_decoder_def d')
    with Some d' cam ren show ?thesis
      by (auto simp: mo_Shutdown_def mo_texture_handle_def dec_ok_def released_def split: option.splits)
  qed
qed

lemma mo_reach_ok:
  assumes "mo_reach m"
  shows "mo_ok m"
  using assms
proof induction
  case start
  then show ?case by (simp add: outputs_new_def mo_ok_def)
next
  case (step m x m')
  show ?case
  proof (cases x)
    case (MO_Init D V E)
    with step show ?thesis by (auto intro: mo_Initialize_ok)
  next
    case (MO_Frame C f)
    with step obtain s u where f: "mo_frame C f m = Some (s, u, m')" by auto
    with mo_frame_keeps [OF step.IH f] step.IH show ?thesis by simp
  next
    case MO_Shutdown
    with step have "m' = outputs_new" by (auto simp: mo_Shutdown_def split: bind_splits)
    then show ?thesis by (simp add: outputs_new_def mo_ok_def)
  qed
qed

subsection \<open>The queue of the media source\<close>

datatype vs_op = VS_Start | VS_Stop | VS_Push DecodedFrameNV12

fun vs_step :: "vs_op \<Rightarrow> MediaStream \<Rightarrow> MediaStream" where
  "vs_step VS_Start s = vs_Start s"
| "vs_step VS_Stop s = vs_Stop s"
| "vs_step (VS_Push f) s = vs_PushFrame f s"

text \<open>The specification: whether the stream runs, and all frames pushed while it ran since the last stop.\<close>

fun vs_spec :: "vs_op \<Rightarrow> bool \<times> DecodedFrameNV12 list \<Rightarrow> bool \<times> DecodedFrameNV12 list" where
  "vs_spec VS_Start (run, fs) = (True, fs)"
| "vs_spec VS_Stop (run, fs) = (False, [])"
| "vs_spec (VS_Push f) (run, fs) = (run, if run then fs @ [f] else fs)"

definition latest :: "nat \<Rightarrow> 'a list \<Rightarrow> 'a list" where
  "latest n xs = drop (length xs - n) xs"

definition vs_abs :: "bool \<times> DecodedFrameNV12 list \<Rightarrow> MediaStream" where
  "vs_abs a = \<lparr>vs_isStreaming = fst a, vs_frameQueue = latest 3 (snd a)\<rparr>"

lemma latest_snoc:
  "0 < n \<Longrightarrow> latest n (xs @ [x]) = (if n \<le> length (latest n xs) then tl (latest n xs) else latest n xs) @ [x]"
  by (auto simp: latest_def drop_Suc [symmetric] Suc_diff_le tl_drop drop_tl [symmetric] split: nat_diff_split)

lemma vs_step_refines: "vs_step x (vs_abs a) = vs_abs (vs_spec x a)"
  by (cases a; cases x)
    (auto simp: vs_abs_def vs_Start_def vs_Stop_def vs_PushFrame_def latest_snoc, simp add: latest_def)

lemma vs_run_refines: "fold vs_step xs (vs_abs a) = vs_abs (fold vs_spec xs a)"
  by (induction xs arbitrary: a) (simp_all add: vs_step_refines)

subsection \<open>From the reassembler to the transform\<close>

fun mo_frames :: "(mf_call \<times> VideoFrame) list \<Rightarrow> outputs \<Rightarrow> (mft_sample list \<times> bytes list \<times> outputs) option" where
  "mo_frames [] m = Some ([], [], m)"
| "mo_frames ((C, f) # cfs) m = do {
     (s1, u1, m) \<leftarrow> mo_frame C f m;
     (s2, u2, m) \<leftarrow> mo_frames cfs m;
     Some (s1 @ s2, u1 @ u2, m)
   }"

definition sample_of :: "VideoFrame \<Rightarrow> mft_sample" where
  "sample_of f = \<lparr>sm_bytes = vf_data f, sm_time = vf_timestampUs f * 10, sm_cleanPoint = vf_isKeyframe f\<rparr>"

definition accepted :: "mf_call \<times> VideoFrame \<Rightarrow> bool" where
  "accepted cf \<longleftrightarrow> hr_inputBuffer (fst cf) \<and> vf_data (snd cf) \<noteq> [] \<and> length (vf_data (snd cf)) < 2 ^ 32"

lemma mo_frame_offers:
  assumes "mo_ok m" "mo_decoder m = Some d" "dec_initialized d" "accepted (C, f)"
  shows "\<exists>u. mo_frame C f m = Some ([sample_of f], u, m)"
proof -
  from assms have ok: "dec_ok d" by (simp add: mo_ok_def sized_decoder_def)
  obtain samples u where call: "mo_frame C f m = Some (samples, u, m)"
    using mo_frame_total [OF assms(1), of f C] assms(4) by (auto simp: accepted_def)
  moreover from call assms ok have "samples = [sample_of f]"
    by (auto simp: mo_frame_def dec_DecodeFrame_def dec_lock_def dec_ok_def accepted_def copy_in_small sample_of_def
        Let_def split: if_splits bind_splits prod.splits)
  ultimately show ?thesis by simp
qed

lemma mo_frames_offer:
  assumes "mo_ok m" "mo_decoder m = Some d" "dec_initialized d"
  shows "list_all accepted cfs \<Longrightarrow> \<exists>u. mo_frames cfs m = Some (map (sample_of \<circ> snd) cfs, u, m)"
proof (induction cfs rule: list.induct)
  case Nil
  then show ?case by simp
next
  case (Cons cf cfs)
  then show ?case using mo_frame_offers [OF assms, of "fst cf" "snd cf"] by (cases cf) auto
qed

subsection \<open>Properties\<close>

text \<open>The setup in which every system call succeeds, and a call that gives a black picture.\<close>

definition demo_d3d :: d3d_setup where
  "demo_d3d = \<lparr>d3_device = True, d3_texture = True, d3_resource = Some 77\<rparr>"

definition demo_mf :: mf_setup where
  "demo_mf = \<lparr>hr_startup = True, hr_create = True, hr_device = True, hr_manager = True, hr_inputType = True,
     hr_outputType = True, si_providesSamples = True, si_cbSize = 0\<rparr>"

definition demo_camera :: camera_setup where
  "demo_camera = \<lparr>cs_supported = True, cs_create = True, cs_start = True\<rparr>"

definition demo_call :: "bytes option \<Rightarrow> mf_call" where
  "demo_call nv12 = \<lparr>hr_inputBuffer = True, hr_input = True, hr_outputSample = True,
     hr_outputBuffer = (\<lambda>_. True), out_nv12 = nv12\<rparr>"

definition demo_outputs :: outputs where
  "demo_outputs = the (mo_Initialize demo_d3d demo_camera demo_mf outputs_new)"

lemma demo_Initialize:
  "mo_Initialize demo_d3d demo_camera demo_mf outputs_new = Some demo_outputs"
  unfolding demo_outputs_def by code_simp

lemma demo_outputs_reach: "mo_reach demo_outputs"
  using mo_reach.step [OF mo_reach.start, of "MO_Init demo_d3d demo_camera demo_mf"] demo_Initialize by simp

definition demo_picture :: VideoFrame where
  "demo_picture = \<lparr>vf_frameId = 1, vf_timestampUs = 5, vf_isKeyframe = True, vf_data = [7]\<rparr>"

lemma demo_upload:
  assumes "length nv12 = 1382400"
  shows "\<exists>samples u. mo_frame (demo_call (Some nv12)) demo_picture demo_outputs = Some (samples, [u], demo_outputs)"
proof -
  have "case mo_decoder demo_outputs of None \<Rightarrow> False | Some d \<Rightarrow> dec_initialized d \<and> \<not> dec_mutex d \<and>
      dec_decoderMft d \<and> dec_providesSamples d \<and> dec_callback d \<and> dec_width d = 1280 \<and> dec_height d = 720"
    by code_simp
  then obtain d where d: "mo_decoder demo_outputs = Some d" "dec_initialized d" "\<not> dec_mutex d" "dec_decoderMft d"
    "dec_providesSamples d" "dec_callback d" "dec_width d = 1280" "dec_height d = 720"
    by (auto split: option.splits)
  have "case mo_renderer demo_outputs of None \<Rightarrow> False | Some r \<Rightarrow> rn_initialized r \<and> rn_context r \<and>
      rn_sharedTexture r \<noteq> None" by code_simp
  then obtain r where r: "mo_renderer demo_outputs = Some r" "rn_initialized r" "rn_context r" "rn_sharedTexture r \<noteq> None"
    by (auto split: option.splits)
  let ?frame = "decoded_frame 5 nv12 (d\<lparr>dec_mutex := True\<rparr>)"
  have planes: "yPlane ?frame \<noteq> [] \<and> uvPlane ?frame \<noteq> []"
    using d(7,8) assms by (auto simp: decoded_frame_def)
  have copy: "copy_in [7] 1 = Some [7 :: u8]" by code_simp
  have "snd (rn_RenderFrame ?frame r) = [yPlane ?frame @ uvPlane ?frame]"
    using r planes by (simp add: rn_RenderFrame_def)
  then have up: "fst (mo_on_decoded ?frame demo_outputs) = [yPlane ?frame @ uvPlane ?frame]"
    using r(1) by (simp add: mo_on_decoded_def)
  have "\<exists>samples. mo_frame (demo_call (Some nv12)) demo_picture demo_outputs =
      Some (samples, fst (mo_callbacks [?frame] demo_outputs), demo_outputs\<lparr>mo_decoder := Some (dec_unlock (d\<lparr>dec_mutex := True\<rparr>))\<rparr>)"
    using d copy mo_callbacks_keep [of "[?frame]" demo_outputs]
    by (simp add: mo_frame_def dec_DecodeFrame_def dec_lock_def demo_call_def demo_picture_def split_beta
        del: mo_callbacks.simps)
  moreover have "mo_ok demo_outputs" using mo_reach_ok [OF demo_outputs_reach] .
  ultimately show ?thesis using mo_frame_keeps up by (simp add: mo_callbacks_single del: mo_callbacks.simps) metis
qed

text \<open>C22. Every picture that is uploaded fills the shared texture: whatever the system calls returned, in
  every reachable state of the service the texture exists with 1280 x 720 pixels and the uploaded
  bytes are exactly those that \<open>UpdateSubresource\<close> reads; a frame gives at most one upload.\<close>

theorem uploads_fill_the_texture:
  assumes "mo_reach m" and "length (vf_data f) < 2 ^ 32" and "mo_frame C f m = Some (samples, uploads, m')"
  shows "length uploads \<le> 1 \<and>
    (\<forall>u \<in> set uploads. length u = nv12_read 1280 720 \<and>
       (\<exists>r. mo_renderer m = Some r \<and> rn_width r = 1280 \<and> rn_sharedTexture r = Some (1280, 720)))"
proof (cases "uploads = []")
  case False
  have ok: "mo_ok m" using mo_reach_ok [OF assms(1)] .
  from mo_frame_total [OF ok assms(2), of C] assms(3) False obtain d nv12 where
    d: "mo_decoder m = Some d" "dec_initialized d" and
    up: "uploads = fst (mo_on_decoded (decoded_frame (vf_timestampUs f) nv12 d) m)" by auto
  with ok have "dec_width d = 1280" "dec_height d = 720" by (simp_all add: mo_ok_def sized_decoder_def)
  with decoded_frame_planes [of "vf_timestampUs f" nv12 d] up False ok show ?thesis
    by (auto simp: mo_on_decoded_def rn_RenderFrame_def mo_ok_def rn_ok_def nv12_read_def
        split: option.splits if_splits)
qed simp

theorem uploads_fill_the_texture_witness:
  "\<exists>nv12 samples u. mo_frame (demo_call (Some nv12)) demo_picture demo_outputs = Some (samples, [u], demo_outputs) \<and>
     length u = 1382400"
proof -
  obtain nv12 :: bytes where len: "length nv12 = 1382400" using Ex_list_of_length by blast
  then have "nv12 \<noteq> []" by auto
  obtain samples u where "mo_frame (demo_call (Some nv12)) demo_picture demo_outputs = Some (samples, [u], demo_outputs)"
    using demo_upload [OF len] by blast
  with uploads_fill_the_texture [OF demo_outputs_reach _ this] show ?thesis
    by (auto simp: nv12_read_def demo_picture_def)
qed

text \<open>Decoding and shutting down are always possible: in every reachable state a frame of fewer than
  \<open>2 ^ 32\<close> bytes is handled without waiting on a lock and without a null pointer, and offers the
  transform at most that frame; \<open>Shutdown\<close> completes, and the destroyed decoder has undone its
  \<open>MFStartup\<close>, the camera is unregistered and the texture handle is withdrawn.\<close>

theorem media_outputs_always_respond:
  assumes "mo_reach m" and "length (vf_data f) < 2 ^ 32"
  shows "(\<exists>samples uploads. mo_frame C f m = Some (samples, uploads, m) \<and>
      (samples = [] \<or> map sm_bytes samples = [vf_data f])) \<and>
    (\<exists>old. mo_Shutdown m = Some (old, outputs_new) \<and> released old)"
  using mo_frame_total [OF mo_reach_ok [OF assms(1)] assms(2), of C] mo_Shutdown_releases [OF mo_reach_ok [OF assms(1)]]
  by auto

theorem media_outputs_always_respond_witness:
  "\<exists>s u. mo_frame (demo_call None) \<lparr>vf_frameId = 1, vf_timestampUs = 5, vf_isKeyframe = True, vf_data = [7]\<rparr>
     demo_outputs = Some (s, u, demo_outputs) \<and> (\<exists>old. mo_Shutdown demo_outputs = Some (old, outputs_new))"
  using media_outputs_always_respond [OF demo_outputs_reach, of "\<lparr>vf_frameId = 1, vf_timestampUs = 5,
    vf_isKeyframe = True, vf_data = [7]\<rparr>" "demo_call None"] by auto

text \<open>The media source keeps the latest pictures: after any sequence of starts, stops and pushes its
  queue holds, in order, the last three of the pictures pushed while it ran since the last stop.\<close>

theorem camera_stream_keeps_the_latest_frames:
  "fold vs_step xs MediaStream_new =
     \<lparr>vs_isStreaming = fst (fold vs_spec xs (False, [])),
      vs_frameQueue = latest 3 (snd (fold vs_spec xs (False, [])))\<rparr>"
proof -
  have "MediaStream_new = vs_abs (False, [])" by (simp add: MediaStream_new_def vs_abs_def latest_def)
  then show ?thesis using vs_run_refines [of xs "(False, [])"] by (simp add: vs_abs_def)
qed

text \<open>C21. The composed media path: when datagrams arrive from the expected source, the service decodes
  exactly the frames that the reassembler emits for them, and the transform is offered these
  frames, with their bytes, times and key frame marks, in the same order.\<close>

theorem transform_gets_the_reassembled_frames:
  assumes "media_ready src r s" and "\<forall>d \<in> set ds. d \<noteq> [] \<and> length d \<le> VEYRA_MAX_PACKET_SIZE"
    and "mo_reach m" "mo_decoder m = Some dec" "dec_initialized dec"
    and "map snd cfs = ready_frames (fst (receive_all (Decrypt P) r ds))" "list_all accepted cfs"
  shows "\<exists>es s' uploads. sv_run P inet (map (Datagram now us src) ds) s = Some (es, s') \<and>
    decoded es = map snd cfs \<and> mo_frames cfs m = Some (map sample_of (decoded es), uploads, m)"
proof -
  from datagrams_decode [OF assms(1,2)] obtain es s' where
    "sv_run P inet (map (Datagram now us src) ds) s = Some (es, s')" "decoded es = map snd cfs"
    using assms(6) by metis
  moreover from mo_frames_offer [OF mo_reach_ok [OF assms(3)] assms(4,5,7)] obtain uploads where
    "mo_frames cfs m = Some (map (sample_of \<circ> snd) cfs, uploads, m)" by blast
  ultimately show ?thesis by simp
qed

lemma demo_media_ready: "media_ready 5 demo_armed demo_service"
  by (simp add: media_ready_def demo_service_def arm_receiver_def Initialize_def demo_armed_def SetExpectedPeer_def
      demo_inet_def sv_jitter_config_def jb_inv_def JitterBuffer_new_def by_stamp_def)

theorem transform_gets_the_reassembled_frames_witness:
  "\<exists>es s' uploads. sv_run demo_lib demo_inet [Datagram 0 0 5 demo_sealed] demo_service = Some (es, s') \<and>
     mo_frames [(demo_call None, \<lparr>vf_frameId = 1, vf_timestampUs = 50000, vf_isKeyframe = True, vf_data = [7, 8, 9]\<rparr>)]
       demo_outputs = Some ([\<lparr>sm_bytes = [7, 8, 9], sm_time = 500000, sm_cleanPoint = True\<rparr>], uploads, demo_outputs)"
proof -
  let ?f = "\<lparr>vf_frameId = 1, vf_timestampUs = 50000, vf_isKeyframe = True, vf_data = [7, 8, 9]\<rparr>"
  have ready: "ready_frames (fst (receive_all (Decrypt demo_lib) demo_armed [demo_sealed])) = [?f]" by code_simp
  have len: "demo_sealed \<noteq> [] \<and> length demo_sealed \<le> VEYRA_MAX_PACKET_SIZE" by code_simp
  have "case mo_decoder demo_outputs of None \<Rightarrow> False | Some d \<Rightarrow> dec_initialized d" by code_simp
  then obtain dec where dec: "mo_decoder demo_outputs = Some dec" "dec_initialized dec" by (auto split: option.splits)
  have acc: "list_all accepted [(demo_call None, ?f)]" by (simp add: accepted_def demo_call_def)
  from transform_gets_the_reassembled_frames [OF demo_media_ready _ demo_outputs_reach dec _ acc, of "[demo_sealed]"
      demo_lib demo_inet 0 0] ready len obtain es s' uploads where
    "sv_run demo_lib demo_inet [Datagram 0 0 5 demo_sealed] demo_service = Some (es, s')" "decoded es = [?f]"
    "mo_frames [(demo_call None, ?f)] demo_outputs = Some (map sample_of (decoded es), uploads, demo_outputs)"
    by (auto simp del: sv_run.simps mo_frames.simps)
  moreover have "map sample_of [?f] = [\<lparr>sm_bytes = [7, 8, 9], sm_time = 500000, sm_cleanPoint = True\<rparr>]"
    by (simp add: sample_of_def)
  ultimately show ?thesis by metis
qed

end
