(* ===== verification/Frame_Size.thy ===== *)
theory Frame_Size
  imports Reassembly_Safety
begin

text \<open>
  How large a frame of \<open>FrameReassembler\<close> (\<open>native/core/src/packetizer.cpp\<close>) can become: a fragment
  is the payload of one datagram, and a frame has at most 65535 fragments. The bound is used where
  frames are handed to code that counts their bytes with 32 bits.
\<close>

definition unseal_sized :: "('c \<Rightarrow> bytes \<Rightarrow> nat \<Rightarrow> u32 \<Rightarrow> bytes \<Rightarrow> bytes option) \<Rightarrow> bool" where
  "unseal_sized unseal \<longleftrightarrow>
     (\<forall>c ct n s aad plain. unseal c ct n s aad = Some plain \<longrightarrow> length plain \<le> n)"

text \<open>Documented behaviour of the AEAD: it writes as many bytes as it is given.\<close>

definition chachapoly_sized :: "('ctx, 'mpi, 'point) mbedtls \<Rightarrow> bool" where
  "chachapoly_sized P \<longleftrightarrow>
     (\<forall>mode key nonce aad msg out tag. cp_run P mode key nonce aad msg = Some (out, tag) \<longrightarrow> length out = length msg)"

lemma Decrypt_sized: "chachapoly_sized P \<Longrightarrow> unseal_sized (Decrypt P)"
  by (fastforce simp: unseal_sized_def chachapoly_sized_def Decrypt_def Let_def split: if_splits option.splits)

lemma demo_sized: "chachapoly_sized demo_lib"
  by (simp add: chachapoly_sized_def cp_run_demo)

lemma open_packet_size:
  assumes "unseal_sized unseal" and "open_packet unseal crypto d n = Some (h, b)" and "n \<le> VEYRA_MAX_PACKET_SIZE"
  shows "length b \<le> VEYRA_MAX_PAYLOAD_SIZE"
proof -
  from assms(2) obtain data where d: "d = Some data" by (cases d) (auto simp: open_packet_def)
  define h0 where "h0 = snd (DeserializeHeader (Some data) n header_zero)"
  let ?len = "unat (hdr_payloadLength h0)"
  from assms(2) d have len: "VEYRA_HEADER_SIZE + ?len \<le> n"
    by (auto simp: open_packet_def h0_def Let_def split: if_splits option.splits prod.splits)
  from assms(1,2) d have "length b \<le> ?len"
    by (fastforce simp: open_packet_def h0_def unseal_sized_def Let_def split: if_splits option.splits prod.splits)
  with len assms(3) show ?thesis by (simp add: VEYRA_MAX_PAYLOAD_SIZE_def)
qed

definition small_fragments :: "PendingFrame \<Rightarrow> bool" where
  "small_fragments p \<longleftrightarrow> (\<forall>(i, x) \<in> set (pf_fragments p). length x \<le> VEYRA_MAX_PAYLOAD_SIZE)"

definition small_pending :: "'c FrameReassembler \<Rightarrow> bool" where
  "small_pending r \<longleftrightarrow> (\<forall>(k, p) \<in> set (ra_pending r). small_fragments p)"

definition kMaxFrame :: nat where
  "kMaxFrame = 65535 * VEYRA_MAX_PAYLOAD_SIZE"

lemma length_concat_bound: "(\<And>x. x \<in> set xs \<Longrightarrow> length x \<le> m) \<Longrightarrow> length (concat xs) \<le> length xs * m"
  by (induction xs) (auto simp: add_mono)

lemma assemble_size:
  assumes "small_fragments p"
  shows "length (vf_data (assemble p)) \<le> kMaxFrame"
proof -
  let ?parts = "map (fragment_at p) [0..<unat (pf_totalFragments p)]"
  have "length x \<le> VEYRA_MAX_PAYLOAD_SIZE" if x: "x \<in> set ?parts" for x
  proof -
    from x obtain i where "x = fragment_at p i" by auto
    with assms fragment_at_cases [of p i] show ?thesis by (fastforce simp: small_fragments_def)
  qed
  from length_concat_bound [OF this] have "length (concat ?parts) \<le> length ?parts * VEYRA_MAX_PAYLOAD_SIZE" .
  also have "length ?parts \<le> 65535" using u16_unat_bound [of "pf_totalFragments p"] by simp
  finally show ?thesis by (simp add: assemble_def kMaxFrame_def)
qed

lemma added_small:
  assumes "small_pending r" and "length b \<le> VEYRA_MAX_PAYLOAD_SIZE"
  shows "small_fragments (add_fragment h b (pending_entry h (ra_pending r)))"
  using assms new_fragments [of _ _ h b "ra_pending r"]
  by (fastforce simp: small_fragments_def small_pending_def)

lemma store_fragment_small:
  assumes "small_pending r" and "length b \<le> VEYRA_MAX_PAYLOAD_SIZE"
  shows "small_pending (snd (snd (store_fragment h b r)))"
  unfolding small_pending_def
proof clarify
  fix k p assume "(k, p) \<in> set (ra_pending (snd (snd (store_fragment h b r))))"
  from store_fragment_pending [OF this] show "small_fragments p"
    using assms(1) added_small [OF assms, of h] by (auto simp: small_pending_def)
qed

lemma PushPacket_small:
  assumes "unseal_sized unseal" "small_pending r" "n \<le> VEYRA_MAX_PACKET_SIZE"
  shows "small_pending (snd (snd (PushPacket unseal d n r)))"
proof (cases rule: PushPacket_cases [of unseal r d n])
  case (fresh h b)
  let ?r = "r\<lparr>ra_replay := snd (Accept (ra_replay r) (hdr_sequence h))\<rparr>"
  have b: "length b \<le> VEYRA_MAX_PAYLOAD_SIZE" using open_packet_size assms fresh(1) by blast
  have p: "small_pending (pinned h ?r)" using assms(2) by (simp add: small_pending_def)
  from fresh(3) assms(2) show ?thesis
    by (cases rule: deliver_cases [of ?r h b])
      (simp_all add: store_fragment_small [OF p b], simp_all add: small_pending_def)
qed (use assms in \<open>simp_all add: small_pending_def\<close>)

lemma PushPacket_frame_size:
  assumes "unseal_sized unseal" "small_pending r" "n \<le> VEYRA_MAX_PACKET_SIZE"
    and "FrameReady f \<in> set (fst (snd (PushPacket unseal d n r)))"
  shows "length (vf_data f) \<le> kMaxFrame"
proof -
  from PushPacket_emits [OF assms(4)] obtain h b p where
    o: "open_packet unseal (ra_crypto r) d n = Some (h, b)" and
    p: "p = add_fragment h b (pending_entry h (ra_pending r))" "f = assemble p" by metis
  from added_small [OF assms(2) open_packet_size [OF assms(1) o assms(3)], of h] p
  show ?thesis by (simp add: assemble_size)
qed

lemma receive_small:
  assumes "unseal_sized unseal" "small_pending r" "length d \<le> VEYRA_MAX_PACKET_SIZE"
  shows "small_pending (snd (receive unseal r d)) \<and>
    (\<forall>e \<in> set (fst (receive unseal r d)). \<forall>f. e = FrameReady f \<longrightarrow> length (vf_data f) \<le> kMaxFrame)"
  using PushPacket_small [OF assms, of "Some d"] PushPacket_frame_size [OF assms, of _ "Some d"]
  by (auto simp: receive_simps)

subsection \<open>Property\<close>

text \<open>C26. The memory of one frame is bounded: whatever datagrams of at most 1200 bytes arrive at a new
  receiver, a frame that it emits has at most 65535 x 1166 bytes (76 MB), so that its size fits the
  32 bit counts of the decoder.\<close>

theorem frames_have_bounded_size:
  assumes "chachapoly_sized P" and "\<forall>d \<in> set ds. length d \<le> VEYRA_MAX_PACKET_SIZE"
    and "FrameReady f \<in> set (fst (receive_all (Decrypt P) (FrameReassembler_new a b) ds))"
  shows "length (vf_data f) \<le> 65535 * 1166"
proof -
  have new: "small_pending (FrameReassembler_new a b)" by (simp add: small_pending_def FrameReassembler_new_def)
  have "\<forall>e \<in> set (fst (emits (receive (Decrypt P)) (FrameReassembler_new a b) ds)).
      \<forall>f. e = FrameReady f \<longrightarrow> length (vf_data f) \<le> kMaxFrame"
    by (rule emits_outputs [of small_pending])
      (use new receive_small [OF Decrypt_sized [OF assms(1)]] assms(2) in blast)+
  with assms(3) show ?thesis by (auto simp: receive_all_def kMaxFrame_def wire_simps)
qed

theorem frames_have_bounded_size_witness:
  "\<exists>f. FrameReady f \<in> set (fst (receive_all (Decrypt demo_lib) (FrameReassembler_new True True) [demo_video 1 True 0])) \<and>
     length (vf_data f) \<le> 65535 * 1166"
proof -
  let ?f = "\<lparr>vf_frameId = 1, vf_timestampUs = 50000, vf_isKeyframe = True, vf_data = [7, 8, 9]\<rparr>"
  have "fst (receive_all (Decrypt demo_lib) (FrameReassembler_new True True) [demo_video 1 True 0]) = [FrameReady ?f]"
    by code_simp
  then have f: "FrameReady ?f \<in> set (fst (receive_all (Decrypt demo_lib) (FrameReassembler_new True True) [demo_video 1 True 0]))"
    by simp
  have "length (demo_video 1 True 0) \<le> VEYRA_MAX_PACKET_SIZE" by code_simp
  with frames_have_bounded_size [OF demo_sized _ f] f show ?thesis by auto
qed

end
