(* ===== verification/Connections.thy ===== *)
theory Connections
  imports Control_Link
begin

text \<open>
  Sockets and threads of the network classes: \<open>TcpControlClient\<close>
  (\<open>native/windows/network/tcp_control_server.cpp\<close>), \<open>WinRfcommClient\<close> (\<open>win_rfcomm.cpp\<close>) and
  \<open>IocpUdpServer\<close> (\<open>iocp_udp_server.cpp\<close>). An endpoint is its flag, its socket and the state of its
  \<open>std::thread\<close>: assigning to or destroying a thread object that is still joinable calls
  \<open>std::terminate\<close>, which is \<open>None\<close>. The results of the socket calls are arguments.
\<close>

subsection \<open>Endpoints\<close>

text \<open>\<open>Ended\<close> is a thread whose function has returned and that was not joined.\<close>

datatype thread_state = NoThread | Running | Ended

text \<open>\<open>ep_open\<close> are the sockets the system holds open for the endpoint.\<close>

record endpoint =
  ep_active :: bool
  ep_socket :: "nat option"
  ep_thread :: thread_state
  ep_open :: "nat list"

definition endpoint_new :: endpoint where
  "endpoint_new = \<lparr>ep_active = False, ep_socket = None, ep_thread = NoThread, ep_open = []\<rparr>"

definition start_thread :: "endpoint \<Rightarrow> endpoint option" where
  "start_thread e = (if ep_thread e \<noteq> NoThread then None else Some (e\<lparr>ep_thread := Running\<rparr>))"

definition destroy_thread :: "endpoint \<Rightarrow> endpoint option" where
  "destroy_thread e = (if ep_thread e \<noteq> NoThread then None else Some e)"

definition close_socket :: "endpoint \<Rightarrow> endpoint" where
  "close_socket e =
     (case ep_socket e of
        Some n \<Rightarrow> e\<lparr>ep_open := remove1 n (ep_open e), ep_socket := None\<rparr>
      | None \<Rightarrow> e)"

definition joined :: "endpoint \<Rightarrow> endpoint" where
  "joined e = e\<lparr>ep_thread := NoThread\<rparr>"

text \<open>
  \<open>join\<close> waits for the function of the thread. That function leaves its loop once its flag is cleared
  and its socket closed (which makes \<open>recv\<close> fail on Windows), but first finishes the callback it is in.
  \<open>waits\<close>: that callback needs a lock which the joining thread holds; then \<open>join\<close> never returns.
\<close>

definition join_thread :: "bool \<Rightarrow> endpoint \<Rightarrow> endpoint option" where
  "join_thread waits e = (if waits \<and> ep_thread e = Running then None else Some (joined e))"

subsection \<open>The control client\<close>

definition tcp_Disconnect_waiting :: "bool \<Rightarrow> endpoint \<Rightarrow> endpoint option" where
  "tcp_Disconnect_waiting waits e =
     (if \<not> ep_active e then Some e else join_thread waits (close_socket (e\<lparr>ep_active := False\<rparr>)))"

text \<open>\<open>Disconnect\<close> from a thread that holds no lock the callback needs.\<close>

definition tcp_Disconnect :: "endpoint \<Rightarrow> endpoint" where
  "tcp_Disconnect e = (if \<not> ep_active e then e else joined (close_socket (e\<lparr>ep_active := False\<rparr>)))"

lemma tcp_Disconnect_returns: "tcp_Disconnect_waiting False e = Some (tcp_Disconnect e)"
  by (simp add: tcp_Disconnect_waiting_def tcp_Disconnect_def join_thread_def)

text \<open>\<open>fd\<close> is what \<open>socket\<close> returns and \<open>connects\<close> whether \<open>connect\<close> succeeds.\<close>

definition tcp_Connect :: "nat option \<Rightarrow> bool \<Rightarrow> endpoint \<Rightarrow> (bool \<times> endpoint) option" where
  "tcp_Connect fd connects e =
     (let e = tcp_Disconnect e in
      case fd of
        None \<Rightarrow> Some (False, e)
      | Some s \<Rightarrow>
          if \<not> connects then Some (False, e\<lparr>ep_open := remove1 s (s # ep_open e)\<rparr>)
          else map_option (Pair True)
                 (start_thread (e\<lparr>ep_open := s # ep_open e, ep_socket := Some s, ep_active := True\<rparr>)))"

definition tcp_destroy_waiting :: "bool \<Rightarrow> endpoint \<Rightarrow> endpoint option" where
  "tcp_destroy_waiting waits e = Option.bind (tcp_Disconnect_waiting waits e) destroy_thread"

definition tcp_destroy :: "endpoint \<Rightarrow> endpoint option" where
  "tcp_destroy e = tcp_destroy_waiting False e"

lemma tcp_destroy_eq: "tcp_destroy e = destroy_thread (tcp_Disconnect e)"
  by (simp add: tcp_destroy_def tcp_destroy_waiting_def tcp_Disconnect_returns)

text \<open>
  The end of \<open>ReadLoop\<close> by itself: the peer closed the connection, \<open>recv\<close> failed, or a line was
  too long.
\<close>

definition tcp_loop_ends :: "endpoint \<Rightarrow> endpoint" where
  "tcp_loop_ends e = e\<lparr>ep_active := False, ep_thread := Ended\<rparr>"

inductive tcp_reach :: "endpoint \<Rightarrow> bool" where
  created: "tcp_reach endpoint_new"
| connected: "tcp_reach e \<Longrightarrow> tcp_Connect fd connects e = Some (b, e') \<Longrightarrow> tcp_reach e'"
| disconnected: "tcp_reach e \<Longrightarrow> tcp_reach (tcp_Disconnect e)"
| lost: "tcp_reach e \<Longrightarrow> ep_thread e = Running \<Longrightarrow> tcp_reach (tcp_loop_ends e)"

subsection \<open>The Bluetooth client\<close>

text \<open>The connection is handled by the same statements; a send and the loop pass bytes on unchanged.\<close>

definition rf_Disconnect :: "endpoint \<Rightarrow> endpoint" where
  "rf_Disconnect e = (if \<not> ep_active e then e else joined (close_socket (e\<lparr>ep_active := False\<rparr>)))"

definition rf_Connect :: "nat option \<Rightarrow> bool \<Rightarrow> endpoint \<Rightarrow> (bool \<times> endpoint) option" where
  "rf_Connect fd connects e =
     (let e = rf_Disconnect e in
      case fd of
        None \<Rightarrow> Some (False, e)
      | Some s \<Rightarrow>
          if \<not> connects then Some (False, e\<lparr>ep_open := remove1 s (s # ep_open e)\<rparr>)
          else map_option (Pair True)
                 (start_thread (e\<lparr>ep_open := s # ep_open e, ep_socket := Some s, ep_active := True\<rparr>)))"

definition rf_destroy :: "endpoint \<Rightarrow> endpoint option" where
  "rf_destroy e = destroy_thread (rf_Disconnect e)"

definition rf_DiscoverPairedDevices :: "(string \<times> string) list" where
  "rf_DiscoverPairedDevices = []"

definition rf_Send :: "bytes option \<Rightarrow> nat \<Rightarrow> bool \<Rightarrow> endpoint \<Rightarrow> bool \<times> bytes list" where
  "rf_Send data n accepted e =
     (case data of
        None \<Rightarrow> (False, [])
      | Some d \<Rightarrow> if \<not> ep_active e \<or> n = 0 then (False, []) else (accepted, [take n d]))"

text \<open>The chunks that \<open>recv\<close> returns, and those given to the callback.\<close>

fun rf_ReadLoop :: "bool \<Rightarrow> bytes list \<Rightarrow> bytes list" where
  "rf_ReadLoop callback [] = []"
| "rf_ReadLoop callback (chunk # chunks) =
     (if chunk = [] then [] else (if callback then [chunk] else []) @ rf_ReadLoop callback chunks)"

lemma rf_is_tcp: "rf_Disconnect = tcp_Disconnect" "rf_Connect = tcp_Connect" "rf_destroy = tcp_destroy"
  by (simp_all add: fun_eq_iff rf_Disconnect_def tcp_Disconnect_def rf_Connect_def tcp_Connect_def rf_destroy_def tcp_destroy_eq)

subsection \<open>The media server\<close>

definition udp_Start :: "nat option \<Rightarrow> bool \<Rightarrow> endpoint \<Rightarrow> (bool \<times> endpoint) option" where
  "udp_Start fd binds e =
     (if ep_active e then Some (True, e)
      else case fd of
        None \<Rightarrow> Some (False, e\<lparr>ep_socket := None\<rparr>)
      | Some s \<Rightarrow>
          let e = e\<lparr>ep_open := s # ep_open e, ep_socket := Some s\<rparr> in
          if \<not> binds then Some (False, close_socket e)
          else map_option (Pair True) (start_thread (e\<lparr>ep_active := True\<rparr>)))"

definition udp_Stop :: "endpoint \<Rightarrow> endpoint" where
  "udp_Stop e = (if \<not> ep_active e then e else joined (close_socket (e\<lparr>ep_active := False\<rparr>)))"

definition udp_destroy :: "endpoint \<Rightarrow> endpoint option" where
  "udp_destroy e = destroy_thread (udp_Stop e)"

text \<open>The worker loop only ends when the flag is cleared, that is in \<open>Stop\<close>.\<close>

inductive udp_reach :: "endpoint \<Rightarrow> bool" where
  created: "udp_reach endpoint_new"
| started: "udp_reach e \<Longrightarrow> udp_Start fd binds e = Some (b, e') \<Longrightarrow> udp_reach e'"
| stopped: "udp_reach e \<Longrightarrow> udp_reach (udp_Stop e)"

subsection \<open>Invariants\<close>

definition ep_ok :: "endpoint \<Rightarrow> bool" where
  "ep_ok e \<longleftrightarrow> (ep_active e \<longleftrightarrow> ep_thread e = Running) \<and> (ep_active e \<longrightarrow> ep_socket e \<noteq> None) \<and>
     (ep_thread e \<noteq> Ended \<longrightarrow> ep_open e = (case ep_socket e of None \<Rightarrow> [] | Some s \<Rightarrow> [s])) \<and>
     (ep_thread e = NoThread \<longrightarrow> ep_socket e = None) \<and> (ep_thread e = Ended \<longrightarrow> length (ep_open e) = 1)"

lemmas ep_defs = ep_ok_def start_thread_def destroy_thread_def close_socket_def joined_def

lemma tcp_Disconnect_ok: "ep_ok e \<Longrightarrow> ep_ok (tcp_Disconnect e)"
  by (auto simp: ep_defs tcp_Disconnect_def)

lemma tcp_Connect_ok:
  assumes "ep_ok e" and "tcp_Connect fd connects e = Some (b, e')"
  shows "ep_ok e'"
proof -
  let ?d = "tcp_Disconnect e"
  have d: "ep_ok ?d" "\<not> ep_active ?d"
    using tcp_Disconnect_ok [OF assms(1)] by (auto simp: tcp_Disconnect_def joined_def close_socket_def split: option.split)
  show ?thesis
    using assms(2) d by (cases fd) (auto simp: tcp_Connect_def Let_def ep_defs split: if_splits)
qed

lemma tcp_loop_ends_ok: "ep_ok e \<Longrightarrow> ep_thread e = Running \<Longrightarrow> ep_ok (tcp_loop_ends e)"
  by (auto simp: tcp_loop_ends_def ep_ok_def)

lemma tcp_reach_ok: "tcp_reach e \<Longrightarrow> ep_ok e"
proof (induction rule: tcp_reach.induct)
  case created
  then show ?case by (simp add: endpoint_new_def ep_ok_def)
next
  case (connected e fd connects b e')
  then show ?case by (auto intro: tcp_Connect_ok)
next
  case (disconnected e)
  then show ?case by (auto intro: tcp_Disconnect_ok)
next
  case (lost e)
  then show ?case by (simp add: tcp_loop_ends_ok)
qed

definition udp_ok :: "endpoint \<Rightarrow> bool" where
  "udp_ok e \<longleftrightarrow> ep_ok e \<and> ep_thread e \<noteq> Ended"

lemma udp_reach_ok: "udp_reach e \<Longrightarrow> udp_ok e"
proof (induction rule: udp_reach.induct)
  case created
  then show ?case by (simp add: endpoint_new_def udp_ok_def ep_ok_def)
next
  case (started e fd binds b e')
  then show ?case
    by (cases fd; cases "ep_thread e") (auto simp: udp_Start_def udp_ok_def ep_defs Let_def split: if_splits)
next
  case (stopped e)
  then show ?case by (auto simp: udp_Stop_def udp_ok_def ep_defs)
qed

lemma endpoint_new_ok [simp]: "ep_ok endpoint_new" "udp_ok endpoint_new"
  by (simp_all add: endpoint_new_def udp_ok_def ep_ok_def)

lemma tcp_Disconnect_thread:
  "ep_ok e \<Longrightarrow> ep_thread (tcp_Disconnect e) = (if ep_thread e = Ended then Ended else NoThread)"
  by (cases "ep_thread e") (auto simp: tcp_Disconnect_def ep_defs split: option.splits)

lemma tcp_Disconnect_inactive [simp]: "\<not> ep_active (tcp_Disconnect e)"
  by (simp add: tcp_Disconnect_def joined_def close_socket_def split: option.split)

lemma tcp_Connect_None:
  "ep_ok e \<Longrightarrow> tcp_Connect fd connects e = None \<longleftrightarrow> fd \<noteq> None \<and> connects \<and> ep_thread e = Ended"
  by (cases fd) (auto simp: tcp_Connect_def start_thread_def Let_def tcp_Disconnect_thread)

lemma tcp_Connect_active:
  "ep_ok e \<Longrightarrow> tcp_Connect fd connects e = Some (b, e') \<Longrightarrow> ep_active e' = b"
  by (cases fd) (auto simp: tcp_Connect_def start_thread_def Let_def split: if_splits)

lemma tcp_destroy_None: "ep_ok e \<Longrightarrow> tcp_destroy e = None \<longleftrightarrow> ep_thread e = Ended"
  by (simp add: tcp_destroy_eq destroy_thread_def tcp_Disconnect_thread)

text \<open>Under the lock the destructor also hangs while the reader thread waits for it.\<close>

lemma tcp_destroy_waiting_None:
  assumes "ep_ok e"
  shows "tcp_destroy_waiting waits e = None \<longleftrightarrow> ep_thread e = Ended \<or> (waits \<and> ep_thread e = Running)"
proof (cases "waits \<and> ep_thread e = Running")
  case True
  with assms show ?thesis
    by (auto simp: tcp_destroy_waiting_def tcp_Disconnect_waiting_def join_thread_def close_socket_def ep_ok_def)
next
  case False
  then have "join_thread waits (close_socket (e\<lparr>ep_active := False\<rparr>)) = Some (joined (close_socket (e\<lparr>ep_active := False\<rparr>)))"
    by (auto simp: join_thread_def close_socket_def split: option.split)
  then have "tcp_destroy_waiting waits e = tcp_destroy e"
    by (simp add: tcp_destroy_waiting_def tcp_destroy_eq tcp_Disconnect_waiting_def tcp_Disconnect_def)
  with False tcp_destroy_None [OF assms] show ?thesis by auto
qed

lemma udp_total:
  assumes "udp_ok e"
  shows "\<exists>b e'. udp_Start fd binds e = Some (b, e') \<and> udp_ok e'"
    and "udp_destroy e = Some (udp_Stop e)" "udp_ok (udp_Stop e)"
    and "ep_open (udp_Stop e) = []" "ep_thread (udp_Stop e) = NoThread"
  using assms
  by (cases fd; cases "ep_thread e"; cases "ep_socket e";
      auto simp: udp_ok_def ep_defs udp_Start_def udp_Stop_def udp_destroy_def Let_def)+

subsection \<open>Properties\<close>

text \<open>Losing the connection is fatal: in every reachable state of the control client, a successful
  \<open>Connect\<close>, and the destruction of the client, call \<open>std::terminate\<close> exactly when the previous
  connection ended by itself, because the ended reader thread is never joined; its socket is then
  still open.\<close>

theorem lost_connection_is_fatal:
  assumes "tcp_reach e"
  shows "(tcp_Connect fd connects e = None \<longleftrightarrow> fd \<noteq> None \<and> connects \<and> ep_thread e = Ended) \<and>
    (tcp_destroy e = None \<longleftrightarrow> ep_thread e = Ended) \<and>
    (ep_thread e = Ended \<longrightarrow> \<not> ep_active e \<and> tcp_Disconnect e = e \<and> length (ep_open e) = 1)"
proof -
  have ok: "ep_ok e" using tcp_reach_ok [OF assms] .
  then show ?thesis
    by (auto simp: tcp_Connect_None tcp_destroy_None tcp_Disconnect_def ep_ok_def)
qed

theorem lost_connection_is_fatal_witness:
  "\<exists>e. tcp_Connect (Some 4) True endpoint_new = Some (True, e) \<and>
     tcp_Connect (Some 5) True (tcp_loop_ends e) = None \<and> tcp_destroy (tcp_loop_ends e) = None"
proof -
  let ?e = "\<lparr>ep_active = True, ep_socket = Some 4, ep_thread = Running, ep_open = [4]\<rparr>"
  have c: "tcp_Connect (Some 4) True endpoint_new = Some (True, ?e)" by code_simp
  have "tcp_reach ?e" using tcp_reach.connected [OF tcp_reach.created c] .
  then have "tcp_reach (tcp_loop_ends ?e)" by (rule tcp_reach.lost) simp
  from lost_connection_is_fatal [OF this, of "Some 5" True] c show ?thesis by (auto simp: tcp_loop_ends_def)
qed

text \<open>The media server can be restarted: in every reachable state \<open>Start\<close> and the destructor
  complete without terminating the program, a running server holds exactly one socket, and after
  \<open>Stop\<close> no socket and no thread is left.\<close>

theorem media_server_can_be_restarted:
  assumes "udp_reach e"
  shows "udp_Start fd binds e \<noteq> None \<and>
    (ep_active e \<longrightarrow> length (ep_open e) = 1 \<and> ep_thread e = Running) \<and>
    udp_destroy e = Some (udp_Stop e) \<and> ep_open (udp_Stop e) = [] \<and> ep_thread (udp_Stop e) = NoThread"
proof -
  have ok: "udp_ok e" using udp_reach_ok [OF assms] .
  from udp_total(1) [OF ok] have "udp_Start fd binds e \<noteq> None" by fastforce
  moreover have "ep_active e \<longrightarrow> length (ep_open e) = 1 \<and> ep_thread e = Running"
    using ok by (auto simp: udp_ok_def ep_ok_def)
  ultimately show ?thesis using udp_total(2-5) [OF ok] by blast
qed

theorem media_server_can_be_restarted_witness:
  "\<exists>e. udp_Start (Some 4) True endpoint_new = Some (True, e) \<and> udp_Start (Some 5) True (udp_Stop e) \<noteq> None \<and>
     ep_open (udp_Stop e) = []"
proof -
  let ?e = "\<lparr>ep_active = True, ep_socket = Some 4, ep_thread = Running, ep_open = [4]\<rparr>"
  have c: "udp_Start (Some 4) True endpoint_new = Some (True, ?e)" by code_simp
  have r: "udp_reach ?e" using udp_reach.started [OF udp_reach.created c] .
  from media_server_can_be_restarted [OF udp_reach.stopped [OF r], of "Some 5" True]
  have start: "udp_Start (Some 5) True (udp_Stop ?e) \<noteq> None" by blast
  have "ep_open (udp_Stop ?e) = []" by code_simp
  with c start show ?thesis by blast
qed

end
