(* ===== verification/Core_Service.thy ===== *)
theory Core_Service
  imports Media_Output Frame_Size Connections Telemetry_Report
begin

text \<open>
  The whole process of VeyraCore: the service object with its control client, media server, decoder
  and outputs, as the C interface of \<open>native/windows/ipc/veyra_ffi_export.cpp\<close> drives it. The state
  of \<open>ServiceManager\<close> (theory \<open>Service\<close>) is joined with the endpoints of theory \<open>Connections\<close> and the
  outputs of theory \<open>Media_Output\<close>; a call that terminates the process or never returns is \<open>None\<close>.

  The reader thread of the control client hands each line to \<open>OnTcpControlMessage\<close>. The lines that it has
  received and not yet handled are part of the state, because a call that joins the thread first lets it
  finish them, and because the handlers of the pairing messages need \<open>mutex_\<close>, which \<open>Initialize\<close> holds
  while it destroys the previous client. A call, the handling of one line, and that of one datagram are
  steps; a line whose handling is under way when a call begins counts as not yet handled.
\<close>

subsection \<open>State\<close>

record core =
  co_service :: Service
  co_outputs :: outputs
  co_tcp :: "endpoint option"
  co_udp :: "endpoint option"
  co_inbox :: "(bytes \<times> string) list"

text \<open>\<open>co_inbox\<close> has with each line the random bytes that handling it would draw.\<close>

definition core_new :: core where
  "core_new = \<lparr>co_service = Service_new, co_outputs = outputs_new, co_tcp = None, co_udp = None, co_inbox = []\<rparr>"

definition destroy_udp :: "endpoint option \<Rightarrow> unit option" where
  "destroy_udp u = (case u of None \<Rightarrow> Some () | Some e \<Rightarrow> map_option (\<lambda>_. ()) (udp_destroy e))"

definition destroy_tcp :: "bool \<Rightarrow> endpoint option \<Rightarrow> unit option" where
  "destroy_tcp waits t = (case t of None \<Rightarrow> Some () | Some e \<Rightarrow> map_option (\<lambda>_. ()) (tcp_destroy_waiting waits e))"

subsection \<open>The lines of the reader thread\<close>

text \<open>The messages whose handlers lock \<open>mutex_\<close>.\<close>

definition takes_lock :: "string \<Rightarrow> bool" where
  "takes_lock message \<longleftrightarrow>
     List.member [''pairing_challenge'', ''pairing_ok'', ''pairing_error''] (ExtractJsonString message ''type'')"

lemma other_lines_do_nothing: "\<not> takes_lock m \<Longrightarrow> OnTcpControlMessage P inet e m s = ([], s)"
  by (auto simp: takes_lock_def OnTcpControlMessage_def Let_def)

definition reader_waits :: "core \<Rightarrow> bool" where
  "reader_waits c \<longleftrightarrow> list_ex (\<lambda>(e, m). takes_lock m) (co_inbox c)"

fun handle_lines ::
  "('ctx, 'mpi, 'point) mbedtls \<Rightarrow> (string \<Rightarrow> u32 option) \<Rightarrow> (bytes \<times> string) list \<Rightarrow> Service \<Rightarrow>
     sv_event list \<times> Service" where
  "handle_lines P inet [] s = ([], s)"
| "handle_lines P inet ((entropy, m) # ls) s =
     (let (es, s) = OnTcpControlMessage P inet entropy m s;
          (fs, s) = handle_lines P inet ls s
      in (es @ fs, s))"

subsection \<open>The C interface\<close>

text \<open>
  \<open>fd\<close> and \<open>binds\<close> are the results of \<open>socket\<close> and \<open>bind\<close> for the media port. \<open>mutex_\<close> is held throughout;
  the lines that do not need it have no effect.
\<close>

definition veyra_core_init ::
  "d3d_setup \<Rightarrow> camera_setup \<Rightarrow> mf_setup \<Rightarrow> nat option \<Rightarrow> bool \<Rightarrow> core \<Rightarrow> (int \<times> core) option" where
  "veyra_core_init D V E fd binds c = do {
     outputs \<leftarrow> mo_Initialize D V E (co_outputs c);
     _ \<leftarrow> destroy_udp (co_udp c);
     (_, udp) \<leftarrow> udp_Start fd binds endpoint_new;
     _ \<leftarrow> destroy_tcp (reader_waits c) (co_tcp c);
     let (ok, service) = Initialize (co_service c) in
     Some (if ok then 0 else -1,
       \<lparr>co_service = service, co_outputs = outputs, co_tcp = Some endpoint_new, co_udp = Some udp, co_inbox = []\<rparr>)
   }"

text \<open>
  The reader thread of the previous connection handles its remaining lines after the locked part of
  \<open>ConnectDevice\<close>, the first \<open>early\<close> of them before its socket is closed.
\<close>

definition veyra_core_connect_device ::
  "('ctx, 'mpi, 'point) mbedtls \<Rightarrow> (string \<Rightarrow> u32 option) \<Rightarrow> string option \<Rightarrow> string option \<Rightarrow> bool \<Rightarrow> nat \<Rightarrow>
     nat option \<Rightarrow> bool \<Rightarrow> core \<Rightarrow> (int \<times> sv_event list \<times> core) option" where
  "veyra_core_connect_device P inet host_ip pin status_callback early fd connects c =
     (case (host_ip, pin) of
        (Some host, Some p) \<Rightarrow>
          (case co_tcp c of
             None \<Rightarrow> Some (-1, [], c)
           | Some t \<Rightarrow> do {
               let s = connect_begin host p status_callback (co_service c);
               let (es1, s) = handle_lines P inet (take early (co_inbox c)) s;
               let (es2, s) = handle_lines P inet (drop early (co_inbox c)) (s\<lparr>sv_connected := False\<rparr>);
               (connected, t) \<leftarrow> tcp_Connect fd connects t;
               let (ok, es3, s) = connect_end connected s;
               Some (if ok then 0 else -1, es1 @ es2 @ es3, c\<lparr>co_service := s, co_tcp := Some t, co_inbox := []\<rparr>)
             })
      | _ \<Rightarrow> Some (-1, [], c))"

definition veyra_core_disconnect_device ::
  "('ctx, 'mpi, 'point) mbedtls \<Rightarrow> (string \<Rightarrow> u32 option) \<Rightarrow> core \<Rightarrow> sv_event list \<times> core" where
  "veyra_core_disconnect_device P inet c =
     (let (es, s) = handle_lines P inet (co_inbox c) ((co_service c)\<lparr>sv_connected := False\<rparr>) in
      (es, c\<lparr>co_tcp := map_option tcp_Disconnect (co_tcp c), co_service := DisconnectDevice inet s, co_inbox := []\<rparr>))"

definition veyra_core_shutdown ::
  "('ctx, 'mpi, 'point) mbedtls \<Rightarrow> (string \<Rightarrow> u32 option) \<Rightarrow> core \<Rightarrow> (sv_event list \<times> core) option" where
  "veyra_core_shutdown P inet c = do {
     let (es, s) = handle_lines P inet (co_inbox c) ((co_service c)\<lparr>sv_connected := False\<rparr>);
     _ \<leftarrow> destroy_udp (map_option udp_Stop (co_udp c));
     (_, outputs) \<leftarrow> mo_Shutdown (co_outputs c);
     Some (es, \<lparr>co_service = Shutdown inet s, co_outputs = outputs,
           co_tcp = map_option tcp_Disconnect (co_tcp c), co_udp = None, co_inbox = []\<rparr>)
   }"

text \<open>The end of the process: \<open>~ServiceManager\<close>, then the members it leaves.\<close>

definition core_exit :: "('ctx, 'mpi, 'point) mbedtls \<Rightarrow> (string \<Rightarrow> u32 option) \<Rightarrow> core \<Rightarrow> unit option" where
  "core_exit P inet c = do {
     (_, c) \<leftarrow> veyra_core_shutdown P inet c;
     destroy_tcp False (co_tcp c)
   }"

text \<open>The camera commands pass C integers as booleans.\<close>

definition veyra_core_set_zoom :: "flt \<Rightarrow> core \<Rightarrow> sv_event list" where
  "veyra_core_set_zoom zoom c = sv_SetZoom zoom (co_service c)"

definition veyra_core_set_exposure :: "int \<Rightarrow> core \<Rightarrow> sv_event list" where
  "veyra_core_set_exposure exposure c = sv_SetExposure exposure (co_service c)"

definition veyra_core_set_focus :: "int \<Rightarrow> flt \<Rightarrow> core \<Rightarrow> sv_event list" where
  "veyra_core_set_focus auto_focus distance c = sv_SetFocus (auto_focus \<noteq> 0) distance (co_service c)"

definition veyra_core_set_torch :: "int \<Rightarrow> core \<Rightarrow> sv_event list" where
  "veyra_core_set_torch enabled c = sv_SetTorch (enabled \<noteq> 0) (co_service c)"

definition veyra_core_switch_camera :: "int \<Rightarrow> core \<Rightarrow> sv_event list" where
  "veyra_core_switch_camera front c = sv_SwitchCamera (front \<noteq> 0) (co_service c)"

definition veyra_core_request_idr :: "core \<Rightarrow> sv_event list" where
  "veyra_core_request_idr c = sv_RequestIdr (co_service c)"

definition veyra_core_get_shared_texture_handle :: "core \<Rightarrow> u64" where
  "veyra_core_get_shared_texture_handle c = mo_texture_handle (co_outputs c)"

definition sv_GetTelemetryJson :: "Service \<Rightarrow> string" where
  "sv_GetTelemetryJson s = ToJsonString (transport_byte WIFI_LAN) (profile_byte BALANCED) (sv_telemetry s)"

definition core_telemetry_text :: "core \<Rightarrow> string" where
  "core_telemetry_text c = veyra_core_get_telemetry_json (sv_GetTelemetryJson (co_service c))"

subsection \<open>What the threads do\<close>

text \<open>
  The reader thread takes a chunk from its socket once every line of the previous chunks is handled;
  \<open>lines\<close> are the complete, nonempty lines that the chunk ends.
\<close>

definition reader_runs :: "core \<Rightarrow> bool" where
  "reader_runs c = (case co_tcp c of None \<Rightarrow> False | Some t \<Rightarrow> ep_thread t = Running)"

definition core_receive :: "(bytes \<times> string) list \<Rightarrow> core \<Rightarrow> core" where
  "core_receive lines c = (if reader_runs c \<and> co_inbox c = [] then c\<lparr>co_inbox := lines\<rparr> else c)"

definition core_control ::
  "('ctx, 'mpi, 'point) mbedtls \<Rightarrow> (string \<Rightarrow> u32 option) \<Rightarrow> core \<Rightarrow> sv_event list \<times> core" where
  "core_control P inet c =
     (case co_inbox c of
        [] \<Rightarrow> ([], c)
      | (entropy, message) # ls \<Rightarrow>
          let (es, s) = OnTcpControlMessage P inet entropy message (co_service c)
          in (es, c\<lparr>co_service := s, co_inbox := ls\<rparr>))"

text \<open>The reader thread ends by itself: the peer closed the connection, or the line was too long.\<close>

definition core_lost :: "core \<Rightarrow> core" where
  "core_lost c =
     (case co_tcp c of
        Some t \<Rightarrow>
          if ep_thread t = Running \<and> co_inbox c = []
          then c\<lparr>co_tcp := Some (tcp_loop_ends t), co_service := (co_service c)\<lparr>sv_connected := False\<rparr>\<rparr>
          else c
      | None \<Rightarrow> c)"

text \<open>A datagram on the worker thread; \<open>calls\<close> gives the results of the decoder for each frame.\<close>

definition core_datagram ::
  "('ctx, 'mpi, 'point) mbedtls \<Rightarrow> int \<Rightarrow> u64 \<Rightarrow> u32 \<Rightarrow> bytes \<Rightarrow> (VideoFrame \<Rightarrow> mf_call) \<Rightarrow> core \<Rightarrow>
     (sv_event list \<times> bytes list \<times> core) option" where
  "core_datagram P now nowUs src data calls c =
     (case co_udp c of
        Some u \<Rightarrow>
          if ep_thread u = Running then do {
            (es, s) \<leftarrow> WorkerLoop_turn P now nowUs src data (co_service c);
            (_, uploads, m) \<leftarrow> mo_frames (map (\<lambda>f. (calls f, f)) (decoded es)) (co_outputs c);
            Some (es, uploads, c\<lparr>co_service := s, co_outputs := m\<rparr>)
          }
          else Some ([], [], c)
      | None \<Rightarrow> Some ([], [], c))"

datatype core_op =
    C_Init d3d_setup camera_setup mf_setup "nat option" bool
  | C_Connect "string option" "string option" bool nat "nat option" bool
  | C_Disconnect
  | C_Shutdown
  | C_Lost
  | C_Receive "(bytes \<times> string) list"
  | C_Control
  | C_Datagram int u64 u32 bytes "VideoFrame \<Rightarrow> mf_call"

fun core_step ::
  "('ctx, 'mpi, 'point) mbedtls \<Rightarrow> (string \<Rightarrow> u32 option) \<Rightarrow> core_op \<Rightarrow> core \<Rightarrow> core option" where
  "core_step P inet (C_Init D V E fd binds) c = map_option snd (veyra_core_init D V E fd binds c)"
| "core_step P inet (C_Connect host pin cb early fd connects) c =
     map_option (\<lambda>(r, es, c'). c') (veyra_core_connect_device P inet host pin cb early fd connects c)"
| "core_step P inet C_Disconnect c = Some (snd (veyra_core_disconnect_device P inet c))"
| "core_step P inet C_Shutdown c = map_option snd (veyra_core_shutdown P inet c)"
| "core_step P inet C_Lost c = Some (core_lost c)"
| "core_step P inet (C_Receive lines) c = Some (core_receive lines c)"
| "core_step P inet C_Control c = Some (snd (core_control P inet c))"
| "core_step P inet (C_Datagram now us src d calls) c =
     map_option (\<lambda>(es, up, c'). c') (core_datagram P now us src d calls c)"

inductive core_reach ::
  "('ctx, 'mpi, 'point) mbedtls \<Rightarrow> (string \<Rightarrow> u32 option) \<Rightarrow> core \<Rightarrow> bool" for P inet where
  start: "core_reach P inet core_new"
| step: "core_reach P inet c \<Longrightarrow> core_step P inet x c = Some c' \<Longrightarrow> core_reach P inet c'"

subsection \<open>The service keeps its wiring\<close>

definition media_ok :: "Service \<Rightarrow> bool" where
  "media_ok s \<longleftrightarrow> pred_option (jb_inv sv_jitter_config) (sv_jitterBuffer s) \<and> pred_option small_pending (sv_reassembler s)"

definition same_wiring :: "Service \<Rightarrow> Service \<Rightarrow> bool" where
  "same_wiring s s' \<longleftrightarrow> sv_tcpClient s' = sv_tcpClient s \<and> sv_connected s' = sv_connected s \<and>
     sv_decoder s' = sv_decoder s \<and> (sv_udpServer s' = None \<longleftrightarrow> sv_udpServer s = None)"

lemma same_wiring_trans: "same_wiring s t \<Longrightarrow> same_wiring t u \<Longrightarrow> same_wiring s u"
  by (simp add: same_wiring_def)

lemma small_arming [simp]:
  "small_pending (ra_SetCrypto c r) = small_pending r" "small_pending (SetExpectedSessionId i r) = small_pending r"
  by (simp_all add: small_pending_def ra_SetCrypto_def SetExpectedSessionId_def)

lemma arm_receiver_wiring:
  "same_wiring s (arm_receiver inet c i s)" "media_ok s \<Longrightarrow> media_ok (arm_receiver inet c i s)"
  by (auto simp: same_wiring_def media_ok_def arm_receiver_def SetExpectedPeer_def Let_def option.pred_map
      elim!: option.pred_mono_strong)

lemma challenge_wiring:
  "same_wiring s (snd (HandlePairingChallenge P inet e k i s))"
  "media_ok s \<Longrightarrow> media_ok (snd (HandlePairingChallenge P inet e k i s))"
  using arm_receiver_wiring [of s]
  by (auto simp: HandlePairingChallenge_def Let_def same_wiring_def media_ok_def split: prod.splits)

lemma control_wiring:
  "same_wiring s (snd (OnTcpControlMessage P inet e m s))"
  "media_ok s \<Longrightarrow> media_ok (snd (OnTcpControlMessage P inet e m s))"
  using challenge_wiring [of s P inet e]
  by (auto simp: OnTcpControlMessage_def HandlePairingResult_def Let_def same_wiring_def media_ok_def)

lemma handle_lines_wiring:
  "same_wiring s (snd (handle_lines P inet ls s)) \<and>
   (media_ok s \<longrightarrow> media_ok (snd (handle_lines P inet ls s)))"
proof (induction ls arbitrary: s)
  case Nil
  then show ?case by (simp add: same_wiring_def)
next
  case (Cons l ls)
  obtain e m where l: "l = (e, m)" by (cases l)
  let ?s = "snd (OnTcpControlMessage P inet e m s)"
  have "same_wiring ?s (snd (handle_lines P inet ls ?s))" using Cons.IH by blast
  with same_wiring_trans [OF control_wiring(1)] have "same_wiring s (snd (handle_lines P inet ls ?s))" by blast
  moreover have "media_ok s \<longrightarrow> media_ok (snd (handle_lines P inet ls ?s))"
    using Cons.IH control_wiring(2) by blast
  ultimately show ?case by (simp add: l split_beta)
qed

lemma on_frame_wiring:
  assumes "media_ok s"
  shows "\<exists>out s'. on_frame now f s = Some (out, s') \<and> media_ok s' \<and> same_wiring s s' \<and>
    sv_telemetry s' = sv_telemetry s \<and> decoded out = (if sv_decoder s then [f] else [])"
proof (cases "sv_jitterBuffer s")
  case None
  with assms show ?thesis by (simp add: on_frame_def same_wiring_def)
next
  case (Some jb)
  with assms have jb: "jb_inv sv_jitter_config jb" by (simp add: media_ok_def)
  have "0 < unat (maxQueueFrames sv_jitter_config)" by (simp add: sv_jitter_config_def)
  from PushFrame_total [OF jb this, of now f] obtain idr jb' where
    "PushFrame now f jb = Some (idr, jb')" "jb_inv sv_jitter_config jb'" by blast
  with Some assms show ?thesis by (simp add: on_frame_def media_ok_def same_wiring_def)
qed

lemma on_media_events_wiring:
  "media_ok s \<Longrightarrow> \<exists>out s'. on_media_events now es s = Some (out, s') \<and> media_ok s' \<and> same_wiring s s' \<and>
     decoded out = (if sv_decoder s then ready_frames es else [])"
proof (induction es arbitrary: s)
  case Nil
  then show ?case by (simp add: same_wiring_def)
next
  case (Cons e es)
  show ?case
  proof (cases e)
    case (FrameReady f)
    from on_frame_wiring [OF Cons.prems, of now f] obtain o1 s1 where
      1: "on_frame now f s = Some (o1, s1)" "media_ok s1" "same_wiring s s1"
        "decoded o1 = (if sv_decoder s then [f] else [])" by blast
    from Cons.IH [OF 1(2)] obtain o2 s2 where
      "on_media_events now es s1 = Some (o2, s2)" "media_ok s2" "same_wiring s1 s2"
      "decoded o2 = (if sv_decoder s1 then ready_frames es else [])" by blast
    with 1 FrameReady same_wiring_trans [OF 1(3)] show ?thesis by (auto simp: same_wiring_def)
  next
    case (MissingKeyframe i)
    from Cons.IH [OF Cons.prems] obtain o2 s2 where
      "on_media_events now es s = Some (o2, s2)" "media_ok s2" "same_wiring s s2"
      "decoded o2 = (if sv_decoder s then ready_frames es else [])" by blast
    with MissingKeyframe show ?thesis by auto
  qed
qed

lemma ready_frames_set: "f \<in> set (ready_frames es) \<Longrightarrow> FrameReady f \<in> set es"
  by (induction es rule: ready_frames.induct) auto

text \<open>A datagram is always handled, keeps the wiring, and gives the decoder only frames of bounded size.\<close>

lemma WorkerLoop_wiring:
  assumes "media_ok s" and P: "unseal_sized (Decrypt P)"
  shows "\<exists>out s'. WorkerLoop_turn P now us src d s = Some (out, s') \<and> media_ok s' \<and> same_wiring s s' \<and>
    (\<forall>f \<in> set (decoded out). length (vf_data f) < 2 ^ 32)"
proof (cases "WorkerLoop_turn P now us src d s = Some ([], s)")
  case True
  then show ?thesis using assms(1) by (simp add: same_wiring_def)
next
  case False
  then have w: "WorkerLoop_turn P now us src d s = OnUdpPacketReceived P now us d s"
    and len: "length d \<le> VEYRA_MAX_PACKET_SIZE"
    by (auto simp: WorkerLoop_turn_def split: option.splits if_splits)
  with False obtain r where r: "sv_reassembler s = Some r"
    by (cases "sv_reassembler s") (auto simp: OnUdpPacketReceived_def)
  with assms(1) have small: "small_pending r" by (simp add: media_ok_def)
  obtain b es r' where push: "PushPacket (Decrypt P) (Some d) (length d) r = (b, es, r')"
    by (cases "PushPacket (Decrypt P) (Some d) (length d) r") auto
  let ?s = "s\<lparr>sv_reassembler := Some r'\<rparr>"
  have "media_ok ?s"
    using assms(1) PushPacket_small [OF P small len, of "Some d"] push by (simp add: media_ok_def)
  from on_media_events_wiring [OF this, of now es] obtain out s1 where
    m: "on_media_events now es ?s = Some (out, s1)" "media_ok s1" "same_wiring ?s s1"
      "decoded out = (if sv_decoder ?s then ready_frames es else [])" by blast
  have "length (vf_data f) < 2 ^ 32" if "f \<in> set (decoded out)" for f
  proof -
    from that m(4) have "f \<in> set (ready_frames es)" by (cases "sv_decoder s") auto
    then have "FrameReady f \<in> set es" by (rule ready_frames_set)
    with PushPacket_frame_size [OF P small len, of f "Some d"] push have "length (vf_data f) \<le> kMaxFrame" by simp
    then show ?thesis by (simp add: kMaxFrame_def wire_simps)
  qed
  with m push r w show ?thesis by (auto simp: OnUdpPacketReceived_def same_wiring_def media_ok_def)
qed

subsection \<open>Invariant\<close>

text \<open>
  \<open>ServiceManager\<close> and its parts agree: the pointers it holds, whether the control client is
  connected, each part's own invariant, and lines only while the reader thread runs.
\<close>

definition co_ok :: "core \<Rightarrow> bool" where
  "co_ok c \<longleftrightarrow> media_ok (co_service c) \<and> mo_ok (co_outputs c) \<and>
     pred_option ep_ok (co_tcp c) \<and> pred_option udp_ok (co_udp c) \<and>
     sv_tcpClient (co_service c) = (co_tcp c \<noteq> None) \<and>
     sv_connected (co_service c) = (\<exists>t. co_tcp c = Some t \<and> ep_active t) \<and>
     (co_udp c = None \<longleftrightarrow> sv_udpServer (co_service c) = None) \<and>
     sv_decoder (co_service c) = (mo_decoder (co_outputs c) \<noteq> None) \<and>
     (co_inbox c = [] \<or> reader_runs c)"

lemma co_okD:
  assumes "co_ok c"
  shows "media_ok (co_service c)" "mo_ok (co_outputs c)"
    and "co_tcp c = Some t \<Longrightarrow> ep_ok t" "co_udp c = Some u \<Longrightarrow> udp_ok u"
  using assms by (simp_all add: co_ok_def)

lemma core_new_ok: "co_ok core_new"
  by (simp add: co_ok_def core_new_def Service_new_def outputs_new_def media_ok_def mo_ok_def)

text \<open>The last control connection ended by itself, and its reader thread was not joined.\<close>

definition connection_lost :: "core \<Rightarrow> bool" where
  "connection_lost c = (case co_tcp c of None \<Rightarrow> False | Some t \<Rightarrow> ep_thread t = Ended)"

lemma destroy_tcp_None:
  "co_ok c \<Longrightarrow> destroy_tcp waits (co_tcp c) = None \<longleftrightarrow> connection_lost c \<or> (waits \<and> reader_runs c)"
  by (cases "co_tcp c")
    (simp_all add: destroy_tcp_def tcp_destroy_waiting_None co_okD connection_lost_def reader_runs_def)

lemma reader_waits_runs: "co_ok c \<Longrightarrow> reader_waits c \<Longrightarrow> reader_runs c"
  by (auto simp: co_ok_def reader_waits_def)

lemma destroy_udp_total: "pred_option udp_ok u \<Longrightarrow> destroy_udp u = Some ()"
  by (cases u) (simp_all add: destroy_udp_def udp_total(2))

lemma mo_Initialize_decoder: "mo_Initialize D V E m = Some m' \<Longrightarrow> mo_decoder m' \<noteq> None"
  by (auto simp: mo_Initialize_def split_beta split: bind_splits)

lemma Initialize_media_ok: "media_ok (snd (Initialize s))"
  by (simp add: media_ok_def Initialize_def sv_jitter_config_def jb_inv_def JitterBuffer_new_def by_stamp_def
      small_pending_def FrameReassembler_new_def)

lemma init_ok:
  assumes "co_ok c" and "veyra_core_init D V E fd binds c = Some (n, c')"
  shows "co_ok c'"
proof -
  from assms(2) obtain m b u where
    m: "mo_Initialize D V E (co_outputs c) = Some m" and u: "udp_Start fd binds endpoint_new = Some (b, u)" and
    c': "c' = \<lparr>co_service = snd (Initialize (co_service c)), co_outputs = m, co_tcp = Some endpoint_new, co_udp = Some u, co_inbox = []\<rparr>"
    by (auto simp: veyra_core_init_def split_beta split: bind_splits)
  have "udp_ok u" using udp_total(1) [of endpoint_new fd binds] u by simp
  moreover have "\<not> ep_active endpoint_new" by (simp add: endpoint_new_def)
  ultimately show ?thesis
    using mo_Initialize_ok [OF m] mo_Initialize_decoder [OF m] Initialize_media_ok
    by (simp add: co_ok_def c') (simp add: Initialize_def)
qed

lemma init_None:
  assumes "co_ok c"
  shows "veyra_core_init D V E fd binds c = None \<longleftrightarrow>
    (hr_startup E \<and> hr_create E \<and> \<not> (hr_inputType E \<and> hr_outputType E)) \<or> connection_lost c \<or> reader_waits c"
proof -
  have udp: "destroy_udp (co_udp c) = Some ()"
    by (rule destroy_udp_total) (use assms in \<open>simp add: co_ok_def\<close>)
  obtain b u where "udp_Start fd binds endpoint_new = Some (b, u)"
    using udp_total(1) [of endpoint_new fd binds] by auto
  with udp mo_Initialize_hangs [OF co_okD(2) [OF assms], of D V E]
    destroy_tcp_None [OF assms, of "reader_waits c"] reader_waits_runs [OF assms] show ?thesis
    by (cases "mo_Initialize D V E (co_outputs c)"; cases "destroy_tcp (reader_waits c) (co_tcp c)")
      (auto simp: veyra_core_init_def split_beta)
qed

definition connecting :: "('ctx, 'mpi, 'point) mbedtls \<Rightarrow> (string \<Rightarrow> u32 option) \<Rightarrow> string \<Rightarrow> string \<Rightarrow> bool \<Rightarrow> nat \<Rightarrow> core \<Rightarrow> Service" where
  "connecting P inet host pin cb early c =
     snd (handle_lines P inet (drop early (co_inbox c))
       ((snd (handle_lines P inet (take early (co_inbox c)) (connect_begin host pin cb (co_service c))))\<lparr>sv_connected := False\<rparr>))"

lemma connecting_wiring:
  assumes "media_ok (co_service c)"
  shows "media_ok (connecting P inet h p cb early c)"
    "sv_tcpClient (connecting P inet h p cb early c) = sv_tcpClient (co_service c)"
    "sv_decoder (connecting P inet h p cb early c) = sv_decoder (co_service c)"
    "sv_udpServer (connecting P inet h p cb early c) = None \<longleftrightarrow> sv_udpServer (co_service c) = None"
proof -
  let ?s = "connect_begin h p cb (co_service c)"
  let ?t = "(snd (handle_lines P inet (take early (co_inbox c)) ?s))\<lparr>sv_connected := False\<rparr>"
  have "media_ok ?s" using assms by (simp add: connect_begin_def media_ok_def)
  with handle_lines_wiring [of ?s P inet "take early (co_inbox c)"] have "media_ok ?t"
    by (simp add: media_ok_def)
  with handle_lines_wiring [of ?t P inet "drop early (co_inbox c)"] show "media_ok (connecting P inet h p cb early c)" by (simp add: connecting_def)
  note w = handle_lines_wiring [of ?s P inet "take early (co_inbox c)"]
    handle_lines_wiring [of ?t P inet "drop early (co_inbox c)"]
  show "sv_tcpClient (connecting P inet h p cb early c) = sv_tcpClient (co_service c)"
    "sv_decoder (connecting P inet h p cb early c) = sv_decoder (co_service c)"
    "sv_udpServer (connecting P inet h p cb early c) = None \<longleftrightarrow> sv_udpServer (co_service c) = None"
    using w by (simp_all add: connecting_def same_wiring_def connect_begin_def)
qed

lemma connect_eq:
  "co_tcp c = Some t \<Longrightarrow>
     map_option (\<lambda>(r, es, c'). c') (veyra_core_connect_device P inet (Some h) (Some p) cb early fd connects c) =
     map_option (\<lambda>(b, t'). c\<lparr>co_service := snd (snd (connect_end b (connecting P inet h p cb early c))),
       co_tcp := Some t', co_inbox := []\<rparr>) (tcp_Connect fd connects t)"
  by (cases "tcp_Connect fd connects t") (simp_all add: veyra_core_connect_device_def connecting_def split_beta Let_def)

lemma connect_result:
  assumes "veyra_core_connect_device P inet host pin cb early fd connects c = Some (n, es, c')" and "c' \<noteq> c"
  shows "\<exists>h p t b t'. co_tcp c = Some t \<and> tcp_Connect fd connects t = Some (b, t') \<and>
    c' = c\<lparr>co_service := snd (snd (connect_end b (connecting P inet h p cb early c))), co_tcp := Some t', co_inbox := []\<rparr>"
proof -
  obtain h p t where 1: "host = Some h" "pin = Some p" "co_tcp c = Some t"
    using assms by (cases host; cases pin; cases "co_tcp c") (auto simp: veyra_core_connect_device_def)
  with connect_eq [OF 1(3), of P inet h p cb early fd connects] assms(1) show ?thesis
    by (cases "tcp_Connect fd connects t") auto
qed

lemma connect_ok:
  assumes "co_ok c" and "veyra_core_connect_device P inet host pin cb early fd connects c = Some (n, es, c')"
  shows "co_ok c'"
proof (cases "c' = c")
  case False
  from connect_result [OF assms(2) False] obtain h p t b t' where
    t: "co_tcp c = Some t" "tcp_Connect fd connects t = Some (b, t')" and
    c': "c' = c\<lparr>co_service := snd (snd (connect_end b (connecting P inet h p cb early c))), co_tcp := Some t', co_inbox := []\<rparr>"
    by blast
  from t assms(1) have "ep_ok t'" "ep_active t' = b" "sv_tcpClient (co_service c)"
    using tcp_Connect_ok tcp_Connect_active by (auto simp: co_ok_def)
  with assms(1) t connecting_wiring [OF co_okD(1) [OF assms(1)], of P inet h p cb early] show ?thesis
    by (auto simp: co_ok_def c' connect_end_def Let_def media_ok_def)
qed (use assms in simp)

lemma connect_None:
  assumes "co_ok c"
  shows "veyra_core_connect_device P inet host pin cb early fd connects c = None \<longleftrightarrow>
    host \<noteq> None \<and> pin \<noteq> None \<and> fd \<noteq> None \<and> connects \<and> connection_lost c"
proof (cases "co_tcp c")
  case None
  then show ?thesis by (auto simp: veyra_core_connect_device_def connection_lost_def split: option.splits)
next
  case (Some t)
  with tcp_Connect_None [OF co_okD(3) [OF assms Some], of fd connects] show ?thesis
    by (cases "tcp_Connect fd connects t")
      (auto simp: veyra_core_connect_device_def connection_lost_def split_beta Let_def split: option.splits)
qed

lemma DisconnectDevice_wiring:
  "sv_tcpClient (DisconnectDevice inet s) = sv_tcpClient s" "\<not> sv_connected (DisconnectDevice inet s)"
  "sv_decoder (DisconnectDevice inet s) = sv_decoder s"
  "sv_udpServer (DisconnectDevice inet s) = None \<longleftrightarrow> sv_udpServer s = None"
  "media_ok (DisconnectDevice inet s) = media_ok s"
  by (simp_all add: DisconnectDevice_def SetExpectedPeer_def media_ok_def)

text \<open>The service when the reader thread has finished its lines on a closed connection.\<close>

definition drained :: "('ctx, 'mpi, 'point) mbedtls \<Rightarrow> (string \<Rightarrow> u32 option) \<Rightarrow> core \<Rightarrow> Service" where
  "drained P inet c = snd (handle_lines P inet (co_inbox c) ((co_service c)\<lparr>sv_connected := False\<rparr>))"

lemma drained_wiring:
  "media_ok (co_service c) \<Longrightarrow> media_ok (drained P inet c)"
  "sv_tcpClient (drained P inet c) = sv_tcpClient (co_service c)"
  "sv_decoder (drained P inet c) = sv_decoder (co_service c)"
  "sv_udpServer (drained P inet c) = None \<longleftrightarrow> sv_udpServer (co_service c) = None"
  using handle_lines_wiring [of "(co_service c)\<lparr>sv_connected := False\<rparr>" P inet "co_inbox c"]
  by (simp_all add: drained_def same_wiring_def media_ok_def)

lemma disconnect_ok: "co_ok c \<Longrightarrow> co_ok (snd (veyra_core_disconnect_device P inet c))"
  using drained_wiring [where c = c and P = P and inet = inet]
  by (auto simp: co_ok_def veyra_core_disconnect_device_def drained_def split_beta DisconnectDevice_wiring
      tcp_Disconnect_ok option.pred_map elim!: option.pred_mono_strong)

lemma Shutdown_wiring:
  "sv_tcpClient (Shutdown inet s) = sv_tcpClient s" "\<not> sv_connected (Shutdown inet s)"
  "\<not> sv_decoder (Shutdown inet s)" "sv_udpServer (Shutdown inet s) = None" "media_ok (Shutdown inet s) = media_ok s"
  by (simp_all add: Shutdown_def DisconnectDevice_wiring, simp_all add: DisconnectDevice_def SetExpectedPeer_def media_ok_def)

lemma shutdown_total:
  assumes "co_ok c"
  shows "\<exists>es c'. veyra_core_shutdown P inet c = Some (es, c') \<and> co_ok c' \<and> co_udp c' = None \<and>
    co_outputs c' = outputs_new \<and> co_tcp c' = map_option tcp_Disconnect (co_tcp c) \<and> co_inbox c' = []"
proof -
  have udp: "destroy_udp (map_option udp_Stop (co_udp c)) = Some ()"
    by (rule destroy_udp_total) (use assms in \<open>auto simp: co_ok_def option.pred_map udp_total(3) elim!: option.pred_mono_strong\<close>)
  obtain old where "mo_Shutdown (co_outputs c) = Some (old, outputs_new)"
    using mo_Shutdown_releases [OF co_okD(2) [OF assms]] by blast
  with udp obtain es where eq: "veyra_core_shutdown P inet c = Some (es, \<lparr>co_service = Shutdown inet (drained P inet c),
      co_outputs = outputs_new, co_tcp = map_option tcp_Disconnect (co_tcp c), co_udp = None, co_inbox = []\<rparr>)"
    by (simp add: veyra_core_shutdown_def drained_def split_beta)
  have "mo_ok outputs_new" "mo_decoder outputs_new = None" by (simp_all add: mo_ok_def outputs_new_def)
  with assms eq drained_wiring [where c = c and P = P and inet = inet] show ?thesis
    by (auto simp: co_ok_def Shutdown_wiring option.pred_map tcp_Disconnect_ok elim!: option.pred_mono_strong)
qed

lemma lost_inactive [simp]: "\<not> ep_active (tcp_loop_ends e)"
  by (simp add: tcp_loop_ends_def)

lemma lost_ok: "co_ok c \<Longrightarrow> co_ok (core_lost c)"
  by (auto simp: core_lost_def co_ok_def tcp_loop_ends_ok media_ok_def split: option.split)

lemma receive_ok: "co_ok c \<Longrightarrow> co_ok (core_receive lines c)"
  by (simp add: core_receive_def co_ok_def reader_runs_def)

lemma control_ok: "co_ok c \<Longrightarrow> co_ok (snd (core_control P inet c))"
  using control_wiring [of "co_service c" P inet]
  by (auto simp: core_control_def co_ok_def reader_runs_def same_wiring_def split_beta split: list.split)

lemma mo_frames_total:
  "mo_ok m \<Longrightarrow> \<forall>cf \<in> set cfs. length (vf_data (snd cf)) < 2 ^ 32 \<Longrightarrow>
     \<exists>samples uploads. mo_frames cfs m = Some (samples, uploads, m)"
proof (induction cfs)
  case Nil
  then show ?case by simp
next
  case (Cons cf cfs)
  then show ?case using mo_frame_total [of m "snd cf" "fst cf"] by (cases cf) auto
qed

lemma datagram_total:
  assumes "co_ok c" and "unseal_sized (Decrypt P)"
  shows "\<exists>es up c'. core_datagram P now us src d calls c = Some (es, up, c') \<and> co_ok c'"
proof -
  from WorkerLoop_wiring [OF co_okD(1) [OF assms(1)] assms(2), of now us src d] obtain es s where
    s: "WorkerLoop_turn P now us src d (co_service c) = Some (es, s)" "media_ok s" "same_wiring (co_service c) s"
    and small: "\<forall>f \<in> set (decoded es). length (vf_data f) < 2 ^ 32" by blast
  from mo_frames_total [OF co_okD(2) [OF assms(1)], of "map (\<lambda>f. (calls f, f)) (decoded es)"] small
  obtain sam up where "mo_frames (map (\<lambda>f. (calls f, f)) (decoded es)) (co_outputs c) = Some (sam, up, co_outputs c)"
    by auto
  with s assms(1) show ?thesis
    by (auto simp: core_datagram_def co_ok_def reader_runs_def same_wiring_def split: option.split)
qed

lemma core_step_ok:
  assumes "co_ok c" "unseal_sized (Decrypt P)" "core_step P inet x c = Some c'"
  shows "co_ok c'"
proof (cases x)
  case (C_Datagram now us src d calls)
  with datagram_total [OF assms(1,2), of now us src d calls] assms(3) show ?thesis by auto
next
  case C_Shutdown
  with shutdown_total [OF assms(1), of P inet] assms(3) show ?thesis by auto
qed (use assms in \<open>auto intro: init_ok connect_ok disconnect_ok lost_ok receive_ok control_ok\<close>)

lemma core_reach_ok: "core_reach P inet c \<Longrightarrow> unseal_sized (Decrypt P) \<Longrightarrow> co_ok c"
  by (induction rule: core_reach.induct) (auto simp: core_new_ok intro: core_step_ok)

subsection \<open>Properties\<close>

definition demo_started :: "int \<times> core" where
  "demo_started = the (veyra_core_init demo_d3d demo_camera demo_mf (Some 3) True core_new)"

definition demo_connected :: "int \<times> sv_event list \<times> core" where
  "demo_connected = the (veyra_core_connect_device demo_lib demo_inet (Some ''10.0.0.5'') (Some ''123456'') True 0 (Some 4) True
     (snd demo_started))"

lemma demo_core_steps:
  "veyra_core_init demo_d3d demo_camera demo_mf (Some 3) True core_new = Some demo_started"
  "veyra_core_connect_device demo_lib demo_inet (Some ''10.0.0.5'') (Some ''123456'') True 0 (Some 4) True (snd demo_started) =
     Some demo_connected"
  unfolding demo_started_def demo_connected_def by code_simp+

lemma demo_core_reach: "core_reach demo_lib demo_inet (snd (snd demo_connected))"
proof -
  have 1: "core_reach demo_lib demo_inet (snd demo_started)"
    by (rule core_reach.step [OF core_reach.start, of _ _ "C_Init demo_d3d demo_camera demo_mf (Some 3) True"])
      (simp add: demo_core_steps)
  show ?thesis
    by (rule core_reach.step [OF 1, of "C_Connect (Some ''10.0.0.5'') (Some ''123456'') True 0 (Some 4) True"])
      (simp add: demo_core_steps split_beta)
qed

text \<open>C3. When the calls of the C interface return, in every state reached by calls, received lines, their
  handling, datagrams and lost connections, for calls made one at a time and not from a status callback.
  \<open>veyra_core_init\<close> fails to return exactly when a media type of the decoder is refused, the last control
  connection ended by itself, or the reader thread of the running connection has a pairing message to
  handle: it needs the mutex that \<open>Initialize\<close> holds while it joins the thread.
  \<open>veyra_core_connect_device\<close> fails to return exactly when both texts are given, the socket is made and
  connected, and the last connection ended by itself; the end of the process exactly when the latter is
  so. \<open>veyra_core_shutdown\<close> and every datagram are always handled, and shutdown leaves no server, no decoder,
  no running reader thread and no unhandled line.\<close>

theorem core_calls_return:
  assumes "chachapoly_sized P" and "core_reach P inet c"
  shows "(veyra_core_init D V E fd binds c = None \<longleftrightarrow>
      (hr_startup E \<and> hr_create E \<and> \<not> (hr_inputType E \<and> hr_outputType E)) \<or> connection_lost c \<or> reader_waits c) \<and>
    (veyra_core_connect_device P inet host pin cb early fd connects c = None \<longleftrightarrow>
      host \<noteq> None \<and> pin \<noteq> None \<and> fd \<noteq> None \<and> connects \<and> connection_lost c) \<and>
    (core_exit P inet c = None \<longleftrightarrow> connection_lost c) \<and>
    (\<exists>es c'. veyra_core_shutdown P inet c = Some (es, c') \<and> co_udp c' = None \<and> co_outputs c' = outputs_new \<and>
       \<not> reader_runs c' \<and> co_inbox c' = [] \<and> \<not> sv_connected (co_service c')) \<and>
    core_datagram P now us src d calls c \<noteq> None"
proof -
  have P: "unseal_sized (Decrypt P)" using Decrypt_sized [OF assms(1)] .
  have ok: "co_ok c" using core_reach_ok [OF assms(2) P] .
  from shutdown_total [OF ok, of P inet] obtain es c' where
    c': "veyra_core_shutdown P inet c = Some (es, c')" "co_ok c'" "co_udp c' = None" "co_outputs c' = outputs_new"
      "co_tcp c' = map_option tcp_Disconnect (co_tcp c)" "co_inbox c' = []" by blast
  have t: "\<not> reader_runs c'" "connection_lost c' = connection_lost c"
    using c'(5) co_okD(3) [OF ok]
    by (cases "co_tcp c"; auto simp: reader_runs_def connection_lost_def tcp_Disconnect_thread)+
  have "core_exit P inet c = None \<longleftrightarrow> connection_lost c"
    using c'(1) destroy_tcp_None [OF c'(2), of False] t(2) by (simp add: core_exit_def)
  moreover have "\<not> sv_connected (co_service c')" using c'(2,5) by (auto simp: co_ok_def)
  moreover have "core_datagram P now us src d calls c \<noteq> None"
    using datagram_total [OF ok P, of now us src d calls] by auto
  ultimately show ?thesis
    using c' t(1) init_None [OF ok, of D V E fd binds] connect_None [OF ok, of P inet host pin cb early fd connects]
    by blast
qed

text \<open>A lost connection, and a repeated start while a challenge has arrived.\<close>

definition demo_challenged :: core where
  "demo_challenged = core_receive [([], object_text [(''type'', ''pairing_challenge'')])] (snd (snd demo_connected))"

theorem core_calls_return_witness:
  "core_exit demo_lib demo_inet (core_lost (snd (snd demo_connected))) = None \<and>
   core_exit demo_lib demo_inet demo_challenged \<noteq> None \<and>
   veyra_core_init demo_d3d demo_camera demo_mf (Some 5) True demo_challenged = None"
proof -
  let ?c = "core_lost (snd (snd demo_connected))"
  have r: "core_reach demo_lib demo_inet ?c"
    by (rule core_reach.step [OF demo_core_reach, of C_Lost]) simp
  have c: "core_reach demo_lib demo_inet demo_challenged" unfolding demo_challenged_def
    by (rule core_reach.step [OF demo_core_reach, of "C_Receive [([], object_text [(''type'', ''pairing_challenge'')])]"]) simp
  have "connection_lost ?c" by code_simp
  then have 1: "core_exit demo_lib demo_inet ?c = None" using core_calls_return [OF demo_sized r] by blast
  have running: "connection_lost demo_challenged = False" by code_simp
  have "reader_waits demo_challenged" by code_simp
  with running core_calls_return [OF demo_sized c, of demo_d3d demo_camera demo_mf "Some 5" True]
  have 2: "core_exit demo_lib demo_inet demo_challenged \<noteq> None \<and>
    veyra_core_init demo_d3d demo_camera demo_mf (Some 5) True demo_challenged = None" by simp
  from 1 2 show ?thesis by blast
qed

end
