(* ===== verification/Core_Pairing.thy ===== *)
theory Core_Pairing
  imports Core_Service Pairing
begin



subsection \<open>Properties\<close>




end
