(* ===== verification/Random_Source.thy ===== *)
theory Random_Source
  imports Crypto
begin

text \<open>
  The process wide random generator of \<open>crypto.cpp\<close>: \<open>EnsureRng\<close> seeds it once, \<open>RngRead\<close> is the
  callback given to \<open>mbedtls_ecdh_gen_public\<close>, and \<open>RandomBytes\<close> fills a buffer. The state is
  \<open>None\<close> while \<open>g_rngReady\<close> is false. The CTR-DRBG calls of mbedTLS are parameters: seeding from
  platform entropy with a personalization text, and reading into a buffer, which gives whether it
  succeeded, the buffer after it, and the next state.
\<close>

record 'd drbg =
  drbg_seed :: "bytes \<Rightarrow> string \<Rightarrow> 'd option"
  drbg_random :: "'d \<Rightarrow> bytes \<Rightarrow> bool \<times> bytes \<times> 'd"

text \<open>A result \<open>None\<close> is \<open>abort\<close>.\<close>

definition EnsureRng :: "'d drbg \<Rightarrow> bytes \<Rightarrow> 'd option \<Rightarrow> 'd option" where
  "EnsureRng D entropy g =
     (case g of Some d \<Rightarrow> Some d | None \<Rightarrow> drbg_seed D entropy ''VeyraSessionCryptoV1'')"

definition RngRead :: "'d drbg \<Rightarrow> bytes \<Rightarrow> 'd option \<Rightarrow> bool \<times> bytes \<times> 'd option" where
  "RngRead D out g = (case g of
      None \<Rightarrow> (False, out, None)
    | Some d \<Rightarrow> (let (ok, out', d') = drbg_random D d out in (ok, out', Some d')))"

text \<open>The result of the read is not looked at.\<close>

definition RandomBytes :: "'d drbg \<Rightarrow> bytes \<Rightarrow> bytes \<Rightarrow> 'd option \<Rightarrow> (bytes \<times> 'd option) option" where
  "RandomBytes D entropy out g = (case EnsureRng D entropy g of
      None \<Rightarrow> None
    | Some d \<Rightarrow> (let (ok, out', d') = drbg_random D d out in Some (out', Some d')))"

text \<open>\<open>stack\<close>: what the four bytes of the uninitialised array hold.\<close>

definition random_id :: "'d drbg \<Rightarrow> bytes \<Rightarrow> bytes \<Rightarrow> 'd option \<Rightarrow> (u32 \<times> 'd option) option" where
  "random_id D entropy stack g =
     map_option (map_prod (\<lambda>b. RandomId (b ! 0) (b ! 1) (b ! 2) (b ! 3)) id) (RandomBytes D entropy stack g)"

subsection \<open>One seed, one stream\<close>

fun random_run :: "'d drbg \<Rightarrow> 'd option \<Rightarrow> (bytes \<times> bytes) list \<Rightarrow> (bytes list \<times> 'd option) option" where
  "random_run D g [] = Some ([], g)"
| "random_run D g ((entropy, out) # rs) = (case RandomBytes D entropy out g of
      None \<Rightarrow> None
    | Some (b, g') \<Rightarrow> map_option (map_prod ((#) b) id) (random_run D g' rs))"

fun drbg_stream :: "'d drbg \<Rightarrow> 'd \<Rightarrow> bytes list \<Rightarrow> bytes list" where
  "drbg_stream D d [] = []"
| "drbg_stream D d (out # outs) = (let (ok, b, d') = drbg_random D d out in b # drbg_stream D d' outs)"

lemma random_run_seeded:
  "\<exists>d'. random_run D (Some d) rs = Some (drbg_stream D d (map snd rs), Some d')"
proof (induction rs arbitrary: d)
  case Nil
  then show ?case by simp
next
  case (Cons r rs)
  obtain ok b d1 where b: "drbg_random D d (snd r) = (ok, b, d1)" by (metis prod_cases3)
  from Cons.IH [of d1] obtain d' where "random_run D (Some d1) rs = Some (drbg_stream D d1 (map snd rs), Some d')" ..
  with b show ?case by (cases r) (simp add: RandomBytes_def EnsureRng_def)
qed

text \<open>The generator is seeded with the entropy of the first request only, and the process aborts only
  when that seeding fails: all later requests read on in the stream of that one seed.\<close>

theorem random_source_is_one_stream:
  "case drbg_seed D entropy ''VeyraSessionCryptoV1'' of
     None \<Rightarrow> random_run D None ((entropy, out) # rs) = None
   | Some d \<Rightarrow> map_option fst (random_run D None ((entropy, out) # rs)) = Some (drbg_stream D d (out # map snd rs))"
proof (cases "drbg_seed D entropy ''VeyraSessionCryptoV1''")
  case None
  then show ?thesis by (simp add: RandomBytes_def EnsureRng_def)
next
  case (Some d)
  obtain ok b d1 where b: "drbg_random D d out = (ok, b, d1)" by (metis prod_cases3)
  from random_run_seeded [of D d1 rs] obtain d' where
    "random_run D (Some d1) rs = Some (drbg_stream D d1 (map snd rs), Some d')" ..
  with Some b show ?thesis by (simp add: RandomBytes_def EnsureRng_def)
qed

text \<open>A read that fails is not noticed: the identifier is then made of what the array held.\<close>

theorem failed_read_is_silent:
  assumes "drbg_random D d stack = (False, stack, d')" and "length stack = 4"
  shows "random_id D entropy stack (Some d) =
    Some (RandomId (stack ! 0) (stack ! 1) (stack ! 2) (stack ! 3), Some d')"
  using assms by (simp add: random_id_def RandomBytes_def EnsureRng_def)

text \<open>The callback of the key generation finds the generator seeded.\<close>

lemma RngRead_after_EnsureRng:
  "EnsureRng D entropy g = Some d \<Longrightarrow>
     RngRead D out (Some d) = (let (ok, b, d') = drbg_random D d out in (ok, b, Some d'))"
  by (simp add: RngRead_def)

end
