(* ===== verification/Phone_Pairing.thy ===== *)
theory Phone_Pairing
  imports Number_Text
begin

text \<open>
  \<open>PairingManager\<close> of the Android application
  (\<open>apps/veyracam/android/app/src/main/kotlin/com/veyra/cam/service/PairingManager.kt\<close>): the PIN that
  gates the pairing, its lockout after five wrong guesses, and the token of a paired client. Its methods
  are synchronized, so each is one step. The clock, the random generator and the Base64 encoder of
  Android are arguments; times are in milliseconds.
\<close>

subsection \<open>State\<close>

datatype State = PM_IDLE | AWAITING_PIN | PM_PAIRED | PM_LOCKED

datatype PairingResult = PR_OK | INVALID_PIN | PR_LOCKED | NOT_AWAITING

record PairingManager =
  pm_state :: State
  pm_currentPin :: "string option"
  pm_authToken :: "string option"
  pm_failedAttempts :: int
  pm_lockUntilMs :: int
  pm_fingerprint :: "string option"

definition PairingManager_new :: PairingManager where
  "PairingManager_new = \<lparr>pm_state = PM_IDLE, pm_currentPin = None, pm_authToken = None,
     pm_failedAttempts = 0, pm_lockUntilMs = 0, pm_fingerprint = None\<rparr>"

definition MAX_ATTEMPTS :: int where "MAX_ATTEMPTS = 5"
definition LOCKOUT_MS :: int where "LOCKOUT_MS = 30000"
definition PIN_LENGTH :: nat where "PIN_LENGTH = 6"

lemmas pm_constants = MAX_ATTEMPTS_def LOCKOUT_MS_def PIN_LENGTH_def

subsection \<open>Operations\<close>

text \<open>\<open>draw i\<close> is the \<open>i\<close>th result of \<open>nextInt(10)\<close>.\<close>

definition generatePin :: "(nat \<Rightarrow> nat) \<Rightarrow> string" where
  "generatePin draw = concat (map (\<lambda>i. nat_text (draw i)) [0..<PIN_LENGTH])"

definition startPairing ::
  "string \<Rightarrow> int \<Rightarrow> (nat \<Rightarrow> nat) \<Rightarrow> PairingManager \<Rightarrow> string option \<times> PairingManager" where
  "startPairing clientFingerprint now draw m =
     (if pm_state m = PM_LOCKED \<and> now < pm_lockUntilMs m then (None, m)
      else
        let m = m\<lparr>pm_state := AWAITING_PIN, pm_currentPin := Some (generatePin draw), pm_authToken := None,
                  pm_fingerprint := Some clientFingerprint\<rparr>
        in (pm_currentPin m, m))"

text \<open>\<open>String.toByteArray(Charsets.US_ASCII)\<close>.\<close>

definition us_ascii :: "string \<Rightarrow> string" where
  "us_ascii = map (\<lambda>c. if (of_char c :: nat) < 128 then c else CHR 0x3F)"

text \<open>The clock is read at the entry and, for the last wrong guess, again; \<open>token\<close> is the encoded token.\<close>

definition verifyPin ::
  "string \<Rightarrow> int \<Rightarrow> int \<Rightarrow> string \<Rightarrow> PairingManager \<Rightarrow> PairingResult \<times> PairingManager" where
  "verifyPin input now now' token m =
     (if pm_state m = PM_LOCKED \<and> now < pm_lockUntilMs m then (PR_LOCKED, m)
      else
        let m = (if pm_state m = PM_LOCKED then m\<lparr>pm_state := AWAITING_PIN, pm_failedAttempts := 0\<rparr> else m)
        in if pm_state m \<noteq> AWAITING_PIN then (NOT_AWAITING, m)
           else case pm_currentPin m of
               None \<Rightarrow> (NOT_AWAITING, m)
             | Some expected \<Rightarrow>
                 if us_ascii input \<noteq> us_ascii expected then
                   let m = m\<lparr>pm_failedAttempts := pm_failedAttempts m + 1\<rparr>
                   in (INVALID_PIN,
                       if MAX_ATTEMPTS \<le> pm_failedAttempts m
                       then m\<lparr>pm_state := PM_LOCKED, pm_lockUntilMs := now' + LOCKOUT_MS\<rparr> else m)
                 else (PR_OK, m\<lparr>pm_authToken := Some token, pm_state := PM_PAIRED, pm_failedAttempts := 0\<rparr>))"

definition isTokenValid :: "string \<Rightarrow> PairingManager \<Rightarrow> bool" where
  "isTokenValid candidate m =
     (case pm_authToken m of None \<Rightarrow> False | Some expected \<Rightarrow> us_ascii candidate = us_ascii expected)"

definition pm_reset :: "PairingManager \<Rightarrow> PairingManager" where
  "pm_reset m = m\<lparr>pm_state := PM_IDLE, pm_currentPin := None, pm_authToken := None, pm_failedAttempts := 0,
     pm_lockUntilMs := 0, pm_fingerprint := None\<rparr>"

definition isPaired :: "PairingManager \<Rightarrow> bool" where
  "isPaired m \<longleftrightarrow> pm_state m = PM_PAIRED"

definition getCurrentPin :: "PairingManager \<Rightarrow> string option" where
  "getCurrentPin m = (if pm_state m = AWAITING_PIN then pm_currentPin m else None)"

lemma pm_reset_new [simp]: "pm_reset m = PairingManager_new"
  by (simp add: pm_reset_def PairingManager_new_def)

subsection \<open>Guessing\<close>

text \<open>Calls other than \<open>reset\<close>, with the readings of the clock they make.\<close>

datatype pm_call =
    Start string int "nat \<Rightarrow> nat"
  | Verify string int int string

fun pm_step :: "pm_call \<Rightarrow> PairingManager \<Rightarrow> PairingResult list \<times> PairingManager" where
  "pm_step (Start who now draw) m = ([], snd (startPairing who now draw m))"
| "pm_step (Verify input now now' token) m = (let (r, m) = verifyPin input now now' token m in ([r], m))"

fun pm_run :: "pm_call list \<Rightarrow> PairingManager \<Rightarrow> PairingResult list \<times> PairingManager" where
  "pm_run [] m = ([], m)"
| "pm_run (c # cs) m = (let (r, m) = pm_step c m; (rs, m) = pm_run cs m in (r @ rs, m))"

fun readings :: "pm_call \<Rightarrow> int set" where
  "readings (Start who now draw) = {now}"
| "readings (Verify input now now' token) = {now, now'}"

text \<open>How many wrong guesses a manager still takes before \<open>t + LOCKOUT_MS\<close>.\<close>

definition guesses_left :: "int \<Rightarrow> PairingManager \<Rightarrow> int" where
  "guesses_left t m =
     (if pm_state m = PM_LOCKED then (if t + LOCKOUT_MS \<le> pm_lockUntilMs m then 0 else MAX_ATTEMPTS)
      else max 1 (MAX_ATTEMPTS - pm_failedAttempts m))"

definition wrong :: "PairingResult list \<Rightarrow> int" where
  "wrong rs = int (length (List.filter (\<lambda>r. r = INVALID_PIN) rs))"

lemma wrong_simps [simp]:
  "wrong [] = 0" "wrong (r # rs) = (if r = INVALID_PIN then 1 else 0) + wrong rs" "wrong (rs @ rs') = wrong rs + wrong rs'"
  by (simp_all add: wrong_def)

lemma start_guesses:
  "\<lbrakk>now < t + LOCKOUT_MS; 0 \<le> pm_failedAttempts m; startPairing who now draw m = (p, m')\<rbrakk> \<Longrightarrow>
     guesses_left t m' \<le> guesses_left t m \<and> 0 \<le> pm_failedAttempts m'"
  by (auto simp: startPairing_def guesses_left_def pm_constants Let_def split: if_splits)

lemma verify_guesses:
  "\<lbrakk>now < t + LOCKOUT_MS; t \<le> now'; 0 \<le> pm_failedAttempts m; verifyPin input now now' token m = (r, m'); r \<noteq> PR_OK\<rbrakk> \<Longrightarrow>
     guesses_left t m' + wrong [r] \<le> guesses_left t m \<and> 0 \<le> pm_failedAttempts m'"
  by (auto simp: verifyPin_def guesses_left_def pm_constants Let_def split: if_splits option.splits)

lemma step_guesses:
  assumes "pm_step c m = (rs, m')" "PR_OK \<notin> set rs" "\<forall>x \<in> readings c. t \<le> x \<and> x < t + LOCKOUT_MS" "0 \<le> pm_failedAttempts m"
  shows "guesses_left t m' + wrong rs \<le> guesses_left t m \<and> 0 \<le> pm_failedAttempts m'"
proof (cases c)
  case (Start who now draw)
  obtain p m1 where "startPairing who now draw m = (p, m1)" by (cases "startPairing who now draw m")
  with Start assms start_guesses [of now t m who draw p m1] show ?thesis by simp
next
  case (Verify input now now' token)
  obtain r m1 where v: "verifyPin input now now' token m = (r, m1)" by (cases "verifyPin input now now' token m")
  with Verify assms(1) have e: "rs = [r]" "m1 = m'" by simp_all
  from verify_guesses [where t = t, OF _ _ assms(4) v] Verify assms(2,3) show ?thesis by (simp add: e)
qed

lemma run_guesses:
  "\<lbrakk>pm_run cs m = (rs, m'); PR_OK \<notin> set rs; \<forall>c \<in> set cs. \<forall>x \<in> readings c. t \<le> x \<and> x < t + LOCKOUT_MS;
     0 \<le> pm_failedAttempts m\<rbrakk> \<Longrightarrow> guesses_left t m' + wrong rs \<le> guesses_left t m"
proof (induction cs arbitrary: m rs)
  case Nil
  then show ?case by simp
next
  case (Cons c cs)
  obtain r1 m1 where s: "pm_step c m = (r1, m1)" by (cases "pm_step c m")
  obtain rs2 m2 where r: "pm_run cs m1 = (rs2, m2)" by (cases "pm_run cs m1")
  have e: "rs = r1 @ rs2" "m2 = m'" using Cons.prems(1) s r by simp_all
  have "guesses_left t m1 + wrong r1 \<le> guesses_left t m \<and> 0 \<le> pm_failedAttempts m1"
    using step_guesses [OF s _ _ Cons.prems(4), of t] Cons.prems(2,3) e(1) by simp
  moreover have "guesses_left t m' + wrong rs2 \<le> guesses_left t m1"
    using Cons.IH [of m1 rs2] r e Cons.prems(2,3) calculation by simp
  ultimately show ?case using e(1) by simp
qed

lemma guesses_left_nonneg: "0 \<le> guesses_left t m"
  by (simp add: guesses_left_def pm_constants le_max_iff_disj)

lemma guesses_left_le: "0 \<le> pm_failedAttempts m \<Longrightarrow> guesses_left t m \<le> MAX_ATTEMPTS"
  by (simp add: guesses_left_def pm_constants)

text \<open>Digits of a PIN.\<close>

lemma pin_digits: "\<forall>c \<in> set (generatePin draw). is_digit c"
  using nat_text_digits by (fastforce simp: generatePin_def list_all_iff)

subsection \<open>Properties\<close>

text \<open>C17. The lockout limits guessing: whatever state the manager is in, in any half minute at most five
  wrong PINs are compared, however many pairings are started in between, as long as no PIN was right and
  the manager is not reset.\<close>

theorem lockout_limits_guesses:
  assumes "pm_run cs m = (rs, m')" "PR_OK \<notin> set rs" "0 \<le> pm_failedAttempts m"
    and "\<forall>c \<in> set cs. \<forall>x \<in> readings c. t \<le> x \<and> x < t + LOCKOUT_MS"
  shows "wrong rs \<le> MAX_ATTEMPTS"
proof -
  have "guesses_left t m' + wrong rs \<le> guesses_left t m" using run_guesses [OF assms(1,2,4,3)] .
  with guesses_left_nonneg [of t m'] guesses_left_le [OF assms(3), of t] show ?thesis by simp
qed

definition demo_guesses :: "pm_call list" where
  "demo_guesses = Start ''10.0.0.9'' 1000 (\<lambda>i. i) #
     map (\<lambda>i. Verify ''123456'' (1001 + int i) (1002 + int i) ''t'') [0..<8]"

theorem lockout_limits_guesses_witness:
  "wrong (fst (pm_run demo_guesses PairingManager_new)) = 5 \<and>
   wrong (fst (pm_run demo_guesses PairingManager_new)) \<le> MAX_ATTEMPTS"
proof -
  let ?r = "pm_run demo_guesses PairingManager_new"
  have r: "fst ?r = replicate 5 INVALID_PIN @ replicate 3 PR_LOCKED" by code_simp
  have "\<forall>c \<in> set demo_guesses. \<forall>x \<in> readings c. 1000 \<le> x \<and> x < 1000 + LOCKOUT_MS"
    by (auto simp: demo_guesses_def pm_constants)
  from lockout_limits_guesses [OF prod.collapse [symmetric] _ _ this, of PairingManager_new] r show ?thesis
    by (simp add: PairingManager_new_def eval_nat_numeral)
qed

end
