(* ===== verification/Service_Messages.thy ===== *)
theory Service_Messages
  imports Service Json_Syntax
begin

text \<open>
  The lines that \<open>ServiceManager\<close> (\<open>native/windows/core/service_manager.cpp\<close>) sends over the control
  connection, as values: what a JSON reader on the phone makes of the texts that
  \<open>BuildControlMessage\<close> pastes together for the camera commands and for the end of the pairing.
\<close>

subsection \<open>The camera commands\<close>

datatype camera_command =
    Zoom flt
  | Exposure int
  | Focus bool flt
  | Torch bool
  | SwitchCamera bool
  | RequestIdr

fun camera_send :: "camera_command \<Rightarrow> Service \<Rightarrow> sv_event list" where
  "camera_send (Zoom z) s = sv_SetZoom z s"
| "camera_send (Exposure e) s = sv_SetExposure e s"
| "camera_send (Focus a d) s = sv_SetFocus a d s"
| "camera_send (Torch b) s = sv_SetTorch b s"
| "camera_send (SwitchCamera f) s = sv_SwitchCamera f s"
| "camera_send RequestIdr s = sv_RequestIdr s"

text \<open>What the command is meant to say.\<close>

fun camera_value :: "camera_command \<Rightarrow> string \<times> (string \<times> json) list" where
  "camera_value (Zoom z) = (''setZoom'', [(''zoom'', JNumber (fixed_text 6 z))])"
| "camera_value (Exposure e) = (''setExposure'', [(''exposure'', JNumber (int_text e))])"
| "camera_value (Focus a d) = (''setFocus'', [(''autoFocus'', JBool a), (''distance'', JNumber (fixed_text 6 d))])"
| "camera_value (Torch b) = (''setTorch'', [(''enabled'', JBool b)])"
| "camera_value (SwitchCamera f) = (''switchCamera'', [(''front'', JBool f)])"
| "camera_value RequestIdr = (''requestIdr'', [])"

fun finite_command :: "camera_command \<Rightarrow> bool" where
  "finite_command (Zoom z) \<longleftrightarrow> z \<notin> {PosInf, NegInf, NaN}"
| "finite_command (Focus a d) \<longleftrightarrow> d \<notin> {PosInf, NegInf, NaN}"
| "finite_command c \<longleftrightarrow> True"

definition message_value :: "string \<Rightarrow> string \<Rightarrow> (string \<times> json) list \<Rightarrow> json" where
  "message_value type token fs = JObject ((''type'', JString type) # (''auth_token'', JString token) # fs)"

subsection \<open>Building a message\<close>

lemma plain_names [simp]:
  "plain_text ''type''" "plain_text ''auth_token''" "plain_text ''zoom''" "plain_text ''exposure''" "plain_text ''autoFocus''"
  "plain_text ''distance''" "plain_text ''enabled''" "plain_text ''front''" "plain_text ''video''" "plain_text ''width''"
  "plain_text ''height''" "plain_text ''fps''" "plain_text ''bitrate''" "plain_text ''setZoom''" "plain_text ''setExposure''"
  "plain_text ''setFocus''" "plain_text ''setTorch''" "plain_text ''switchCamera''" "plain_text ''requestIdr''"
  "plain_text ''startStream''" "plain_text ''hello''"
  by (simp_all add: plain_text_def plain_char_def quote_def)

text \<open>Members without blanks.\<close>

lemma blank_Nil [simp]: "blank []"
  by (simp add: blank_def)

lemma solo_reads: "plain_text k \<Longrightarrow> reads v x \<Longrightarrow> reads_members (json_key k @ v) [(k, x)]"
  using member_last [of "[]" k "[]" v x "[]"] by simp

lemma more_reads:
  "plain_text k \<Longrightarrow> reads v x \<Longrightarrow> reads_members s fs \<Longrightarrow> reads_members (json_key k @ v @ CHR 0x2C # s) ((k, x) # fs)"
  using member_more [of "[]" k "[]" v x "[]" s fs] by simp

lemma reads_bool: "reads (bool_text b) (JBool b)"
  by (cases b) (simp_all add: bool_text_def reads_true reads_false)

lemma reads_string': "plain_text s \<Longrightarrow> reads (quote # s @ [quote]) (JString s)"
  by (rule reads_string [OF unescape_plain])

lemma strip_braces_object: "strip_braces (CHR 0x7B # s @ ''}'') = s"
  by (simp add: strip_braces_def)

lemma strip_braces_empty: "strip_braces [] = []"
  by (simp add: strip_braces_def)

lemma members_not_empty: "reads_members s fs \<Longrightarrow> s \<noteq> []"
  by (erule reads_members.cases) (simp_all add: json_key_def)

lemma message_reads:
  assumes "plain_text type" "unescape token = Some t" "token \<noteq> []"
    and "payload = [] \<and> fs = [] \<or> (\<exists>s. payload = CHR 0x7B # s @ ''}'' \<and> reads_members s fs)"
  shows "reads (BuildControlMessage token type payload) (message_value type t fs)"
proof -
  define inner where "inner = strip_braces payload"
  have "reads_members (json_key ''auth_token'' @ (quote # token @ [quote]) @ (if inner \<noteq> [] then CHR 0x2C # inner else []))
      ((''auth_token'', JString t) # fs)"
  proof (cases "payload = []")
    case True
    with assms(4) have "fs = []" "inner = []" by (auto simp: inner_def strip_braces_empty)
    then show ?thesis using solo_reads [OF _ reads_string [OF assms(2)], of "''auth_token''"] by simp
  next
    case False
    with assms(4) have "reads_members inner fs" by (auto simp: inner_def strip_braces_object)
    with members_not_empty more_reads [OF _ reads_string [OF assms(2)], of "''auth_token''" inner fs]
    show ?thesis by simp
  qed
  from reads_object [OF more_reads [OF plain_names(1) reads_string' [OF assms(1)] this]]
  show ?thesis using assms(3)
    by (cases "inner = []") (simp_all add: BuildControlMessage_def message_value_def Let_def json_key_def flip: inner_def)
qed

text \<open>The payload of each command.\<close>

fun camera_payload :: "camera_command \<Rightarrow> string" where
  "camera_payload (Zoom z) = json_key ''zoom'' @ fixed_text 6 z"
| "camera_payload (Exposure e) = json_key ''exposure'' @ int_text e"
| "camera_payload (Focus a d) =
     json_key ''autoFocus'' @ bool_text a @ CHR 0x2C # json_key ''distance'' @ fixed_text 6 d"
| "camera_payload (Torch b) = json_key ''enabled'' @ bool_text b"
| "camera_payload (SwitchCamera f) = json_key ''front'' @ bool_text f"
| "camera_payload RequestIdr = []"

definition can_command :: "Service \<Rightarrow> bool" where
  "can_command s \<longleftrightarrow> sv_tcpClient s \<and> sv_isStreaming s \<and> sv_connected s"

lemma camera_send_payload:
  "can_command s \<Longrightarrow> camera_send c s = [ToPhone (BuildControlMessage (sv_token s) (fst (camera_value c))
     (if c = RequestIdr then [] else CHR 0x7B # camera_payload c @ ''}'') @ [newline])]"
  by (cases c) (simp_all add: can_command_def sv_command_def tcp_send_def SendControlMessage_def sv_SetZoom_def
      sv_SetExposure_def sv_SetFocus_def sv_SetTorch_def sv_SwitchCamera_def sv_RequestIdr_def)

lemma not_special: "v \<noteq> PosInf \<Longrightarrow> v \<noteq> NegInf \<Longrightarrow> v \<noteq> NaN \<Longrightarrow> (\<And>x. v = Finite x \<Longrightarrow> P) \<Longrightarrow> P"
  by (cases v) auto

lemma camera_payload_reads:
  "finite_command c \<Longrightarrow> c \<noteq> RequestIdr \<Longrightarrow> reads_members (camera_payload c) (snd (camera_value c))"
  by (cases c) (auto simp del: fixed_text.simps elim!: not_special
      intro!: solo_reads more_reads reads_bool reads_number number_text_int number_text_fixed)

lemma camera_type_plain: "plain_text (fst (camera_value c))"
  by (cases c) simp_all

lemma newline_blank [simp]: "blank [newline]"
  by (simp add: blank_def is_ws_def newline_def)

lemma camera_line_reads:
  assumes "can_command s" "unescape (sv_token s) = Some t" "sv_token s \<noteq> []" "finite_command c"
  shows "\<exists>line. camera_send c s = [ToPhone line] \<and>
    read_json line = Some (message_value (fst (camera_value c)) t (snd (camera_value c)))"
proof -
  let ?payload = "if c = RequestIdr then [] else CHR 0x7B # camera_payload c @ ''}''"
  have "?payload = [] \<and> snd (camera_value c) = [] \<or>
      (\<exists>m. ?payload = CHR 0x7B # m @ ''}'' \<and> reads_members m (snd (camera_value c)))"
    using camera_payload_reads [OF assms(4)] by (cases "c = RequestIdr") auto
  from read_json_complete [OF message_reads [OF camera_type_plain assms(2,3) this] newline_blank]
  show ?thesis by (simp add: camera_send_payload [OF assms(1)])
qed

text \<open>A value that is not finite is written as a word.\<close>

lemma read_member_string:
  assumes "plain_text k" "unescape v = Some t" "0 < m"
  shows "read_members (Suc m) (json_key k @ quote # v @ quote # CHR 0x2C # s) =
    map_option (\<lambda>(fs, r). ((k, JString t) # fs, r)) (read_members m s)"
proof -
  have "read_value m (quote # v @ quote # r) = Some (JString t, r)" for r
    using assms(2,3) by (cases m) (simp_all add: read_string_escaped)
  then show ?thesis
    using assms(1) by (cases "read_members m s")
      (simp_all add: json_key_append skip_solid expect_def read_string_plain split: prod.split)
qed

lemma not_a_number: "read_value n (fixed_text 6 v @ r) = None" if "v \<in> {PosInf, NegInf, NaN}"
proof -
  have "\<not> number_text []" "\<not> number_text ''-''" by (simp_all add: number_text_def unsigned_number_def)
  then show ?thesis using that
    by (cases n) (auto simp: read_number_def number_char_def is_digit_def quote_def)
qed

lemma member_not_a_number:
  assumes "plain_text k" "v \<in> {PosInf, NegInf, NaN}"
  shows "read_members n (json_key k @ fixed_text 6 v @ r) = None"
proof (cases n)
  case (Suc m)
  have "skip_ws (fixed_text 6 v @ r) = fixed_text 6 v @ r"
    using assms(2) by (auto intro!: skip_solid simp: is_ws_def)
  then show ?thesis using assms not_a_number [OF assms(2), of m r]
    by (simp add: Suc json_key_append skip_solid expect_def read_string_plain del: fixed_text.simps)
qed simp

lemma not_finite_message:
  assumes "plain_text type" "unescape token = Some t" "token \<noteq> []" "plain_text k" "v \<in> {PosInf, NegInf, NaN}"
  shows "read_json (BuildControlMessage token type (CHR 0x7B # (json_key k @ fixed_text 6 v) @ ''}'') @ w) = None"
proof -
  let ?line = "BuildControlMessage token type (CHR 0x7B # (json_key k @ fixed_text 6 v) @ ''}'') @ w"
  let ?members = "json_key ''type'' @ quote # type @ quote # CHR 0x2C # json_key ''auth_token'' @ quote # token @ quote #
    CHR 0x2C # json_key k @ fixed_text 6 v @ ''}'' @ w"
  have line: "?line = CHR 0x7B # ?members"
    using assms(3) strip_braces_object [of "json_key k @ fixed_text 6 v"]
    by (simp add: BuildControlMessage_def json_key_def Let_def del: fixed_text.simps)
  then obtain n where n: "length ?line = Suc (Suc (Suc (Suc n)))" by (simp add: json_key_def)
  have none: "read_members (Suc (Suc (Suc n))) ?members = None"
    using assms member_not_a_number [OF assms(4,5), of "Suc n" "''}'' @ w"]
    by (simp add: read_member_string unescape_plain del: read_members.simps fixed_text.simps)
  have "skip_ws (CHR 0x7B # ?members) = CHR 0x7B # ?members" by (simp add: skip_solid)
  then have "read_value (length ?line) (skip_ws ?line) = None"
    unfolding n unfolding line using none by (simp del: read_members.simps fixed_text.simps)
  then show ?thesis by (simp only: read_json_def option.case)
qed

subsection \<open>The end of the pairing\<close>

definition start_stream_value :: "(string \<times> json) list" where
  "start_stream_value = [(''video'', JObject [(''width'', JNumber ''1280''), (''height'', JNumber ''720''),
     (''fps'', JNumber ''30''), (''bitrate'', JNumber ''2500000'')])]"

lemma start_stream_reads: "\<exists>s. start_stream_payload = CHR 0x7B # s @ ''}'' \<and> reads_members s start_stream_value"
proof (intro exI conjI)
  let ?inner = "json_key ''width'' @ ''1280'' @ CHR 0x2C # json_key ''height'' @ ''720'' @ CHR 0x2C #
    json_key ''fps'' @ ''30'' @ CHR 0x2C # json_key ''bitrate'' @ ''2500000''"
  show "start_stream_payload = CHR 0x7B # (json_key ''video'' @ CHR 0x7B # ?inner @ ''}'') @ ''}''"
    by (simp add: start_stream_payload_def json_key_def)
  have "number_text ''1280''" "number_text ''720''" "number_text ''30''" "number_text ''2500000''"
    by (simp_all add: number_text_def unsigned_number_def is_digit_def)
  then have "reads_members ?inner [(''width'', JNumber ''1280''), (''height'', JNumber ''720''),
     (''fps'', JNumber ''30''), (''bitrate'', JNumber ''2500000'')]"
    by (intro more_reads solo_reads reads_number) simp_all
  then show "reads_members (json_key ''video'' @ CHR 0x7B # ?inner @ ''}'') start_stream_value"
    unfolding start_stream_value_def by (intro solo_reads reads_object) simp_all
qed

subsection \<open>Properties\<close>

text \<open>The camera commands reach the phone as JSON: on a streaming service with a token, every
  command sends exactly one line, and a JSON reader takes this line as one object with the type of the
  command, the token that the stored text of the token stands for, escapes undone, and the arguments the
  caller gave, each with the type it has in the caller; the numbers have no leading zero and a decimal point only where a fraction follows.\<close>

theorem camera_commands_are_json:
  assumes "can_command s" "unescape (sv_token s) = Some t" "sv_token s \<noteq> []" "finite_command c"
  shows "\<exists>line. camera_send c s = [ToPhone line] \<and>
    read_json line = Some (message_value (fst (camera_value c)) t (snd (camera_value c)))"
  using assms by (rule camera_line_reads)

definition paired_example :: Service where
  "paired_example = Service_new\<lparr>sv_tcpClient := True, sv_connected := True, sv_isStreaming := True, sv_token := ''abc''\<rparr>"

theorem camera_commands_are_json_witness:
  "\<exists>line. camera_send (Focus False (Finite (3 / 2))) paired_example = [ToPhone line] \<and>
    read_json line = Some (message_value ''setFocus'' ''abc''
      [(''autoFocus'', JBool False), (''distance'', JNumber (fixed_text 6 (Finite (3 / 2))))])"
proof -
  have "can_command paired_example" "unescape (sv_token paired_example) = Some ''abc''" "sv_token paired_example = ''abc''"
    by (simp_all add: paired_example_def can_command_def Service_new_def plain_char_def quote_def backslash_def)
  then show ?thesis
    using camera_commands_are_json [of paired_example "''abc''" "Focus False (Finite (3 / 2))"]
    by (simp del: fixed_text.simps camera_send.simps)
qed

text \<open>What the commands do not check: a zoom factor that is infinite or not a number, which the C
  interface accepts, is sent as a line that no JSON reader takes, so the phone drops the command.\<close>

theorem not_finite_zoom_is_no_json:
  assumes "can_command s" "unescape (sv_token s) = Some t" "sv_token s \<noteq> []" "z \<in> {PosInf, NegInf, NaN}"
  shows "\<exists>line. camera_send (Zoom z) s = [ToPhone line] \<and> read_json line = None"
  using camera_send_payload [OF assms(1), of "Zoom z"] not_finite_message [OF _ assms(2,3) _ assms(4), of "''setZoom''" "''zoom''"]
  by simp

theorem not_finite_zoom_is_no_json_witness:
  "\<exists>line. camera_send (Zoom NaN) paired_example = [ToPhone line] \<and> read_json line = None"
  by (rule not_finite_zoom_is_no_json)
    (simp_all add: paired_example_def can_command_def Service_new_def plain_char_def quote_def backslash_def)

text \<open>The end of the pairing: a connected service that is told a token sends exactly two lines, and
  a JSON reader takes them as the request for the stream, with its nested video format, and the greeting,
  both with that token.\<close>

theorem pairing_result_messages_are_json:
  assumes "sv_tcpClient s" "sv_connected s" "\<not> sv_statusCallback s" "unescape token = Some t" "token \<noteq> []"
  shows "\<exists>l1 l2. fst (HandlePairingResult token [] s) = [ToPhone l1, ToPhone l2] \<and>
    read_json l1 = Some (message_value ''startStream'' t start_stream_value) \<and>
    read_json l2 = Some (message_value ''hello'' t [])"
proof -
  have "reads (BuildControlMessage token ''startStream'' start_stream_payload) (message_value ''startStream'' t start_stream_value)"
    using start_stream_reads assms(4,5) by (intro message_reads) simp_all
  moreover have "reads (BuildControlMessage token ''hello'' []) (message_value ''hello'' t [])"
    using assms(4,5) by (intro message_reads) simp_all
  ultimately show ?thesis
    using assms(1-3,5) read_json_complete [OF _ newline_blank]
    by (simp add: HandlePairingResult_def Let_def status_def tcp_send_def SendControlMessage_def)
qed

theorem pairing_result_messages_are_json_witness:
  "\<exists>l1 l2. fst (HandlePairingResult ''abc'' [] paired_example) = [ToPhone l1, ToPhone l2] \<and>
    read_json l1 = Some (message_value ''startStream'' ''abc'' start_stream_value) \<and>
    read_json l2 = Some (message_value ''hello'' ''abc'' [])"
  by (rule pairing_result_messages_are_json)
    (simp_all add: paired_example_def Service_new_def plain_char_def quote_def backslash_def)

end
