(* ===== verification/Decimal_Reading.thy ===== *)
theory Decimal_Reading
  imports Number_Text
begin

text \<open>
  How a decimal text that \<open>std::to_string\<close> wrote is read back as a floating point number: the value of
  the text, and how far the value after two roundings, to a \<open>double\<close> and to a \<open>float\<close>, can be from the
  value that was written.
\<close>

subsection \<open>The value of a text\<close>

text \<open>An optional sign, digits, and optionally a point with further digits.\<close>

definition decimal_value :: "string \<Rightarrow> rat" where
  "decimal_value s =
     (let negative = (s \<noteq> [] \<and> hd s = CHR 0x2D); t = (if negative then tl s else s);
          whole = takeWhile is_digit t; fraction = drop (Suc (length whole)) t;
          v = of_int (digits_value (whole @ fraction)) / 10 ^ length fraction
      in if negative then - v else v)"

lemma digits_value_append: "digits_value (a @ b) = digits_value a * 10 ^ length b + digits_value b"
proof (induction b rule: rev_induct)
  case Nil
  then show ?case by (simp add: digits_value_def)
next
  case (snoc c b)
  have "digits_value (a @ b @ [c]) = 10 * digits_value (a @ b) + (int (of_char c) - 48)"
    using digits_value_snoc [of "a @ b" c] by simp
  with snoc digits_value_snoc [of b c] show ?case by (simp add: algebra_simps)
qed

lemma digits_value_pad: "digits_value (pad n s) = digits_value s"
proof -
  have "digits_value (replicate k (CHR 0x30) @ s) = digits_value s" for k
    by (induction k) (simp_all add: digits_value_def)
  then show ?thesis by (simp add: pad_def)
qed

lemma nat_text_short: "m < 10 ^ n \<Longrightarrow> 0 < n \<Longrightarrow> length (nat_text m) \<le> n"
proof (induction n arbitrary: m)
  case 0
  then show ?case by simp
next
  case (Suc n)
  show ?case
  proof (cases "m < 10")
    case True
    then show ?thesis by (simp add: nat_text.simps [of m])
  next
    case False
    then have "m div 10 < 10 ^ n" "0 < n" using Suc.prems by (cases n; simp)+
    from Suc.IH [OF this] False show ?thesis by (simp add: nat_text.simps [of m])
  qed
qed

lemma length_pad: "m < 10 ^ n \<Longrightarrow> 0 < n \<Longrightarrow> length (pad n (nat_text m)) = n"
  using nat_text_short [of m n] by (simp add: pad_def)

lemma decimal_fixed:
  assumes "0 < n"
  shows "decimal_value (fixed_text n (Finite x)) =
    (if x < 0 then - 1 else 1) * (of_int (round_half_even (\<bar>x\<bar> * 10 ^ n)) / 10 ^ n)"
proof -
  define k where "k = nat (round_half_even (\<bar>x\<bar> * 10 ^ n))"
  define a where "a = nat_text (k div 10 ^ n)"
  define b where "b = pad n (nat_text (k mod 10 ^ n))"
  have a: "list_all is_digit a" "a \<noteq> []" "digits_value a = int (k div 10 ^ n)"
    using nat_text_digits [of "k div 10 ^ n"] by (simp_all add: a_def)
  have b: "length b = n" "digits_value b = int (k mod 10 ^ n)"
    using assms length_pad [of "k mod 10 ^ n" n] nat_text_digits [of "k mod 10 ^ n"]
    by (simp_all add: b_def digits_value_pad)
  have "takeWhile is_digit (a @ ''.'' @ b) = a"
    using a(1) by (subst takeWhile_append2) (simp_all add: list_all_iff is_digit_def)
  moreover have "hd a \<noteq> CHR 0x2D" using nat_text_scan(3) by (simp add: a_def)
  moreover have "digits_value (a @ b) = int k"
    by (simp only: digits_value_append a(3) b of_nat_mult [symmetric] of_nat_add [symmetric]
      of_nat_power [symmetric] of_nat_numeral [symmetric, where 'a = int] div_mult_mod_eq)
  ultimately have "decimal_value ((if x < 0 then ''-'' else []) @ a @ ''.'' @ b) = (if x < 0 then - 1 else 1) * (of_int (int k) / 10 ^ n)"
    using a(2) b(1) by (auto simp: decimal_value_def Let_def)
  moreover have "int k = round_half_even (\<bar>x\<bar> * 10 ^ n)" by (simp add: k_def round_half_even_nonneg)
  ultimately show ?thesis using assms by (simp add: Let_def k_def [symmetric] a_def [symmetric] b_def [symmetric])
qed

subsection \<open>Rounding errors\<close>

lemma round_half_even_error: "\<bar>of_int (round_half_even x) - x\<bar> \<le> (1 / 2 :: rat)"
proof -
  have "of_int \<lfloor>x\<rfloor> \<le> x" "x < of_int \<lfloor>x\<rfloor> + 1" by linarith+
  then show ?thesis by (auto simp: round_half_even_def Let_def abs_le_iff not_less)
qed

lemma decimal_error: "\<bar>decimal_value (fixed_text 6 (Finite x)) - x\<bar> \<le> 1 / 2000000"
proof -
  define v where "v = (of_int (round_half_even (\<bar>x\<bar> * 10 ^ 6)) / 10 ^ 6 :: rat)"
  have "\<bar>of_int (round_half_even (\<bar>x\<bar> * 10 ^ 6)) - \<bar>x\<bar> * 10 ^ 6\<bar> \<le> 1 / 2" by (rule round_half_even_error)
  then have "\<bar>v - \<bar>x\<bar>\<bar> \<le> 1 / 2000000" by (simp add: v_def abs_le_iff field_simps)
  moreover have "decimal_value (fixed_text 6 (Finite x)) = (if x < 0 then - v else v)"
    by (simp add: decimal_fixed v_def del: fixed_text.simps)
  ultimately show ?thesis by (auto simp: abs_if split: if_splits)
qed

lemma rounded_near: "\<bar>rounded F x - x\<bar> \<le> ulp F x / 2"
proof (cases "x = 0")
  case False
  have "\<bar>of_int (round_half_even (x / ulp F x)) - x / ulp F x\<bar> * ulp F x \<le> 1 / 2 * ulp F x"
    using round_half_even_error ulp_pos [of F x] by (intro mult_right_mono) auto
  moreover have "\<bar>of_int (round_half_even (x / ulp F x)) - x / ulp F x\<bar> * ulp F x =
      \<bar>(of_int (round_half_even (x / ulp F x)) - x / ulp F x) * ulp F x\<bar>"
    using ulp_pos [of F x] by (simp add: abs_mult)
  moreover have "(of_int (round_half_even (x / ulp F x)) - x / ulp F x) * ulp F x = rounded F x - x"
    using False ulp_pos [of F x] by (simp add: rounded_def algebra_simps)
  ultimately show ?thesis by simp
qed (use ulp_pos [of F x] in \<open>simp add: rounded_def\<close>)

lemma rounded_error:
  assumes "0 < x" "x < 2 powi e" "emin F < e"
  shows "\<bar>rounded F x - x\<bar> \<le> 2 powi (e - int (precision F)) / 2"
proof -
  have "2 powi ilog2 x < (2 :: rat) powi e" using ilog2_lower [OF assms(1)] assms(2) by linarith
  then have "ilog2 x < e" by (rule powi_less)
  then have "ulp F x \<le> 2 powi (e - int (precision F))"
    using assms(1,3) by (auto simp: ulp_def intro!: power_int_increasing)
  with rounded_near [of F x] show ?thesis by linarith
qed

lemma rounded_not_halved:
  assumes "1 \<le> x" "emin F \<le> 0" "4 < precision F"
  shows "x * 15 / 16 \<le> rounded F x"
proof -
  have l: "2 powi ilog2 x \<le> x" "x < 2 powi (ilog2 x + 1)" using assms(1) ilog2_lower ilog2_upper by simp_all
  have "(2 :: rat) powi 0 < 2 powi (ilog2 x + 1)" using l(2) assms(1) by simp
  then have "0 \<le> ilog2 x" using powi_less by fastforce
  then have "ulp F x = 2 powi (ilog2 x - (int (precision F) - 1))" using assms by (simp add: ulp_def max_def)
  also have "\<dots> \<le> 2 powi (ilog2 x - 4)" using assms(3) by (intro power_int_increasing) simp_all
  also have "\<dots> = 2 powi ilog2 x / 16" by (simp add: power_int_diff)
  finally have "ulp F x \<le> x / 16" using l(1) by simp
  moreover have "x - ulp F x / 2 \<le> rounded F x" using rounded_near [of F x] by linarith
  ultimately show ?thesis using assms(1) by linarith
qed

lemma rounded_nonpos: "x \<le> 0 \<Longrightarrow> rounded F x \<le> 0"
proof -
  assume "x \<le> 0"
  then have "round_half_even (x / ulp F x) \<le> 0"
    using ulp_pos [of F x] by (intro round_half_even_le) (simp add: divide_le_0_iff)
  then show ?thesis using ulp_pos [of F x] by (simp add: rounded_def mult_le_0_iff)
qed

subsection \<open>Written, read and limited to a range\<close>

text \<open>\<open>coerceIn\<close> of Kotlin on \<open>Float\<close>, for a range that is not empty.\<close>

definition coerceIn :: "flt \<Rightarrow> flt \<Rightarrow> flt \<Rightarrow> flt" where
  "coerceIn v lo hi = (if f_less v lo then lo else if f_less hi v then hi else v)"

definition limit :: "rat \<Rightarrow> rat \<Rightarrow> rat \<Rightarrow> rat" where
  "limit lo hi x = max lo (min hi x)"

text \<open>A text read as a \<open>double\<close>, which is then converted to a \<open>float\<close>.\<close>

definition read_float :: "string \<Rightarrow> flt" where
  "read_float s = f_narrow binary32 (mk_flt binary64 (decimal_value s))"

lemma powi_positive: "0 < (2 :: rat) powi k"
  by simp

lemma mk_flt_nonpos: "x \<le> 0 \<Longrightarrow> mk_flt F x = NegInf \<or> (\<exists>y \<le> 0. mk_flt F x = Finite y)"
proof -
  assume "x \<le> 0"
  then have r: "rounded F x \<le> 0" by (rule rounded_nonpos)
  then have "\<not> 2 powi (emax F + 1) \<le> rounded F x" using powi_positive [of "emax F + 1"] by linarith
  with r show ?thesis by (simp add: mk_flt_def Let_def)
qed

lemma mk_flt_large:
  assumes "1 \<le> x" "F = binary32 \<or> F = binary64"
  shows "mk_flt F x = PosInf \<or> (\<exists>y \<ge> x * 15 / 16. mk_flt F x = Finite y)"
proof -
  have "emin F \<le> 0" "4 < precision F" using assms(2) by (auto simp: binary32_def binary64_def)
  from rounded_not_halved [OF assms(1) this] have "x * 15 / 16 \<le> rounded F x" .
  moreover from this have "\<not> rounded F x \<le> - (2 powi (emax F + 1))"
    using powi_positive [of "emax F + 1"] assms(1) by linarith
  ultimately show ?thesis by (simp add: mk_flt_def Let_def)
qed

lemma read_nonpos:
  assumes "q \<le> 0"
  shows "f_narrow binary32 (mk_flt binary64 q) = NegInf \<or> (\<exists>y \<le> 0. f_narrow binary32 (mk_flt binary64 q) = Finite y)"
proof -
  consider "mk_flt binary64 q = NegInf" | y where "mk_flt binary64 q = Finite y" "y \<le> 0"
    using mk_flt_nonpos [OF assms, of binary64] by blast
  then show ?thesis using mk_flt_nonpos [of _ binary32] by cases (simp, metis f_narrow.simps(1))
qed

lemma read_large:
  assumes "15 \<le> q"
  shows "f_narrow binary32 (mk_flt binary64 q) = PosInf \<or> (\<exists>y \<ge> 13. f_narrow binary32 (mk_flt binary64 q) = Finite y)"
proof -
  consider "mk_flt binary64 q = PosInf" | y where "mk_flt binary64 q = Finite y" "14 \<le> y"
    using mk_flt_large [of q binary64] assms by force
  then show ?thesis
  proof cases
    case 2
    then have "mk_flt binary32 y = PosInf \<or> (\<exists>z \<ge> 13. mk_flt binary32 y = Finite z)"
      using mk_flt_large [of y binary32] by (auto dest: order.trans [rotated])
    with 2(1) show ?thesis by simp
  qed simp
qed

lemma mk_flt_finite:
  assumes "- 1 < rounded F x" "rounded F x < 17" "F = binary32 \<or> F = binary64"
  shows "mk_flt F x = Finite (rounded F x)"
proof -
  have "(2 :: rat) powi 5 \<le> 2 powi (emax F + 1)"
    using assms(3) by (intro power_int_increasing) (auto simp: binary32_def binary64_def)
  moreover have "(2 :: rat) powi 5 = 32" by (simp add: power_int_def)
  ultimately have "\<not> 2 powi (emax F + 1) \<le> rounded F x" "\<not> rounded F x \<le> - (2 powi (emax F + 1))"
    using assms(1,2) by linarith+
  then show ?thesis by (simp add: mk_flt_def Let_def)
qed

lemma read_middle:
  assumes "0 < q" "q < 15"
  obtains y where "f_narrow binary32 (mk_flt binary64 q) = Finite y" "\<bar>y - q\<bar> \<le> 1 / 2 ^ 50 + 1 / 2 ^ 21"
proof -
  define y where "y = rounded binary64 q"
  have p: "(2 :: rat) powi 4 = 16" "(2 :: rat) powi (4 - 53) = 1 / 2 ^ 49" "(2 :: rat) powi (4 - 24) = 1 / 2 ^ 20"
    by (simp_all add: power_int_def power_divide)
  have e: "\<bar>y - q\<bar> \<le> 1 / 2 ^ 50"
    using rounded_error [of q 4 binary64] assms p by (simp add: y_def binary64_def)
  have "y \<le> q + 1 / 2 ^ 50" using e by (simp only: abs_le_iff) linarith
  then have y: "0 \<le> y" "y < 16" using assms rounded_nonneg [of q binary64] by (simp_all add: y_def)
  have f: "\<bar>rounded binary32 y - y\<bar> \<le> 1 / 2 ^ 21"
    using rounded_error [of y 4 binary32] y p by (cases "y = 0") (simp_all add: binary32_def rounded_def)
  have "mk_flt binary64 q = Finite y" using mk_flt_finite [of binary64 q] y by (simp add: y_def)
  moreover have "mk_flt binary32 y = Finite (rounded binary32 y)"
  proof (rule mk_flt_finite)
    have "\<bar>rounded binary32 y - y\<bar> \<le> 1 / 2" using f by (rule order.trans) simp
    then show "- 1 < rounded binary32 y" "rounded binary32 y < 17" using y by (simp_all only: abs_le_iff) linarith+
  qed simp
  moreover have "\<bar>rounded binary32 y - q\<bar> \<le> 1 / 2 ^ 50 + 1 / 2 ^ 21" using e f by linarith
  ultimately show ?thesis using that by simp
qed

text \<open>Within a range between 0 and 10 the two limited values differ by at most a millionth.\<close>

lemma limit_near: "lo \<le> hi \<Longrightarrow> \<bar>limit lo hi w - limit lo hi x\<bar> \<le> \<bar>w - x\<bar>"
  by (cases "w \<le> x") (auto simp: limit_def max_def min_def)

lemma limit_ends: "x \<le> lo \<Longrightarrow> lo \<le> hi \<Longrightarrow> limit lo hi x = lo" "hi \<le> x \<Longrightarrow> lo \<le> hi \<Longrightarrow> limit lo hi x = hi"
  by (simp_all add: limit_def)

lemma coerceIn_limit: "lo \<le> hi \<Longrightarrow> coerceIn (Finite w) (Finite lo) (Finite hi) = Finite (limit lo hi w)"
  by (simp add: coerceIn_def limit_def)

lemma limited_reading:
  assumes "0 \<le> lo" "lo \<le> hi" "hi \<le> 10"
  shows "\<exists>y. coerceIn (read_float (fixed_text 6 (Finite x))) (Finite lo) (Finite hi) = Finite y \<and>
    \<bar>y - limit lo hi x\<bar> \<le> 1 / 1000000"
proof -
  define q where "q = decimal_value (fixed_text 6 (Finite x))"
  define v where "v = read_float (fixed_text 6 (Finite x))"
  have q: "\<bar>q - x\<bar> \<le> 1 / 2000000" unfolding q_def by (rule decimal_error)
  have v: "v = f_narrow binary32 (mk_flt binary64 q)" by (simp only: v_def q_def read_float_def)
  have near: "\<exists>y. coerceIn v (Finite lo) (Finite hi) = Finite y \<and> \<bar>y - limit lo hi x\<bar> \<le> 1 / 1000000"
    if "coerceIn v (Finite lo) (Finite hi) = Finite (limit lo hi w)" "\<bar>w - x\<bar> \<le> 1 / 1000000" for w
    using that limit_near [OF assms(2), of w x] by auto
  consider "q \<le> 0" | "0 < q" "q < 15" | "15 \<le> q" by linarith
  then have "\<exists>y. coerceIn v (Finite lo) (Finite hi) = Finite y \<and> \<bar>y - limit lo hi x\<bar> \<le> 1 / 1000000"
  proof cases
    case 1
    have "coerceIn v (Finite lo) (Finite hi) = Finite (limit lo hi q)"
      using read_nonpos [OF 1] 1 assms by (auto simp: v coerceIn_limit limit_ends) (simp add: coerceIn_def)
    with q near show ?thesis by force
  next
    case 2
    then obtain w where w: "v = Finite w" "\<bar>w - q\<bar> \<le> 1 / 2 ^ 50 + 1 / 2 ^ 21" unfolding v by (rule read_middle)
    have "\<bar>w - x\<bar> \<le> \<bar>w - q\<bar> + \<bar>q - x\<bar>" by linarith
    also have "\<dots> \<le> 1 / 1000000" using w(2) q by simp
    finally show ?thesis using near [of w] assms w(1) by (simp add: coerceIn_limit)
  next
    case 3
    have "coerceIn v (Finite lo) (Finite hi) = Finite (limit lo hi q)"
      using read_large [OF 3] 3 assms by (auto simp: v coerceIn_limit limit_ends) (simp add: coerceIn_def)
    with q near show ?thesis by force
  qed
  then show ?thesis by (simp only: v_def)
qed

lemma decimal_int: "decimal_value (int_text i) = of_int i"
proof -
  have d: "takeWhile is_digit (nat_text n) = nat_text n" "hd (nat_text n) \<noteq> CHR 0x2D" "digits_value (nat_text n) = int n"
    "nat_text n \<noteq> []" for n
    using nat_text_scan [of n] nat_text_digits [of n] by simp_all
  have "decimal_value (nat_text n) = of_nat n" "decimal_value (''-'' @ nat_text n) = - of_nat n" for n
    by (simp_all add: decimal_value_def d Let_def)
  then show ?thesis by (simp add: int_text_def)
qed

end
