(* ===== verification/Phone_Control.thy ===== *)
theory Phone_Control
  imports Phone_Pairing Pairing Service_Messages Decimal_Reading
begin

text \<open>
  The control connection on the phone:
  \<open>handleConnection\<close> of
  \<open>apps/veyracam/android/app/src/main/kotlin/com/veyra/cam/transport/UdpTransport.kt\<close> with the
  callbacks that \<open>VeyraStreamingService.kt\<close> gives it, over the \<open>PairingManager\<close> and the native sender.
  One client is served at a time. The JSON library of Android is a parameter. The strings given to the
  native functions exist, and reading their text is taken not to fail.
\<close>

subsection \<open>The JSON library\<close>

text \<open>
  \<open>json_parse\<close> is the constructor \<open>JSONObject(String)\<close>, \<open>None\<close> when it throws; \<open>json_text\<close> is what
  \<open>toString\<close> writes between the quotes of a string; \<open>json_coerce\<close> is how \<open>optString\<close> turns a value that is
  no string into one; the last three are the conversions of \<open>optInt\<close>, \<open>optDouble\<close> and \<open>optBoolean\<close>, \<open>None\<close>
  where these fall back.
\<close>

record android =
  json_parse :: "string \<Rightarrow> json option"
  json_text :: "string \<Rightarrow> string"
  json_coerce :: "json \<Rightarrow> string"
  json_integer :: "json \<Rightarrow> int option"
  json_double :: "json \<Rightarrow> flt option"
  json_boolean :: "json \<Rightarrow> bool option"

definition optString :: "android \<Rightarrow> json \<Rightarrow> string \<Rightarrow> string" where
  "optString A json name = (case json of
      JObject fs \<Rightarrow> (case map_of fs name of
          None \<Rightarrow> []
        | Some (JString s) \<Rightarrow> s
        | Some v \<Rightarrow> json_coerce A v)
    | _ \<Rightarrow> [])"

subsection \<open>State and events\<close>

record Phone =
  ph_pairing :: PairingManager
  ph_sender :: "NativeSender option"
  ph_sessionId :: u32
  ph_clientIp :: "string option"

datatype ph_event =
    PinRequired string
  | SendLine string
  | Authenticated string
  | PairingFailed string
  | Command nat json
  | ClientDisconnected

definition UDP_MEDIA_PORT :: int where "UDP_MEDIA_PORT = 5151"
definition MAX_LINE_LENGTH :: int where "MAX_LINE_LENGTH = 65536"

definition sendControlMessage :: "string \<Rightarrow> ph_event" where
  "sendControlMessage json = SendLine (json @ [newline])"

definition pairing_error :: "string \<Rightarrow> ph_event" where
  "pairing_error reason = sendControlMessage (object_text [(''type'', ''pairing_error''), (''reason'', reason)])"

text \<open>Putting a null token puts nothing.\<close>

definition pairing_ok :: "android \<Rightarrow> string option \<Rightarrow> ph_event" where
  "pairing_ok A token = sendControlMessage (object_text ((''type'', ''pairing_ok'') #
     (case token of None \<Rightarrow> [] | Some t \<Rightarrow> [(''token'', json_text A t)])))"

definition opCode :: "string \<Rightarrow> nat" where
  "opCode type = (case map_of [(''hello'', 1), (''capabilities'', 2), (''startStream'', 3), (''stopStream'', 4),
      (''setZoom'', 5), (''setExposure'', 6), (''setFocus'', 7), (''requestIdr'', 8), (''setBitrate'', 9),
      (''ping'', 11)] type of Some c \<Rightarrow> c | None \<Rightarrow> 0)"

subsection \<open>A connection\<close>

text \<open>A new client: \<open>False\<close> is the end of the connection.\<close>

definition open_connection ::
  "('ctx, 'mpi, 'point) mbedtls \<Rightarrow> android \<Rightarrow> string \<Rightarrow> int \<Rightarrow> (nat \<Rightarrow> nat) \<Rightarrow> bytes \<Rightarrow> Phone \<Rightarrow>
     ph_event list \<times> bool \<times> Phone" where
  "open_connection P A clientIp now draw entropy ph =
     (case startPairing clientIp now draw (ph_pairing ph) of
        (None, m) \<Rightarrow> ([pairing_error ''locked''], False, ph\<lparr>ph_pairing := m\<rparr>)
      | (Some pin, m) \<Rightarrow>
          let (key, h) = nativeBeginPairing P entropy (ph_sender ph)
          in ([PinRequired pin, sendControlMessage (challenge_text (json_text A key) (ph_sessionId ph))], True,
              ph\<lparr>ph_pairing := m, ph_sender := h\<rparr>))"

text \<open>\<open>onAuthenticated\<close>: the client's address becomes the destination; \<open>fd\<close> is the new socket.\<close>

definition onAuthenticated :: "int \<Rightarrow> (string \<Rightarrow> u32 option) \<Rightarrow> string \<Rightarrow> Phone \<Rightarrow> Phone" where
  "onAuthenticated fd inet clientIp ph = ph\<lparr>ph_clientIp := Some clientIp,
     ph_sender := snd (configure_with_text fd inet clientIp UDP_MEDIA_PORT (ph_sender ph))\<rparr>"

text \<open>What happens outside while a line is handled: the clock, the encoded random token, the socket.\<close>

record moment =
  mt_now :: int
  mt_now' :: int
  mt_token :: string
  mt_fd :: int

definition handle_response ::
  "('ctx, 'mpi, 'point) mbedtls \<Rightarrow> android \<Rightarrow> (string \<Rightarrow> u32 option) \<Rightarrow> string \<Rightarrow> moment \<Rightarrow> json \<Rightarrow> Phone \<Rightarrow>
     ph_event list \<times> bool \<times> bool \<times> Phone" where
  "handle_response P A inet clientIp t json ph =
     (let pinAttempt = optString A json ''pin''; clientPubKey = optString A json ''client_pubkey'';
          (r, m) = verifyPin pinAttempt (mt_now t) (mt_now' t) (mt_token t) (ph_pairing ph);
          ph = ph\<lparr>ph_pairing := m\<rparr>
      in case r of
           PR_OK \<Rightarrow>
             if clientPubKey \<noteq> [] then
               let (completed, h) = complete_with_text P clientPubKey (ph_sender ph); ph = ph\<lparr>ph_sender := h\<rparr>
               in if completed
                  then ([pairing_ok A (pm_authToken m), Authenticated clientIp], True, True,
                        onAuthenticated (mt_fd t) inet clientIp ph)
                  else ([PairingFailed ''key_derivation_failed'', pairing_error ''invalid_key''], True, False, ph)
             else ([pairing_error ''invalid_key''], True, False, ph)
         | INVALID_PIN \<Rightarrow> ([pairing_error ''invalid_pin''], True, False, ph)
         | PR_LOCKED \<Rightarrow> ([pairing_error ''locked''], False, False, ph)
         | NOT_AWAITING \<Rightarrow> ([], True, False, ph))"

text \<open>One line: the events, whether the connection goes on, and \<open>authenticated\<close>.\<close>

definition handle_line ::
  "('ctx, 'mpi, 'point) mbedtls \<Rightarrow> android \<Rightarrow> (string \<Rightarrow> u32 option) \<Rightarrow> string \<Rightarrow> moment \<Rightarrow> string \<Rightarrow> bool \<Rightarrow> Phone \<Rightarrow>
     ph_event list \<times> bool \<times> bool \<times> Phone" where
  "handle_line P A inet clientIp t line authenticated ph =
     (if MAX_LINE_LENGTH < int (length line) then ([], True, authenticated, ph)
      else case json_parse A line of
          None \<Rightarrow> ([], True, authenticated, ph)
        | Some json \<Rightarrow>
            let type = optString A json ''type'' in
            if type = ''pairing_response'' then
              if authenticated then ([], True, authenticated, ph) else handle_response P A inet clientIp t json ph
            else if \<not> authenticated then ([], True, authenticated, ph)
            else if \<not> isTokenValid (optString A json ''auth_token'') (ph_pairing ph) then ([], True, authenticated, ph)
            else ([Command (opCode type) json], True, authenticated, ph))"

fun serve_lines ::
  "('ctx, 'mpi, 'point) mbedtls \<Rightarrow> android \<Rightarrow> (string \<Rightarrow> u32 option) \<Rightarrow> string \<Rightarrow> (moment \<times> string) list \<Rightarrow> bool \<Rightarrow> Phone \<Rightarrow>
     ph_event list \<times> Phone" where
  "serve_lines P A inet clientIp [] authenticated ph = ([], ph)"
| "serve_lines P A inet clientIp ((t, line) # ls) authenticated ph =
     (let (es, go, authenticated, ph) = handle_line P A inet clientIp t line authenticated ph
      in if go then let (es', ph) = serve_lines P A inet clientIp ls authenticated ph in (es @ es', ph)
         else (es, ph))"

text \<open>The end of a connection, with \<open>onClientDisconnected\<close>.\<close>

definition close_connection :: "Phone \<Rightarrow> Phone" where
  "close_connection ph = ph\<lparr>ph_pairing := pm_reset (ph_pairing ph), ph_clientIp := None\<rparr>"

definition handleConnection ::
  "('ctx, 'mpi, 'point) mbedtls \<Rightarrow> android \<Rightarrow> (string \<Rightarrow> u32 option) \<Rightarrow> string \<Rightarrow> int \<Rightarrow> (nat \<Rightarrow> nat) \<Rightarrow> bytes \<Rightarrow>
     (moment \<times> string) list \<Rightarrow> Phone \<Rightarrow> ph_event list \<times> Phone" where
  "handleConnection P A inet clientIp now draw entropy ls ph =
     (let (es, go, ph) = open_connection P A clientIp now draw entropy ph
      in if \<not> go then (es, ph)
         else let (es', ph) = serve_lines P A inet clientIp ls False ph
              in (es @ es' @ [ClientDisconnected], close_connection ph))"

subsection \<open>What a client can cause\<close>

text \<open>A line that answers the challenge with the PIN \<open>pin\<close>.\<close>

definition answers :: "android \<Rightarrow> (string \<Rightarrow> bool) \<Rightarrow> string \<Rightarrow> bool" where
  "answers A good line \<longleftrightarrow> int (length line) \<le> MAX_LINE_LENGTH \<and>
     (case json_parse A line of None \<Rightarrow> False
      | Some json \<Rightarrow> optString A json ''type'' = ''pairing_response'' \<and> good (us_ascii (optString A json ''pin'')))"

lemma verifyPin_pin [simp]: "pm_currentPin (snd (verifyPin input now now' token m)) = pm_currentPin m"
  by (auto simp: verifyPin_def Let_def split: option.splits)

lemma verifyPin_ok:
  assumes "verifyPin input now now' token m = (PR_OK, m')"
  shows "\<exists>pin. pm_currentPin m = Some pin \<and> us_ascii input = us_ascii pin" and "pm_authToken m' = Some token"
  using assms by (auto simp: verifyPin_def Let_def split: option.splits if_splits)

lemma onAuthenticated_pairing [simp]: "ph_pairing (onAuthenticated fd inet who ph) = ph_pairing ph"
  by (simp add: onAuthenticated_def)

lemmas event_defs = pairing_ok_def pairing_error_def sendControlMessage_def

lemma handle_response_facts:
  assumes h: "handle_response P A inet who t json ph = (es, go, auth', ph')" and pin: "pm_currentPin (ph_pairing ph) = Some pin"
  shows "pm_currentPin (ph_pairing ph') = Some pin" and "Command n j \<notin> set es"
    and "auth' \<Longrightarrow> us_ascii (optString A json ''pin'') = us_ascii pin \<and> pm_authToken (ph_pairing ph') = Some (mt_token t) \<and>
      pairing_ok A (Some (mt_token t)) \<in> set es"
proof -
  obtain r m where v: "verifyPin (optString A json ''pin'') (mt_now t) (mt_now' t) (mt_token t) (ph_pairing ph) = (r, m)"
    by fastforce
  then have m: "pm_currentPin m = Some pin" using pin verifyPin_pin [of "optString A json ''pin''" "mt_now t" "mt_now' t" "mt_token t" "ph_pairing ph"]
    by simp
  show "pm_currentPin (ph_pairing ph') = Some pin" "Command n j \<notin> set es"
    using h m by (auto simp: handle_response_def v Let_def event_defs split: PairingResult.splits if_splits prod.splits)
  assume "auth'"
  with h have "r = PR_OK" by (auto simp: handle_response_def v Let_def split: PairingResult.splits if_splits prod.splits)
  with verifyPin_ok [OF v [unfolded this]] pin h \<open>auth'\<close>
  show "us_ascii (optString A json ''pin'') = us_ascii pin \<and> pm_authToken (ph_pairing ph') = Some (mt_token t) \<and>
      pairing_ok A (Some (mt_token t)) \<in> set es"
    by (auto simp: handle_response_def v Let_def split: if_splits prod.splits)
qed

lemma handle_line_cases:
  assumes h: "handle_line P A inet who t line auth ph = (es, go, auth', ph')"
  obtains (ignored) "es = []" "auth' = auth" "ph' = ph"
  | (response) json where "\<not> auth" "json_parse A line = Some json" "optString A json ''type'' = ''pairing_response''"
      "int (length line) \<le> MAX_LINE_LENGTH" "handle_response P A inet who t json ph = (es, go, auth', ph')"
  | (command) json where "auth" "es = [Command (opCode (optString A json ''type'')) json]" "auth'" "ph' = ph"
      "isTokenValid (optString A json ''auth_token'') (ph_pairing ph)"
  using h by (auto simp: handle_line_def Let_def split: if_splits option.splits)

lemma serve_lines_commands:
  assumes "serve_lines P A inet who ls auth ph = (es, ph')" and "Command n j \<in> set es"
    and "pm_currentPin (ph_pairing ph) = Some pin"
  shows "n = opCode (optString A j ''type'') \<and>
    (\<exists>token. us_ascii (optString A j ''auth_token'') = us_ascii token \<and>
      (auth \<and> pm_authToken (ph_pairing ph) = Some token \<or>
       pairing_ok A (Some token) \<in> set es \<and> (\<exists>l \<in> snd ` set ls. answers A (\<lambda>a. a = us_ascii pin) l)))"
  using assms
proof (induction ls arbitrary: auth ph es ph')
  case Nil
  then show ?case by simp
next
  case (Cons l ls)
  obtain t line where l: "l = (t, line)" by (cases l)
  obtain es1 go auth1 ph1 where h: "handle_line P A inet who t line auth ph = (es1, go, auth1, ph1)" by (metis prod_cases4)
  obtain es2 ph2 where s: "serve_lines P A inet who ls auth1 ph1 = (es2, ph2)" by fastforce
  have es: "es = es1 @ (if go then es2 else [])" using Cons.prems(1) h s by (auto simp: l split: if_splits)
  note IH = Cons.IH [OF s]
  from h show ?case
  proof (cases rule: handle_line_cases)
    case ignored
    with IH Cons.prems(2,3) es show ?thesis by (auto split: if_splits)
  next
    case (response json)
    note f = handle_response_facts [OF response(5) Cons.prems(3)]
    from f(2) [of n j] Cons.prems(2) es have later: "go" "Command n j \<in> set es2" by (auto split: if_splits)
    from IH [OF later(2) f(1)] obtain token where token: "n = opCode (optString A j ''type'')"
      "us_ascii (optString A j ''auth_token'') = us_ascii token"
      "auth1 \<and> pm_authToken (ph_pairing ph1) = Some token \<or>
       pairing_ok A (Some token) \<in> set es2 \<and> (\<exists>l \<in> snd ` set ls. answers A (\<lambda>a. a = us_ascii pin) l)" by blast
    show ?thesis
    proof (cases "auth1 \<and> pm_authToken (ph_pairing ph1) = Some token")
      case True
      with f(3) response have "answers A (\<lambda>a. a = us_ascii pin) line" "pairing_ok A (Some token) \<in> set es1"
        by (auto simp: answers_def)
      with token es l show ?thesis by auto
    next
      case False
      with token es later l show ?thesis by auto
    qed
  next
    case (command json)
    show ?thesis
    proof (cases "Command n j \<in> set es1")
      case True
      with command show ?thesis by (auto simp: isTokenValid_def split: option.splits)
    next
      case False
      then have later: "go" "Command n j \<in> set es2" using Cons.prems(2) es by (auto split: if_splits)
      from IH [OF later(2)] Cons.prems(3) command es later(1) show ?thesis by auto
    qed
  qed
qed

subsection \<open>Wrong guesses\<close>

text \<open>The sequence of connections that the control thread serves.\<close>

type_synonym client = "string \<times> int \<times> (nat \<Rightarrow> nat) \<times> bytes \<times> (moment \<times> string) list"

fun serve_clients ::
  "('ctx, 'mpi, 'point) mbedtls \<Rightarrow> android \<Rightarrow> (string \<Rightarrow> u32 option) \<Rightarrow> client list \<Rightarrow> Phone \<Rightarrow> ph_event list \<times> Phone" where
  "serve_clients P A inet [] ph = ([], ph)"
| "serve_clients P A inet ((who, now, draw, entropy, ls) # cs) ph =
     (let (es, ph) = handleConnection P A inet who now draw entropy ls ph; (es', ph) = serve_clients P A inet cs ph
      in (es @ es', ph))"

text \<open>A client that only guesses wrong, at most five times.\<close>

definition guesser :: "android \<Rightarrow> client \<Rightarrow> bool" where
  "guesser A c = (case c of (who, now, draw, entropy, ls) \<Rightarrow>
     length ls \<le> 5 \<and> list_all (\<lambda>l. answers A (\<lambda>a. a \<noteq> us_ascii (generatePin draw)) (snd l)) ls)"

lemma wrong_answer:
  assumes "answers A (\<lambda>a. a \<noteq> us_ascii pin) line" and "pm_state (ph_pairing ph) = AWAITING_PIN"
    and "pm_currentPin (ph_pairing ph) = Some pin"
  shows "\<exists>m. handle_line P A inet who t line False ph = ([pairing_error ''invalid_pin''], True, False, ph\<lparr>ph_pairing := m\<rparr>) \<and>
    pm_failedAttempts m = pm_failedAttempts (ph_pairing ph) + 1 \<and> pm_currentPin m = Some pin \<and>
    (pm_failedAttempts m < 5 \<longrightarrow> pm_state m = AWAITING_PIN)"
  using assms by (auto simp: answers_def handle_line_def handle_response_def verifyPin_def pm_constants Let_def split: option.splits)

lemma wrong_answers:
  assumes "list_all (\<lambda>l. answers A (\<lambda>a. a \<noteq> us_ascii pin) (snd l)) ls"
    and "pm_currentPin (ph_pairing ph) = Some pin" and "ls \<noteq> [] \<longrightarrow> pm_state (ph_pairing ph) = AWAITING_PIN"
    and "pm_failedAttempts (ph_pairing ph) + int (length ls) \<le> 5"
  shows "fst (serve_lines P A inet who ls False ph) = replicate (length ls) (pairing_error ''invalid_pin'')"
  using assms
proof (induction ls arbitrary: ph)
  case Nil
  then show ?case by simp
next
  case (Cons l ls)
  obtain t line where l: "l = (t, line)" by (cases l)
  obtain m where m: "handle_line P A inet who t line False ph = ([pairing_error ''invalid_pin''], True, False, ph\<lparr>ph_pairing := m\<rparr>)"
    "pm_failedAttempts m = pm_failedAttempts (ph_pairing ph) + 1" "pm_currentPin m = Some pin"
    "pm_failedAttempts m < 5 \<longrightarrow> pm_state m = AWAITING_PIN"
    using wrong_answer [of A pin line ph P inet who t] Cons.prems l by auto
  have "ls \<noteq> [] \<longrightarrow> pm_state m = AWAITING_PIN" using m Cons.prems(4) by (cases ls) auto
  with Cons.IH [of "ph\<lparr>ph_pairing := m\<rparr>"] Cons.prems m show ?case by (simp add: l split_beta)
qed

lemma errors_differ:
  "sendControlMessage (challenge_text key i) \<noteq> pairing_error r"
  "pairing_error ''locked'' \<noteq> pairing_error ''invalid_pin''"
  "PinRequired p \<noteq> pairing_error r" "ClientDisconnected \<noteq> pairing_error r"
  by (simp_all add: event_defs challenge_text_def object_text_def field_text_def)

lemma guesser_connection:
  assumes "guesser A (who, now, draw, entropy, ls)" and "ph_pairing ph = PairingManager_new"
  shows "\<exists>challenge ph'. handleConnection P A inet who now draw entropy ls ph =
      (PinRequired (generatePin draw) # sendControlMessage (challenge_text challenge (ph_sessionId ph)) #
         replicate (length ls) (pairing_error ''invalid_pin'') @ [ClientDisconnected], ph') \<and>
    ph_pairing ph' = PairingManager_new"
proof -
  obtain key h where b: "nativeBeginPairing P entropy (ph_sender ph) = (key, h)" by fastforce
  let ?m = "snd (startPairing who now draw (ph_pairing ph))"
  let ?ph = "ph\<lparr>ph_pairing := ?m, ph_sender := h\<rparr>"
  have m: "startPairing who now draw (ph_pairing ph) = (Some (generatePin draw), ?m)" "pm_state ?m = AWAITING_PIN"
    "pm_currentPin ?m = Some (generatePin draw)" "pm_failedAttempts ?m = 0"
    using assms(2) by (simp_all add: startPairing_def PairingManager_new_def Let_def)
  have "fst (serve_lines P A inet who ls False ?ph) = replicate (length ls) (pairing_error ''invalid_pin'')"
    using assms(1) m by (intro wrong_answers [where pin = "generatePin draw"]) (simp_all add: guesser_def)
  with m(1) b show ?thesis
    by (auto simp: handleConnection_def open_connection_def close_connection_def Let_def split: prod.splits)
qed

subsection \<open>Properties of one side\<close>

text \<open>A library that reads exactly the grammar of \<open>Json_Syntax\<close>.\<close>

definition demo_text :: "string \<Rightarrow> string" where
  "demo_text s = concat (map (\<lambda>c. if may_escape c then [backslash, c] else [c]) s)"

definition demo_coerce :: "json \<Rightarrow> string" where
  "demo_coerce x = []"

definition demo_integer :: "json \<Rightarrow> int option" where
  "demo_integer x = (case x of JNumber s \<Rightarrow> Some \<lfloor>decimal_value s\<rfloor> | _ \<Rightarrow> None)"

definition demo_double :: "json \<Rightarrow> flt option" where
  "demo_double x = (case x of JNumber s \<Rightarrow> Some (mk_flt binary64 (decimal_value s)) | _ \<Rightarrow> None)"

definition demo_boolean :: "json \<Rightarrow> bool option" where
  "demo_boolean x = (case x of JBool b \<Rightarrow> Some b | _ \<Rightarrow> None)"

definition demo_android :: android where
  "demo_android = \<lparr>json_parse = read_json, json_text = demo_text, json_coerce = demo_coerce, json_integer = demo_integer,
     json_double = demo_double, json_boolean = demo_boolean\<rparr>"

definition idle_phone :: Phone where
  "idle_phone = \<lparr>ph_pairing = PairingManager_new, ph_sender = Some (NativeSender_new 9), ph_sessionId = 9,
     ph_clientIp = None\<rparr>"

definition demo_moment :: moment where
  "demo_moment = \<lparr>mt_now = 1000, mt_now' = 1001, mt_token = ''tok/en'', mt_fd = 5\<rparr>"

definition demo_lines :: "(moment \<times> string) list" where
  "demo_lines = map (Pair demo_moment)
     [BuildControlMessage ''tok/en'' ''requestIdr'' [], pairing_response ''012344'' (replicate 32 (CHR 0x41)),
      pairing_response ''012345'' (replicate 32 (CHR 0x41)), BuildControlMessage ''other'' ''requestIdr'' [],
      BuildControlMessage ''tok/en'' ''requestIdr'' []]"

definition demo_guesser :: client where
  "demo_guesser = (''10.0.0.9'', 1000, \<lambda>i. i, replicate 32 65,
     replicate 5 (demo_moment, pairing_response ''999999'' (replicate 32 (CHR 0x41))))"

text \<open>C7. No command without PIN and token: whatever lines a client sends over a connection, a command
  reaches the phone only after a line of the same connection has answered with the PIN that the phone
  shows for it, and only with the token that the phone sent in reply.\<close>

theorem commands_need_pin_and_token:
  assumes "handleConnection P A inet who now draw entropy ls ph = (es, ph')" and "Command n j \<in> set es"
  shows "n = opCode (optString A j ''type'') \<and> PinRequired (generatePin draw) \<in> set es \<and>
    (\<exists>l \<in> snd ` set ls. answers A (\<lambda>a. a = us_ascii (generatePin draw)) l) \<and>
    (\<exists>token. pairing_ok A (Some token) \<in> set es \<and> us_ascii (optString A j ''auth_token'') = us_ascii token)"
proof -
  obtain es0 go ph0 where o: "open_connection P A who now draw entropy ph = (es0, go, ph0)" by (metis prod_cases3)
  obtain es1 ph1 where s: "serve_lines P A inet who ls False ph0 = (es1, ph1)" by fastforce
  have go: "go" using assms o by (auto simp: handleConnection_def open_connection_def event_defs split: option.splits prod.splits)
  have es0: "PinRequired (generatePin draw) \<in> set es0" "Command n j \<notin> set es0"
    "pm_currentPin (ph_pairing ph0) = Some (generatePin draw)"
    using o go by (auto simp: open_connection_def startPairing_def event_defs Let_def split: if_splits prod.splits)
  have es: "es = es0 @ es1 @ [ClientDisconnected]" using assms(1) o s go by (simp add: handleConnection_def)
  have "Command n j \<in> set es1" using assms(2) es es0(2) by auto
  from serve_lines_commands [OF s this es0(3)] es es0(1) show ?thesis by auto
qed

theorem commands_need_pin_and_token_witness:
  "let es = fst (handleConnection demo_lib demo_android (\<lambda>_. Some 7) ''10.0.0.7'' 1000 (\<lambda>i. i) (replicate 32 65)
       demo_lines idle_phone)
   in Command 8 (message_value ''requestIdr'' ''tok/en'' []) \<in> set es \<and>
      (\<exists>token. pairing_ok demo_android (Some token) \<in> set es \<and> us_ascii ''tok/en'' = us_ascii token)"
proof -
  let ?c = "handleConnection demo_lib demo_android (\<lambda>_. Some 7) ''10.0.0.7'' 1000 (\<lambda>i. i) (replicate 32 65)
       demo_lines idle_phone" and ?j = "message_value ''requestIdr'' ''tok/en'' []"
  have "list_ex (\<lambda>e. e = Command 8 ?j) (fst ?c)" by code_simp
  then have c: "Command 8 ?j \<in> set (fst ?c)" by (auto simp: list_ex_iff)
  have "optString demo_android ?j ''auth_token'' = ''tok/en''" by (simp add: optString_def message_value_def)
  with commands_need_pin_and_token [OF prod.collapse [symmetric] c] c show ?thesis by simp
qed

text \<open>C18. The lockout ends with the connection: any number of clients, one after the other and at
  any times, each get their five wrong guesses compared and never see the lockout, because the end of a
  connection resets the manager.\<close>

theorem reconnecting_undoes_the_lockout:
  assumes "list_all (guesser A) cs" and "ph_pairing ph = PairingManager_new"
  shows "pairing_error ''locked'' \<notin> set (fst (serve_clients P A inet cs ph)) \<and>
    length (List.filter (\<lambda>e. e = pairing_error ''invalid_pin'') (fst (serve_clients P A inet cs ph))) =
      (\<Sum>c\<leftarrow>cs. length (snd (snd (snd (snd c)))))"
  using assms
proof (induction cs arbitrary: ph)
  case Nil
  then show ?case by simp
next
  case (Cons c cs)
  obtain who now draw entropy ls where c: "c = (who, now, draw, entropy, ls)" by (cases c)
  obtain key ph' where h: "handleConnection P A inet who now draw entropy ls ph =
      (PinRequired (generatePin draw) # sendControlMessage (challenge_text key (ph_sessionId ph)) #
         replicate (length ls) (pairing_error ''invalid_pin'') @ [ClientDisconnected], ph')"
    "ph_pairing ph' = PairingManager_new"
    using guesser_connection [of A who now draw entropy ls ph P inet] Cons.prems c by auto
  from Cons.IH [OF _ h(2)] Cons.prems(1) h(1) show ?case
    by (auto simp: c split_beta filter_replicate errors_differ errors_differ [symmetric])
qed

theorem reconnecting_undoes_the_lockout_witness:
  "length (List.filter (\<lambda>e. e = pairing_error ''invalid_pin'')
     (fst (serve_clients demo_lib demo_android (\<lambda>_. Some 7) [demo_guesser, demo_guesser] idle_phone))) = 10 \<and>
   pairing_error ''locked'' \<notin> set (fst (serve_clients demo_lib demo_android (\<lambda>_. Some 7) [demo_guesser, demo_guesser] idle_phone))"
proof -
  have "guesser demo_android demo_guesser" by code_simp
  then have "list_all (guesser demo_android) [demo_guesser, demo_guesser]" by simp
  moreover have "length (snd (snd (snd (snd demo_guesser)))) = 5" "ph_pairing idle_phone = PairingManager_new"
    by (simp_all add: demo_guesser_def idle_phone_def)
  ultimately show ?thesis
    using reconnecting_undoes_the_lockout [of demo_android "[demo_guesser, demo_guesser]" idle_phone demo_lib "\<lambda>_. Some 7"]
    by (simp del: serve_clients.simps)
qed

end
