(* ===== verification/Phone_Camera.thy ===== *)
theory Phone_Camera
  imports Phone_Control
begin

text \<open>
  What the phone does with a command of the control connection: \<open>handleControlCommand\<close> of
  \<open>VeyraStreamingService.kt\<close> over the control values of \<open>Camera2Controller.kt\<close> and the encoder's
  \<open>H264Encoder.kt\<close>. Putting the values into a request of the camera API is not modelled.
\<close>

subsection \<open>Reading arguments\<close>

definition opt_value :: "(json \<Rightarrow> 'a option) \<Rightarrow> json \<Rightarrow> string \<Rightarrow> 'a \<Rightarrow> 'a" where
  "opt_value convert json name fallback = (case json of
      JObject fs \<Rightarrow> (case Option.bind (map_of fs name) convert of Some v \<Rightarrow> v | None \<Rightarrow> fallback)
    | _ \<Rightarrow> fallback)"

definition optJSONObject :: "json \<Rightarrow> string \<Rightarrow> json option" where
  "optJSONObject json name = (case json of
      JObject fs \<Rightarrow> (case map_of fs name of Some (JObject gs) \<Rightarrow> Some (JObject gs) | _ \<Rightarrow> None)
    | _ \<Rightarrow> None)"

subsection \<open>Camera and encoder\<close>

text \<open>\<open>exposureRange\<close> is \<open>CONTROL_AE_COMPENSATION_RANGE\<close> of the opened camera, whose ends are ordered.\<close>

record Camera2Controller =
  currentZoom :: flt
  currentExposure :: int
  isAutoFocus :: bool
  manualFocusDistance :: flt
  isTorchOn :: bool
  exposureRange :: "(int \<times> int) option"

definition cam_setZoom :: "flt \<Rightarrow> Camera2Controller \<Rightarrow> Camera2Controller" where
  "cam_setZoom factor c = c\<lparr>currentZoom := coerceIn factor (Finite 1) (Finite 10)\<rparr>"

definition cam_setExposureCompensation :: "int \<Rightarrow> Camera2Controller \<Rightarrow> Camera2Controller" where
  "cam_setExposureCompensation step c =
     (let (lower, upper) = (case exposureRange c of Some r \<Rightarrow> r | None \<Rightarrow> (0, 0))
      in c\<lparr>currentExposure := (if step < lower then lower else if upper < step then upper else step)\<rparr>)"

definition cam_setFocus :: "bool \<Rightarrow> flt \<Rightarrow> Camera2Controller \<Rightarrow> Camera2Controller" where
  "cam_setFocus autoFocus distance c =
     c\<lparr>isAutoFocus := autoFocus, manualFocusDistance := coerceIn distance (Finite 0) (Finite 1)\<rparr>"

text \<open>The parameters that the encoder hands to its codec, if there is one.\<close>

datatype codec_parameter = VIDEO_BITRATE int | REQUEST_SYNC_FRAME

record H264Encoder =
  mediaCodec :: bool
  bitrateBps :: int

definition updateBitrate :: "int \<Rightarrow> H264Encoder \<Rightarrow> codec_parameter list \<times> H264Encoder" where
  "updateBitrate newBitrateBps e =
     (if mediaCodec e then ([VIDEO_BITRATE newBitrateBps], e\<lparr>bitrateBps := newBitrateBps\<rparr>) else ([], e))"

definition enc_requestIdr :: "H264Encoder \<Rightarrow> codec_parameter list" where
  "enc_requestIdr e = (if mediaCodec e then [REQUEST_SYNC_FRAME] else [])"

subsection \<open>Commands\<close>

record Streaming =
  st_camera :: "Camera2Controller option"
  st_encoder :: "H264Encoder option"
  st_currentBitrateBps :: int

datatype st_event = SendCapabilities | Codec codec_parameter

definition on_camera :: "(Camera2Controller \<Rightarrow> Camera2Controller) \<Rightarrow> Streaming \<Rightarrow> Streaming" where
  "on_camera f p = p\<lparr>st_camera := map_option f (st_camera p)\<rparr>"

definition update_encoder :: "int \<Rightarrow> Streaming \<Rightarrow> st_event list \<times> Streaming" where
  "update_encoder br p = (case st_encoder p of
      None \<Rightarrow> ([], p)
    | Some e \<Rightarrow> let (es, e) = updateBitrate br e in (map Codec es, p\<lparr>st_encoder := Some e\<rparr>))"

text \<open>Width, height and frame rate of \<open>startStream\<close> are read and not used.\<close>

definition handleControlCommand :: "android \<Rightarrow> nat \<Rightarrow> json \<Rightarrow> Streaming \<Rightarrow> st_event list \<times> Streaming" where
  "handleControlCommand A code payload p =
     (if code = 1 then ([SendCapabilities], p)
      else if code = 3 then
        (case optJSONObject payload ''video'' of
           None \<Rightarrow> ([], p)
         | Some video \<Rightarrow>
             let br = opt_value (json_integer A) video ''bitrate'' (st_currentBitrateBps p)
             in if br \<noteq> st_currentBitrateBps p
                then let (es, p) = update_encoder br p in (es, p\<lparr>st_currentBitrateBps := br\<rparr>)
                else ([], p))
      else if code = 5 then
        ([], on_camera (cam_setZoom (f_narrow binary32 (opt_value (json_double A) payload ''zoom'' (Finite 1)))) p)
      else if code = 6 then
        ([], on_camera (cam_setExposureCompensation (opt_value (json_integer A) payload ''exposure'' 0)) p)
      else if code = 7 then
        ([], on_camera (cam_setFocus (opt_value (json_boolean A) payload ''autoFocus'' True)
               (f_narrow binary32 (opt_value (json_double A) payload ''distance'' (Finite 0)))) p)
      else if code = 8 then
        (case st_encoder p of None \<Rightarrow> [] | Some e \<Rightarrow> map Codec (enc_requestIdr e), p)
      else if code = 9 then update_encoder (opt_value (json_integer A) payload ''bitrate'' (st_currentBitrateBps p)) p
      else ([], p))"

subsection \<open>What a command of the PC comes to\<close>

text \<open>
  Documented behaviour of the library: it reads an integer that fits an \<open>Int\<close>, the words of a truth value,
  and a decimal text as the nearest \<open>double\<close>.
\<close>

definition reads_numbers :: "android \<Rightarrow> bool" where
  "reads_numbers A \<longleftrightarrow>
     (\<forall>i. - (2 ^ 31) \<le> i \<and> i < 2 ^ 31 \<longrightarrow> json_integer A (JNumber (int_text i)) = Some i) \<and>
     (\<forall>n x. json_double A (JNumber (fixed_text n (Finite x))) = Some (mk_flt binary64 (decimal_value (fixed_text n (Finite x))))) \<and>
     (\<forall>b. json_boolean A (JBool b) = Some b)"

lemma reads_numbersD:
  "reads_numbers A \<Longrightarrow> - (2 ^ 31) \<le> i \<Longrightarrow> i < 2 ^ 31 \<Longrightarrow> json_integer A (JNumber (int_text i)) = Some i"
  "reads_numbers A \<Longrightarrow> json_double A (JNumber (fixed_text n (Finite x))) = Some (mk_flt binary64 (decimal_value (fixed_text n (Finite x))))"
  "reads_numbers A \<Longrightarrow> json_boolean A (JBool b) = Some b"
  by (auto simp: reads_numbers_def)

lemma demo_android_numbers: "reads_numbers demo_android"
  by (simp add: reads_numbers_def demo_android_def demo_integer_def demo_double_def demo_boolean_def decimal_int del: fixed_text.simps)

text \<open>Zoom factor and focus distance arrive within a millionth, limited to the range of the phone.\<close>

fun carried_out :: "camera_command \<Rightarrow> Streaming \<Rightarrow> st_event list \<times> Streaming \<Rightarrow> bool" where
  "carried_out (Zoom z) p r \<longleftrightarrow> (\<exists>x y. z = Finite x \<and> \<bar>y - limit 1 10 x\<bar> \<le> 1 / 1000000 \<and>
     r = ([], on_camera (currentZoom_update (\<lambda>_. Finite y)) p))"
| "carried_out (Exposure e) p r \<longleftrightarrow> (\<exists>f. f None = 0 \<and> (\<forall>l u. l \<le> u \<longrightarrow> f (Some (l, u)) = max l (min u e)) \<and>
     r = ([], on_camera (\<lambda>c. c\<lparr>currentExposure := f (exposureRange c)\<rparr>) p))"
| "carried_out (Focus a d) p r \<longleftrightarrow> (\<exists>x y. d = Finite x \<and> \<bar>y - limit 0 1 x\<bar> \<le> 1 / 1000000 \<and>
     r = ([], on_camera (\<lambda>c. c\<lparr>isAutoFocus := a, manualFocusDistance := Finite y\<rparr>) p))"
| "carried_out (Torch b) p r \<longleftrightarrow> r = ([], p)"
| "carried_out (SwitchCamera f) p r \<longleftrightarrow> r = ([], p)"
| "carried_out RequestIdr p r \<longleftrightarrow> r = (if (\<exists>e. st_encoder p = Some e \<and> mediaCodec e) then [Codec REQUEST_SYNC_FRAME] else [], p)"

fun fits_int :: "camera_command \<Rightarrow> bool" where
  "fits_int (Exposure e) \<longleftrightarrow> - (2 ^ 31) \<le> e \<and> e < 2 ^ 31"
| "fits_int c \<longleftrightarrow> True"

lemma member_of_message:
  "name \<noteq> ''type'' \<Longrightarrow> name \<noteq> ''auth_token'' \<Longrightarrow> opt_value convert (message_value type token fs) name fallback =
     (case Option.bind (map_of fs name) convert of Some v \<Rightarrow> v | None \<Rightarrow> fallback)"
  by (simp add: opt_value_def message_value_def)

lemma command_carried_out:
  assumes "reads_numbers A" "finite_command c" "fits_int c"
  shows "carried_out c p (handleControlCommand A (opCode (fst (camera_value c)))
    (message_value (fst (camera_value c)) token (snd (camera_value c))) p)"
proof (cases c)
  case (Zoom z)
  then obtain x where x: "z = Finite x" using assms(2) by (cases z) auto
  obtain y where y: "coerceIn (read_float (fixed_text 6 (Finite x))) (Finite 1) (Finite 10) = Finite y" "\<bar>y - limit 1 10 x\<bar> \<le> 1 / 1000000"
    using limited_reading [of 1 10 x] by auto
  then have "cam_setZoom (read_float (fixed_text 6 (Finite x))) = currentZoom_update (\<lambda>_. Finite y)"
    by (intro ext) (simp add: cam_setZoom_def)
  with y(2) show ?thesis unfolding Zoom x
    by (auto simp: handleControlCommand_def opCode_def member_of_message reads_numbersD [OF assms(1)]
        read_float_def [symmetric] simp del: fixed_text.simps)
next
  case (Exposure e)
  define f where "f r = (let (lower, upper) = (case r of Some r \<Rightarrow> r | None \<Rightarrow> (0, 0))
      in if e < lower then lower else if upper < e then upper else e)" for r :: "(int \<times> int) option"
  have "cam_setExposureCompensation e = (\<lambda>c. c\<lparr>currentExposure := f (exposureRange c)\<rparr>)"
    by (intro ext) (simp add: cam_setExposureCompensation_def f_def Let_def split_beta)
  moreover have "f None = 0" "\<forall>l u. l \<le> u \<longrightarrow> f (Some (l, u)) = max l (min u e)" by (auto simp: f_def)
  ultimately show ?thesis using Exposure assms(1,3)
    by (simp add: handleControlCommand_def opCode_def member_of_message reads_numbersD) blast
next
  case (Focus a d)
  then obtain x where x: "d = Finite x" using assms(2) by (cases d) auto
  obtain y where y: "coerceIn (read_float (fixed_text 6 (Finite x))) (Finite 0) (Finite 1) = Finite y" "\<bar>y - limit 0 1 x\<bar> \<le> 1 / 1000000"
    using limited_reading [of 0 1 x] by auto
  then have "cam_setFocus a (read_float (fixed_text 6 (Finite x))) = (\<lambda>c. c\<lparr>isAutoFocus := a, manualFocusDistance := Finite y\<rparr>)"
    by (intro ext) (simp add: cam_setFocus_def)
  with y(2) show ?thesis unfolding Focus x
    by (auto simp: handleControlCommand_def opCode_def member_of_message reads_numbersD [OF assms(1)]
        read_float_def [symmetric] simp del: fixed_text.simps)
qed (simp_all add: handleControlCommand_def opCode_def enc_requestIdr_def split: option.split)

end
