(* ===== verification/Handshake.thy ===== *)
theory Handshake
  imports Phone_Camera
begin

text \<open>
  Phone and PC from the first connection to the first command: the whole dialog of
  \<open>UdpTransport.kt\<close> with \<open>ServiceManager\<close>, every line as the one side writes and the other side reads
  it, and the video and the camera commands that follow.
\<close>

subsection \<open>The JSON library\<close>

text \<open>No name twice in an object, at any depth.\<close>

fun distinct_names :: "json \<Rightarrow> bool" and distinct_members :: "(string \<times> json) list \<Rightarrow> bool" where
  "distinct_names (JObject fs) \<longleftrightarrow> distinct_members fs"
| "distinct_names x \<longleftrightarrow> True"
| "distinct_members [] \<longleftrightarrow> True"
| "distinct_members ((k, x) # fs) \<longleftrightarrow> k \<notin> fst ` set fs \<and> distinct_names x \<and> distinct_members fs"

text \<open>
  Documented behaviour of the library: it parses a JSON object with distinct names, and it writes a
  text without quotes and control characters as a JSON string with no bare quote in it.
\<close>

definition parses_json :: "android \<Rightarrow> bool" where
  "parses_json A \<longleftrightarrow> (\<forall>s fs. reads s (JObject fs) \<and> distinct_members fs \<longrightarrow> json_parse A s = Some (JObject fs))"

definition writes_json :: "android \<Rightarrow> bool" where
  "writes_json A \<longleftrightarrow> (\<forall>s. plain_text s \<longrightarrow> unescape (json_text A s) = Some s \<and> plain (json_text A s))"

lemma parsesD: "parses_json A \<Longrightarrow> reads s (JObject fs) \<Longrightarrow> distinct_members fs \<Longrightarrow> json_parse A s = Some (JObject fs)"
  by (auto simp: parses_json_def)

lemma writesD:
  "writes_json A \<Longrightarrow> plain_text s \<Longrightarrow> unescape (json_text A s) = Some s"
  "writes_json A \<Longrightarrow> plain_text s \<Longrightarrow> plain (json_text A s)"
  by (auto simp: writes_json_def)

lemma unescape_length: "unescape s = Some t \<Longrightarrow> length t \<le> length s"
proof (induction s arbitrary: t rule: unescape.induct)
  case 1
  then show ?case by simp
next
  case (2 c s)
  then show ?case by (cases s) (fastforce split: if_splits)+
qed

subsection \<open>The answer of the PC, read by the phone\<close>

definition response_members :: "string \<Rightarrow> string \<Rightarrow> (string \<times> json) list" where
  "response_members pin key = [(''type'', JString ''pairing_response''), (''pin'', JString pin), (''client_pubkey'', JString key)]"

lemma pairing_response_reads:
  assumes "plain_text pin" "plain_text key"
  shows "reads (pairing_response pin key) (JObject (response_members pin key))"
proof -
  have names: "plain_text ''pairing_response''" "plain_text ''pin''" "plain_text ''client_pubkey''"
    by (simp_all add: plain_text_def plain_char_def quote_def)
  have "reads_members (json_key ''type'' @ (quote # ''pairing_response'' @ [quote]) @ CHR 0x2C #
      json_key ''pin'' @ (quote # pin @ [quote]) @ CHR 0x2C # json_key ''client_pubkey'' @ (quote # key @ [quote]))
    (response_members pin key)"
    unfolding response_members_def using assms names by (intro more_reads solo_reads reads_string') simp_all
  from reads_object [OF this] show ?thesis by (simp add: pairing_response_def json_key_def)
qed

lemma pin_plain:
  assumes "\<And>i. draw i < 10"
  shows "plain_text (generatePin draw)" and "length (generatePin draw) = 6"
proof -
  have digit_char: "plain_char c" if "is_digit c" for c
    using that by (auto simp: plain_char_def is_digit_def quote_def)
  show "plain_text (generatePin draw)"
    using pin_digits [of draw] digit_char by (auto simp: plain_text_def list_all_iff)
  have "length (nat_text (draw i)) = 1" for i using assms [of i] by (simp add: nat_text.simps [of "draw i"])
  then show "length (generatePin draw) = 6"
    by (simp add: generatePin_def PIN_LENGTH_def length_concat comp_def sum_list_triv)
qed

lemma response_length: "length (pairing_response pin key) = length pin + length key + 55"
  by (simp add: pairing_response_def json_key_def)

text \<open>The phone accepts the right PIN with a key that gives a channel.\<close>

lemma response_accepted:
  assumes A: "parses_json A" and pin: "plain_text pin" "length pin = 6" and key: "plain_text key" "key \<noteq> []" "length key \<le> 60000"
    and ph: "pm_state (ph_pairing ph) = AWAITING_PIN" "pm_currentPin (ph_pairing ph) = Some pin" "ph_sender ph = Some s"
    and completes: "CompletePairing P key s = (True, s')"
  shows "\<exists>m. handle_line P A inet who t (pairing_response pin key) False ph =
      ([pairing_ok A (Some (mt_token t)), Authenticated who], True, True,
       ph\<lparr>ph_pairing := m, ph_clientIp := Some who,
          ph_sender := Some (snd (ConfigureUdp (mt_fd t) inet who UDP_MEDIA_PORT s'))\<rparr>) \<and>
    pm_authToken m = Some (mt_token t)"
proof -
  have parse: "json_parse A (pairing_response pin key) = Some (JObject (response_members pin key))"
    using parsesD [OF A pairing_response_reads [OF pin(1) key(1)]] by (simp add: response_members_def)
  have short: "int (length (pairing_response pin key)) \<le> MAX_LINE_LENGTH"
    using pin(2) key(3) by (simp add: response_length MAX_LINE_LENGTH_def)
  have fields: "optString A (JObject (response_members pin key)) ''type'' = ''pairing_response''"
    "optString A (JObject (response_members pin key)) ''pin'' = pin"
    "optString A (JObject (response_members pin key)) ''client_pubkey'' = key"
    by (simp_all add: optString_def response_members_def)
  obtain m where v: "verifyPin pin (mt_now t) (mt_now' t) (mt_token t) (ph_pairing ph) = (PR_OK, m)"
    "pm_authToken m = Some (mt_token t)"
    using ph(1,2) by (simp add: verifyPin_def Let_def)
  show ?thesis
    using parse short fields v ph(3) key(2) completes
    by (intro exI [of _ m]) (simp add: handle_line_def handle_response_def complete_with_text_def onAuthenticated_def
        configure_with_text_def Let_def)
qed

subsection \<open>The token on the PC\<close>

lemma ok_text:
  assumes "plain tk" "tk \<noteq> ''type''" "tk \<noteq> ''token''"
  shows "ExtractJsonString (object_text [(''type'', ''pairing_ok''), (''token'', tk)]) ''type'' = ''pairing_ok''"
    and "ExtractJsonString (object_text [(''type'', ''pairing_ok''), (''token'', tk)]) ''token'' = tk"
proof -
  have names: "plain_key ''type''" "plain_key ''token''" "plain ''pairing_ok''" "plain ''type''" "plain ''token''"
    by (simp_all add: plain_key_def plain_def quote_def)
  show "ExtractJsonString (object_text [(''type'', ''pairing_ok''), (''token'', tk)]) ''type'' = ''pairing_ok''"
    "ExtractJsonString (object_text [(''type'', ''pairing_ok''), (''token'', tk)]) ''token'' = tk"
    by (rule extract_field; use assms names in simp)+
qed

definition paired_with :: "string \<Rightarrow> Service \<Rightarrow> Service" where
  "paired_with tk s = s\<lparr>sv_token := tk, sv_pairingState := PAIRED, sv_isStreaming := True\<rparr>"

lemma token_accepted:
  assumes "plain tk" "5 < length tk" "sv_tcpClient s" "sv_connected s"
  shows "OnTcpControlMessage P inet e (object_text [(''type'', ''pairing_ok''), (''token'', tk)]) s =
    (status ''paired'' s @ [ToPhone (BuildControlMessage tk ''startStream'' start_stream_payload @ [newline]),
       ToPhone (BuildControlMessage tk ''hello'' [] @ [newline])], paired_with tk s)"
proof -
  have "tk \<noteq> ''type''" "tk \<noteq> ''token''" "tk \<noteq> []" using assms(2) by auto
  then show ?thesis
    using ok_text [OF assms(1)] assms(3,4)
    by (simp add: OnTcpControlMessage_def HandlePairingResult_def paired_with_def status_def tcp_send_def
        SendControlMessage_def Let_def)
qed

subsection \<open>Commands on the phone\<close>

definition token_set :: "android \<Rightarrow> string \<Rightarrow> Phone \<Rightarrow> Service \<Rightarrow> bool" where
  "token_set A token ph s \<longleftrightarrow> pm_authToken (ph_pairing ph) = Some token \<and> can_command s \<and>
     sv_token s = json_text A token \<and> plain_text token \<and> token \<noteq> []"

lemma command_accepted:
  assumes "parses_json A" "reads line (message_value type token fs)" "distinct_members ((''type'', JNull) # (''auth_token'', JNull) # fs)"
    and "int (length line) \<le> MAX_LINE_LENGTH" "type \<noteq> ''pairing_response''" "pm_authToken (ph_pairing ph) = Some token"
  shows "handle_line P A inet who t line True ph = ([Command (opCode type) (message_value type token fs)], True, True, ph)"
proof -
  have "json_parse A line = Some (message_value type token fs)"
    using parsesD [OF assms(1), of line] assms(2,3) by (simp add: message_value_def)
  moreover have "optString A (message_value type token fs) ''type'' = type"
    "optString A (message_value type token fs) ''auth_token'' = token"
    by (simp_all add: optString_def message_value_def)
  ultimately show ?thesis using assms(4-6) by (simp add: handle_line_def isTokenValid_def Let_def)
qed

text \<open>The phone's context after the first pairing, with the client as its destination.\<close>

lemma fresh_phone_completes:
  assumes "base64_faithful P (publicKey desk)"
    and "DeriveSessionKeys P True (Some (publicKey desk)) (Some (publicKey (GenerateKeyPair P e)))
      (Some (privateKey (GenerateKeyPair P e))) SessionCrypto_new = (True, sc)" and "hasKeys sc"
  shows "\<exists>s'. CompletePairing P (Base64Encode P (publicKey desk)) (snd (BeginPairing P e (NativeSender_new i))) = (True, s') \<and>
    ns_packetizer s' = \<lparr>pkt_sessionId = i, pkt_sequence = 0, pkt_crypto = Some 0\<rparr> \<and>
    ns_objects s' = [sc] \<and> ns_frameCounter s' = 0"
  using assms
  by (simp add: CompletePairing_def base64_faithful_def Let_def IsKeySet_def pkt_SetCrypto_def Packetizer_new_def
      NativeSender_new_def)

lemma configured:
  "0 \<le> fd \<Longrightarrow> inet host \<noteq> None \<Longrightarrow> 0 \<le> ns_udpSocket (snd (ConfigureUdp fd inet host port s))"
  "ns_frameCounter (snd (ConfigureUdp fd inet host port s)) = ns_frameCounter s"
  by (auto simp: ConfigureUdp_def CloseUdp_def Let_def split: option.split)

lemma phone_frame:
  assumes "0 \<le> ns_udpSocket s" "ns_frameCounter s = 0" "ns_objects s = [sc]"
    and "ns_packetizer s = \<lparr>pkt_sessionId = i, pkt_sequence = 0, pkt_crypto = Some 0\<rparr>" "nal \<noteq> []"
  shows "fst (SendVideoNal P clock nal True ts s) =
    frame_packets (seal_at P [sc]) \<lparr>pkt_sessionId = i, pkt_sequence = 0, pkt_crypto = Some 0\<rparr> nal 1 ts True"
  using assms by (simp add: SendVideoNal_packets frame_packets_def)

lemma media_ready_paired: "media_ready a r s \<Longrightarrow> media_ready a r (paired_with tk s)"
  by (auto simp: media_ready_def paired_with_def)

definition waiting_phone :: "u32 \<Rightarrow> Phone" where
  "waiting_phone i = \<lparr>ph_pairing = PairingManager_new, ph_sender = Some (NativeSender_new i), ph_sessionId = i,
     ph_clientIp = None\<rparr>"

lemma control_lines_short:
  assumes "length tk \<le> 60000"
  shows "int (length (BuildControlMessage tk ''startStream'' start_stream_payload)) \<le> MAX_LINE_LENGTH"
    and "int (length (BuildControlMessage tk ''hello'' [])) \<le> MAX_LINE_LENGTH"
  using assms by (simp_all add: BuildControlMessage_def start_stream_payload_def strip_braces_def json_key_def
      MAX_LINE_LENGTH_def Let_def)

lemma opened:
  "open_connection P A who now draw e (waiting_phone i) =
     ([PinRequired (generatePin draw),
       SendLine (challenge_text (json_text A (Base64Encode P (publicKey (GenerateKeyPair P e)))) i @ [newline])], True,
      \<lparr>ph_pairing = snd (startPairing who now draw PairingManager_new),
        ph_sender = Some (snd (BeginPairing P e (NativeSender_new i))), ph_sessionId = i, ph_clientIp = None\<rparr>)"
  by (simp add: open_connection_def waiting_phone_def startPairing_def PairingManager_new_def nativeBeginPairing_def
      sendControlMessage_def BeginPairing_def Let_def)

lemma phone_opens:
  assumes "json_text A (Base64Encode P (publicKey (GenerateKeyPair P e))) = Base64Encode P (publicKey (GenerateKeyPair P e))"
  obtains ph where "open_connection P A who now draw e (waiting_phone i) =
      ([PinRequired (generatePin draw), SendLine (challenge_text (Base64Encode P (publicKey (GenerateKeyPair P e))) i @ [newline])],
       True, ph)"
    and "pm_state (ph_pairing ph) = AWAITING_PIN" "pm_currentPin (ph_pairing ph) = Some (generatePin draw)"
      "ph_sender ph = Some (snd (BeginPairing P e (NativeSender_new i)))"
  using opened [where P = P and A = A and e = e and i = i and who = who and now = now and draw = draw, unfolded assms]
  by (intro that) (assumption, simp_all add: startPairing_def PairingManager_new_def Let_def)

lemma first_commands:
  assumes A: "parses_json A" and tk: "unescape tk = Some token" "tk \<noteq> []" "length tk \<le> 60000"
    and ph: "pm_authToken (ph_pairing ph) = Some token"
  shows "handle_line P A inet who t (BuildControlMessage tk ''startStream'' start_stream_payload) True ph =
      ([Command 3 (message_value ''startStream'' token start_stream_value)], True, True, ph)"
    and "handle_line P A inet who t (BuildControlMessage tk ''hello'' []) True ph =
      ([Command 1 (message_value ''hello'' token [])], True, True, ph)"
proof -
  note start = message_reads [OF _ tk(1,2) disjI2 [OF start_stream_reads], of "''startStream''"]
  have hello: "reads (BuildControlMessage tk ''hello'' []) (message_value ''hello'' token [])"
    using message_reads [OF _ tk(1,2), of "''hello''" "[]" "[]"] by simp
  show "handle_line P A inet who t (BuildControlMessage tk ''startStream'' start_stream_payload) True ph =
      ([Command 3 (message_value ''startStream'' token start_stream_value)], True, True, ph)"
    "handle_line P A inet who t (BuildControlMessage tk ''hello'' []) True ph =
      ([Command 1 (message_value ''hello'' token [])], True, True, ph)"
    using command_accepted [OF A start _ control_lines_short(1) [OF tk(3)] _ ph]
      command_accepted [OF A hello _ control_lines_short(2) [OF tk(3)] _ ph]
    by (simp_all add: start_stream_value_def opCode_def)
qed

text \<open>The first keyframe of a phone that has just been paired.\<close>

lemma paired_frame_decodes:
  assumes k: "session_live P sc cc"
    and s': "ns_packetizer s' = \<lparr>pkt_sessionId = i, pkt_sequence = 0, pkt_crypto = Some 0\<rparr>" "ns_objects s' = [sc]" "ns_frameCounter s' = 0"
    and net: "0 \<le> fd" "inetPhone who \<noteq> None" "inet ip = Some src"
    and frame: "i \<noteq> 0" "nal \<noteq> []" "length nal \<le> 65535 * 1150"
  obtains es s3 where
    "sv_run P inet (map (Datagram tick us src) (fst (SendVideoNal P clock nal True ts (snd (ConfigureUdp fd inetPhone who port s')))))
       (paired_with tk ((arm_receiver inet cc i (connected_service ip pin cb))\<lparr>sv_pairingState := AWAITING_PAIRING_OK\<rparr>)) = Some (es, s3)"
    "decoded es = [\<lparr>vf_frameId = 1, vf_timestampUs = ts, vf_isKeyframe = True, vf_data = nal\<rparr>]"
proof -
  have ready: "media_ready src (SetExpectedSessionId i (ra_SetCrypto (Some cc) (FrameReassembler_new True True)))
      (paired_with tk ((arm_receiver inet cc i (connected_service ip pin cb))\<lparr>sv_pairingState := AWAITING_PAIRING_OK\<rparr>))"
    using net(3) frame(1) by (intro media_ready_paired answered_is_ready [where pin = pin and cb = cb]) auto
  have "fst (SendVideoNal P clock nal True ts (snd (ConfigureUdp fd inetPhone who port s'))) =
      frame_packets (seal_at P [sc]) \<lparr>pkt_sessionId = i, pkt_sequence = 0, pkt_crypto = Some 0\<rparr> nal 1 ts True"
    using s' frame(2) net(1,2) by (intro phone_frame) (simp_all add: configured)
  then show thesis using first_frame_decodes [OF k ready refl frame(2,3)] that by metis
qed

lemma demo_android_json: "parses_json demo_android" "writes_json demo_android"
proof -
  show "parses_json demo_android"
    using read_json_complete [where w = "[]"] by (simp add: parses_json_def demo_android_def)
  have "unescape (json_text demo_android s) = Some s \<and> plain (json_text demo_android s)" if "plain_text s" for s
    using that by (induction s)
      (auto simp: demo_android_def demo_text_def plain_text_def plain_char_def may_escape_def backslash_def plain_def quote_def)
  then show "writes_json demo_android" by (simp add: writes_json_def)
qed

lemma demo_keys_agree: "keys_agree demo_lib (replicate 32 65) (replicate 32 66)"
proof -
  have "ecdh_agrees demo_lib (GenerateKeyPair demo_lib (replicate 32 65)) (GenerateKeyPair demo_lib (replicate 32 66))"
    unfolding ecdh_agrees_def by code_simp
  moreover have "base64_faithful demo_lib (publicKey (GenerateKeyPair demo_lib (replicate 32 65)))"
    "base64_faithful demo_lib (publicKey (GenerateKeyPair demo_lib (replicate 32 66)))"
    unfolding base64_faithful_def key_text_def plain_def quote_def by code_simp+
  moreover have "fst (DeriveSessionKeys demo_lib True (Some (publicKey (GenerateKeyPair demo_lib (replicate 32 66))))
      (Some (publicKey (GenerateKeyPair demo_lib (replicate 32 65))))
      (Some (privateKey (GenerateKeyPair demo_lib (replicate 32 65)))) SessionCrypto_new)" by code_simp
  ultimately show ?thesis using demo_correct demo_total demo_hkdf_sized by (simp add: keys_agree_def Let_def)
qed

subsection \<open>Properties\<close>

text \<open>C2. The whole handshake succeeds: when the user enters the PIN that the phone shows, phone and PC
  exchange challenge, answer and token, each reading exactly what the other wrote; the PC ends paired and
  streaming, with the token as the phone's JSON library wrote it, escapes included; its first two lines
  reach the phone as the commands for the stream and the greeting with that token; and the first keyframe
  that the phone then sends is decoded unchanged. The one restriction on the key of the phone is that the
  library writes its text without an escape.\<close>

theorem handshake_completes:
  assumes keys: "keys_agree P e1 e2" and json: "parses_json A" "writes_json A"
    and phone_key: "json_text A (Base64Encode P (publicKey (GenerateKeyPair P e1))) = Base64Encode P (publicKey (GenerateKeyPair P e1))"
    and desk_key: "plain_text (Base64Encode P (publicKey (GenerateKeyPair P e2)))"
      "length (Base64Encode P (publicKey (GenerateKeyPair P e2))) \<le> 60000"
    and draw: "\<And>i. draw i < 10"
    and token: "mt_token t = token" "plain_text token" "5 < length token" "length (json_text A token) \<le> 60000"
    and net: "0 \<le> mt_fd t" "inetPhone who \<noteq> None" "inet ip = Some src"
    and frame: "i \<noteq> 0" "nal \<noteq> []" "length nal \<le> 65535 * 1150"
  shows "\<exists>challenge ph1 response s1 ok ph2 start hello s2 ns es s3.
    open_connection P A who now draw e1 (waiting_phone i) =
      ([PinRequired (generatePin draw), SendLine (challenge @ [newline])], True, ph1) \<and>
    OnTcpControlMessage P inet e2 challenge (connected_service ip (generatePin draw) cb) = ([ToPhone (response @ [newline])], s1) \<and>
    handle_line P A inetPhone who t response False ph1 = ([SendLine (ok @ [newline]), Authenticated who], True, True, ph2) \<and>
    OnTcpControlMessage P inet e3 ok s1 = (status ''paired'' s1 @ [ToPhone (start @ [newline]), ToPhone (hello @ [newline])], s2) \<and>
    handle_line P A inetPhone who t1 start True ph2 =
      ([Command 3 (message_value ''startStream'' token start_stream_value)], True, True, ph2) \<and>
    handle_line P A inetPhone who t2 hello True ph2 = ([Command 1 (message_value ''hello'' token [])], True, True, ph2) \<and>
    token_set A token ph2 s2 \<and> ph_sender ph2 = Some ns \<and>
    sv_run P inet (map (Datagram tick us src) (fst (SendVideoNal P clock nal True ts ns))) s2 = Some (es, s3) \<and>
    decoded es = [\<lparr>vf_frameId = 1, vf_timestampUs = ts, vf_isKeyframe = True, vf_data = nal\<rparr>]"
proof -
  let ?pin = "generatePin draw" and ?phone = "GenerateKeyPair P e1" and ?desk = "GenerateKeyPair P e2" and ?tk = "json_text A token"
  let ?kp = "Base64Encode P (publicKey ?phone)" and ?kd = "Base64Encode P (publicKey ?desk)"
  obtain sc cc where k: "session_live P sc cc" "hasKeys sc" "hasKeys cc" "base64_faithful P (publicKey ?phone)" "base64_faithful P (publicKey ?desk)"
    and d: "DeriveSessionKeys P True (Some (publicKey ?desk)) (Some (publicKey ?phone)) (Some (privateKey ?phone)) SessionCrypto_new = (True, sc)"
      "DeriveSessionKeys P False (Some (publicKey ?phone)) (Some (publicKey ?desk)) (Some (privateKey ?desk)) SessionCrypto_new = (True, cc)"
    using keys_agreeD [OF keys] by metis
  let ?ready = "(arm_receiver inet cc i (connected_service ip ?pin cb))\<lparr>sv_pairingState := AWAITING_PAIRING_OK\<rparr>"
  obtain ph1 where open1: "open_connection P A who now draw e1 (waiting_phone i) =
      ([PinRequired ?pin, SendLine (challenge_text ?kp i @ [newline])], True, ph1)"
    and ph1: "pm_state (ph_pairing ph1) = AWAITING_PIN" "pm_currentPin (ph_pairing ph1) = Some ?pin"
      "ph_sender ph1 = Some (snd (BeginPairing P e1 (NativeSender_new i)))"
    using phone_opens [OF phone_key] .
  note answer = challenge_answered [OF k(4) refl d(2) k(3) refl, of inet i ip ?pin cb]
  obtain s' where s': "CompletePairing P ?kd (snd (BeginPairing P e1 (NativeSender_new i))) = (True, s')"
    "ns_packetizer s' = \<lparr>pkt_sessionId = i, pkt_sequence = 0, pkt_crypto = Some 0\<rparr>" "ns_objects s' = [sc]" "ns_frameCounter s' = 0"
    using fresh_phone_completes [OF k(5) d(1) k(2)] by blast
  have "?kd \<noteq> []" using k(5) by (auto simp: base64_faithful_def key_text_def)
  from response_accepted [OF json(1) pin_plain [OF draw] desk_key(1) this desk_key(2) ph1 s'(1),
      where inet = inetPhone and who = who and t = t] obtain m where
    m: "handle_line P A inetPhone who t (pairing_response ?pin ?kd) False ph1 =
      ([pairing_ok A (Some token), Authenticated who], True, True, ph1\<lparr>ph_pairing := m, ph_clientIp := Some who,
          ph_sender := Some (snd (ConfigureUdp (mt_fd t) inetPhone who UDP_MEDIA_PORT s'))\<rparr>)" "pm_authToken m = Some token"
    unfolding token(1) by blast
  let ?ns = "snd (ConfigureUdp (mt_fd t) inetPhone who UDP_MEDIA_PORT s')"
  let ?ph2 = "ph1\<lparr>ph_pairing := m, ph_clientIp := Some who, ph_sender := Some ?ns\<rparr>"
  let ?ok = "object_text [(''type'', ''pairing_ok''), (''token'', ?tk)]"
  have "pairing_ok A (Some token) = SendLine (?ok @ [newline])" by (simp add: pairing_ok_def sendControlMessage_def)
  note response = m(1) [unfolded this]
  have tk: "unescape ?tk = Some token" "plain ?tk" "5 < length ?tk"
    using writesD [OF json(2) token(2)] unescape_length [of ?tk token] token(3) by auto
  then have ne: "?tk \<noteq> []" "token \<noteq> []" using token(3) by auto
  have accept: "OnTcpControlMessage P inet e3 ?ok ?ready =
      (status ''paired'' ?ready @ [ToPhone (BuildControlMessage ?tk ''startStream'' start_stream_payload @ [newline]),
         ToPhone (BuildControlMessage ?tk ''hello'' [] @ [newline])], paired_with ?tk ?ready)"
    using tk(2,3) by (intro token_accepted) simp_all
  have commands: "handle_line P A inetPhone who t1 (BuildControlMessage ?tk ''startStream'' start_stream_payload) True ?ph2 =
      ([Command 3 (message_value ''startStream'' token start_stream_value)], True, True, ?ph2)"
    "handle_line P A inetPhone who t2 (BuildControlMessage ?tk ''hello'' []) True ?ph2 =
      ([Command 1 (message_value ''hello'' token [])], True, True, ?ph2)"
    using m(2) by (intro first_commands [OF json(1) tk(1) ne(1) token(4)]; simp)+
  have set: "token_set A token ?ph2 (paired_with ?tk ?ready)"
    using m(2) token(2) ne(2) by (simp add: token_set_def can_command_def paired_with_def)
  obtain es s3 where video:
    "sv_run P inet (map (Datagram tick us src) (fst (SendVideoNal P clock nal True ts ?ns))) (paired_with ?tk ?ready) = Some (es, s3)"
    "decoded es = [\<lparr>vf_frameId = 1, vf_timestampUs = ts, vf_isKeyframe = True, vf_data = nal\<rparr>]"
    using paired_frame_decodes [where inetPhone = inetPhone and who = who and inet = inet and ip = ip, OF k(1) s'(2-4) net frame] .
  have "ph_sender ?ph2 = Some ?ns" by simp
  note steps = open1 answer response accept commands set this video
  show ?thesis by (intro exI conjI) (rule steps)+
qed

theorem handshake_completes_witness:
  "\<exists>challenge ph1 response s1 ok ph2 start s2.
    open_connection demo_lib demo_android ''10.0.0.7'' 1000 (\<lambda>i. i mod 10) (replicate 32 65) (waiting_phone 9) =
      ([PinRequired ''012345'', SendLine (challenge @ [newline])], True, ph1) \<and>
    OnTcpControlMessage demo_lib demo_inet (replicate 32 66) challenge (connected_service ''10.0.0.5'' ''012345'' True) =
      ([ToPhone (response @ [newline])], s1) \<and>
    handle_line demo_lib demo_android (\<lambda>_. Some 7) ''10.0.0.7'' demo_moment response False ph1 =
      ([SendLine (ok @ [newline]), Authenticated ''10.0.0.7''], True, True, ph2) \<and>
    handle_line demo_lib demo_android (\<lambda>_. Some 7) ''10.0.0.7'' demo_moment start True ph2 =
      ([Command 3 (message_value ''startStream'' ''tok/en'' start_stream_value)], True, True, ph2) \<and>
    token_set demo_android ''tok/en'' ph2 s2"
proof -
  have pin: "generatePin (\<lambda>i. i mod 10) = ''012345''" by code_simp
  have texts: "json_text demo_android (Base64Encode demo_lib (publicKey (GenerateKeyPair demo_lib (replicate 32 65)))) =
      Base64Encode demo_lib (publicKey (GenerateKeyPair demo_lib (replicate 32 65)))"
    "length (Base64Encode demo_lib (publicKey (GenerateKeyPair demo_lib (replicate 32 66)))) = 32"
    "length (json_text demo_android ''tok/en'') = 7" by code_simp+
  have plain: "plain_text (Base64Encode demo_lib (publicKey (GenerateKeyPair demo_lib (replicate 32 66))))"
    "plain_text ''tok/en''" unfolding plain_text_def by code_simp+
  have "demo_inet ''10.0.0.5'' = Some 5" by (simp add: demo_inet_def)
  with handshake_completes [where P = demo_lib and A = demo_android and draw = "\<lambda>i. i mod 10" and t = demo_moment
      and token = "''tok/en''" and inetPhone = "\<lambda>_. Some 7" and who = "''10.0.0.7''" and i = 9 and nal = "[7, 8, 9]"
      and now = 1000 and cb = True and ?e3.0 = "[]" and ?t1.0 = demo_moment and ?t2.0 = demo_moment and tick = 0 and us = 0
      and clock = "\<lambda>_. 0" and ts = 50, OF demo_keys_agree demo_android_json texts(1) plain(1)] texts(2,3) plain(2)
  have "\<exists>challenge ph1 response s1 ok ph2 start s2.
    open_connection demo_lib demo_android ''10.0.0.7'' 1000 (\<lambda>i. i mod 10) (replicate 32 65) (waiting_phone 9) =
      ([PinRequired (generatePin (\<lambda>i. i mod 10)), SendLine (challenge @ [newline])], True, ph1) \<and>
    OnTcpControlMessage demo_lib demo_inet (replicate 32 66) challenge (connected_service ''10.0.0.5'' (generatePin (\<lambda>i. i mod 10)) True) =
      ([ToPhone (response @ [newline])], s1) \<and>
    handle_line demo_lib demo_android (\<lambda>_. Some 7) ''10.0.0.7'' demo_moment response False ph1 =
      ([SendLine (ok @ [newline]), Authenticated ''10.0.0.7''], True, True, ph2) \<and>
    handle_line demo_lib demo_android (\<lambda>_. Some 7) ''10.0.0.7'' demo_moment start True ph2 =
      ([Command 3 (message_value ''startStream'' ''tok/en'' start_stream_value)], True, True, ph2) \<and>
    token_set demo_android ''tok/en'' ph2 s2" by (simp add: demo_moment_def) meson
  then show ?thesis by (simp only: pin)
qed

text \<open>C33. Camera commands take effect: between a phone and a PC that share a token, every command of the
  PC is one line, and the phone, unless the line is too long, handles it with the operation code of its type
  and the arguments the caller gave. Exposure and focus mode then are what the caller asked for, the
  exposure limited to the range of the camera; zoom factor and focus distance differ from the caller's,
  limited to their ranges, by at most a millionth, whatever is lost by writing six decimals and reading them
  back; and a keyframe is requested from a codec that runs. But the commands for the torch and for
  switching the camera, for which the phone has no code, change nothing.\<close>

theorem camera_commands_reach_the_phone:
  assumes "token_set A token ph s" "parses_json A" "writes_json A" "reads_numbers A" "finite_command c" "fits_int c"
  shows "\<exists>line code json. camera_send c s = [ToPhone (line @ [newline])] \<and>
    (int (length line) \<le> MAX_LINE_LENGTH \<longrightarrow>
       handle_line P A inet who t line True ph = ([Command code json], True, True, ph)) \<and>
    code = opCode (fst (camera_value c)) \<and> json = message_value (fst (camera_value c)) token (snd (camera_value c)) \<and>
    carried_out c p (handleControlCommand A code json p)"
proof -
  note set = assms(1) [unfolded token_set_def]
  let ?payload = "if c = RequestIdr then [] else CHR 0x7B # camera_payload c @ ''}''"
  let ?line = "BuildControlMessage (sv_token s) (fst (camera_value c)) ?payload"
  have token: "unescape (sv_token s) = Some token" "sv_token s \<noteq> []"
    using writesD(1) [OF assms(3), of token] set by auto
  have "?payload = [] \<and> snd (camera_value c) = [] \<or>
      (\<exists>m. ?payload = CHR 0x7B # m @ ''}'' \<and> reads_members m (snd (camera_value c)))"
    using camera_payload_reads [OF assms(5)] by (cases "c = RequestIdr") auto
  note reads = message_reads [OF camera_type_plain [of c] token this]
  have "distinct_members ((''type'', JNull) # (''auth_token'', JNull) # snd (camera_value c))"
    "fst (camera_value c) \<noteq> ''pairing_response''" by (cases c; simp)+
  then have handled: "int (length ?line) \<le> MAX_LINE_LENGTH \<Longrightarrow> handle_line P A inet who t ?line True ph =
       ([Command (opCode (fst (camera_value c))) (message_value (fst (camera_value c)) token (snd (camera_value c)))],
        True, True, ph)"
    using command_accepted [OF assms(2) reads] set by blast
  have sent: "camera_send c s = [ToPhone (?line @ [newline])]" using camera_send_payload set by simp
  show ?thesis
    by (intro exI [of _ ?line] exI conjI impI) (rule sent, erule handled, rule refl, rule refl, rule command_carried_out [OF assms(4-6)])
qed

definition paired_phone :: Phone where
  "paired_phone = (waiting_phone 9)\<lparr>ph_pairing := PairingManager_new\<lparr>pm_authToken := Some ''tok/en''\<rparr>\<rparr>"

definition streaming_service :: Service where
  "streaming_service = paired_example\<lparr>sv_token := json_text demo_android ''tok/en''\<rparr>"

definition idle_streaming :: Streaming where
  "idle_streaming = \<lparr>st_camera = Some \<lparr>currentZoom = Finite 1, currentExposure = 0, isAutoFocus = True,
     manualFocusDistance = Finite 0, isTorchOn = False, exposureRange = Some (-12, 12)\<rparr>, st_encoder = None,
     st_currentBitrateBps = 2500000\<rparr>"

theorem camera_commands_reach_the_phone_witness:
  "\<exists>line json. camera_send (Exposure 20) streaming_service = [ToPhone (line @ [newline])] \<and>
     handle_line demo_lib demo_android (\<lambda>_. None) ''10.0.0.7'' demo_moment line True paired_phone =
       ([Command 6 json], True, True, paired_phone) \<and>
     map_option currentExposure (st_camera (snd (handleControlCommand demo_android 6 json idle_streaming))) = Some 12"
proof -
  have set: "token_set demo_android ''tok/en'' paired_phone streaming_service"
    by (simp add: token_set_def paired_phone_def streaming_service_def can_command_def paired_example_def
        Service_new_def plain_text_def plain_char_def quote_def)
  have fits: "finite_command (Exposure 20)" "fits_int (Exposure 20)" by simp_all
  from camera_commands_reach_the_phone [OF set demo_android_json demo_android_numbers fits, of demo_lib "\<lambda>_. None" "''10.0.0.7''"
      demo_moment idle_streaming]
  obtain line code json where line: "camera_send (Exposure 20) streaming_service = [ToPhone (line @ [newline])]"
    "int (length line) \<le> MAX_LINE_LENGTH \<longrightarrow>
     handle_line demo_lib demo_android (\<lambda>_. None) ''10.0.0.7'' demo_moment line True paired_phone =
       ([Command code json], True, True, paired_phone)"
    "code = opCode (fst (camera_value (Exposure 20)))"
    "carried_out (Exposure 20) idle_streaming (handleControlCommand demo_android code json idle_streaming)"
    by (elim exE conjE) (rule that)
  have code: "code = 6" using line(3) by (simp add: opCode_def)
  obtain f where "\<forall>l u. l \<le> u \<longrightarrow> f (Some (l, u)) = max l (min u 20)" "handleControlCommand demo_android 6 json idle_streaming =
      ([], on_camera (\<lambda>c. c\<lparr>currentExposure := f (exposureRange c)\<rparr>) idle_streaming)"
    using line(4) unfolding code carried_out.simps by blast
  then have set20: "map_option currentExposure (st_camera (snd (handleControlCommand demo_android 6 json idle_streaming))) = Some 12"
    by (simp add: on_camera_def idle_streaming_def)
  have "list_all (\<lambda>e. case e of ToPhone l \<Rightarrow> length l < 100 | _ \<Rightarrow> True) (camera_send (Exposure 20) streaming_service)"
    by code_simp
  then have "int (length line) \<le> MAX_LINE_LENGTH" unfolding line(1) by (simp add: MAX_LINE_LENGTH_def)
  with line(2) have "handle_line demo_lib demo_android (\<lambda>_. None) ''10.0.0.7'' demo_moment line True paired_phone =
       ([Command 6 json], True, True, paired_phone)" by (simp only: code simp_thms)
  with line(1) set20 show ?thesis by blast
qed

end
