(* ===== verification/Native_Window.thy ===== *)
theory Native_Window
  imports Float_Model "HOL-Library.Word"
begin

text \<open>
  The native window of the desktop application VeyraLink,
  \<open>apps/veyralink/windows/runner/win32_window.cpp\<close>, \<open>flutter_window.cpp\<close> and \<open>main.cpp\<close>: window objects
  that the operating system calls back through \<open>WndProc\<close>, the registration of their window class, and the
  message loop of \<open>wWinMain\<close>. Windows are destroyed from inside their own message handlers, so the
  functions call each other; a fault is a value. The operating system is modelled as far as the code relies
  on it: which windows exist, the object pointer each carries, the registered class, and the messages that
  creating and destroying a window sends. The replies of Flutter's plugins, the client area, the theme of
  the system, the console, the command line and the outcome of creating a window and an engine are
  arguments. Calls that only tell Windows something are recorded.
\<close>

subsection \<open>State\<close>

type_synonym hwnd = nat
type_synonym object_id = nat
type_synonym rect = "int \<times> int \<times> int \<times> int"

datatype message =
    WM_CLOSE | WM_DESTROY | WM_NCDESTROY
  | WM_DPICHANGED rect
  | WM_SIZE | WM_ACTIVATE | WM_DWMCOLORIZATIONCOLORCHANGED | WM_FONTCHANGE
  | WM_OTHER nat

text \<open>Calls into Windows and Flutter that the model only records.\<close>

datatype os_call =
    CreateWindowCall string "int option" "int option" "int option" "int option"
  | SetWindowPos hwnd int int int int
  | MoveWindow hwnd int int int int
  | SetParent hwnd "hwnd option"
  | SetFocus hwnd
  | ShowWindow "hwnd option"
  | DwmDarkMode hwnd bool
  | DefaultProc "hwnd option" message
  | ReloadSystemFonts
  | ForceRedraw
  | EnableNonClientDpiScaling hwnd
  | AllocConsole
  | Dup2Stdout nat
  | ResyncOutputStreams
  | CoInitialize
  | CoUninitialize
  | EntrypointArguments "8 word list list"
  | HandleTopLevelWindowProc hwnd message

record ViewController =
  vc_engine :: bool
  vc_view :: "hwnd option"
  vc_nextFrame :: bool

text \<open>
  \<open>wn_flutter\<close> is the dynamic type: virtual calls reach \<open>FlutterWindow\<close> until its destructor has run. The
  last component is the member of that class.
\<close>

record Win32Window =
  quit_on_close :: bool
  window_handle :: "hwnd option"
  child_content :: "hwnd option"
  wn_flutter :: bool
  flutter_controller :: "ViewController option"

text \<open>
  The process: its window objects, \<open>g_active_window_count\<close> and the registrar's flag; and what Windows keeps,
  the existing windows with their \<open>GWLP_USERDATA\<close>, the registered class and the quit message.
\<close>

record Runner =
  rn_objects :: "object_id \<Rightarrow> Win32Window option"
  rn_count :: int
  class_registered :: bool
  os_class :: bool
  os_windows :: "(hwnd \<times> object_id option) list"
  os_next :: hwnd
  os_quit :: bool
  os_calls :: "os_call list"

text \<open>
  The arguments. Whether the plugins keep a message may depend on everything that the program has called so
  far, every earlier consultation of the plugins included.
\<close>

record Host =
  host_client :: "hwnd option \<Rightarrow> rect"
  host_plugin :: "os_call list \<Rightarrow> message \<Rightarrow> bool"
  host_light_mode :: "32 word option"
  host_dpi :: nat
  host_user32 :: bool
  host_dpi_scaling :: bool
  host_console :: bool
  host_debugger :: bool
  host_allocates :: bool
  host_stdout_fails :: bool
  host_stderr_fails :: bool
  host_argv :: "16 word list list option"
  host_convert :: "16 word list \<Rightarrow> 8 word list option"

definition Runner_new :: Runner where
  "Runner_new = \<lparr>rn_objects = Map.empty, rn_count = 0, class_registered = False, os_class = False,
     os_windows = [], os_next = 1, os_quit = False, os_calls = []\<rparr>"

datatype fault = NullPointer | DanglingThis | StackExhausted

fun and_then :: "fault + 'a \<Rightarrow> ('a \<Rightarrow> fault + 'b) \<Rightarrow> fault + 'b" where
  "and_then (Inl e) f = Inl e"
| "and_then (Inr x) f = f x"

definition os_log :: "os_call \<Rightarrow> Runner \<Rightarrow> Runner" where
  "os_log c r = r\<lparr>os_calls := os_calls r @ [c]\<rparr>"

definition update_object :: "object_id \<Rightarrow> (Win32Window \<Rightarrow> Win32Window) \<Rightarrow> Runner \<Rightarrow> Runner" where
  "update_object i f r = r\<lparr>rn_objects := (rn_objects r)(i := map_option f (rn_objects r i))\<rparr>"

subsection \<open>The window class\<close>

text \<open>\<open>RegisterClass\<close> of a registered class fails and leaves it registered; the code does not look.\<close>

definition GetWindowClass :: "Runner \<Rightarrow> Runner" where
  "GetWindowClass r = (if class_registered r then r else r\<lparr>os_class := True, class_registered := True\<rparr>)"

text \<open>\<open>UnregisterClass\<close> fails while a window of the class exists.\<close>

definition UnregisterWindowClass :: "Runner \<Rightarrow> Runner" where
  "UnregisterWindowClass r =
     r\<lparr>os_class := os_class r \<and> os_windows r \<noteq> [], class_registered := False\<rparr>"

subsection \<open>Messages\<close>

definition UpdateTheme :: "Host \<Rightarrow> hwnd \<Rightarrow> Runner \<Rightarrow> Runner" where
  "UpdateTheme H w r =
     (case host_light_mode H of Some light_mode \<Rightarrow> os_log (DwmDarkMode w (light_mode = 0)) r | None \<Rightarrow> r)"

definition move_to_client :: "Host \<Rightarrow> hwnd \<Rightarrow> hwnd option \<Rightarrow> Runner \<Rightarrow> Runner" where
  "move_to_client H content w r =
     (case host_client H w of (x1, y1, x2, y2) \<Rightarrow>
        os_log (MoveWindow content x1 y1 (x2 - x1) (y2 - y1)) r)"

text \<open>Both classes: \<open>FlutterWindow\<close> drops its controller, the base class does nothing.\<close>

definition OnDestroy :: "object_id \<Rightarrow> Runner \<Rightarrow> Runner" where
  "OnDestroy i r =
     update_object i (\<lambda>w. if wn_flutter w then w\<lparr>flutter_controller := None\<rparr> else w) r"

text \<open>
  The functions that call each other through the operating system. Each takes the calls it makes as an
  argument, \<open>run\<close> closes the loop, and its number bounds the depth of the calls.
\<close>

datatype call =
    Destroy object_id
  | DestroyWindow hwnd
  | WndProc hwnd message
  | MessageHandler object_id hwnd message
  | DefWindowProc "hwnd option" message

type_synonym caller = "call \<Rightarrow> Runner \<Rightarrow> fault + Runner"

definition w32_Destroy :: "caller \<Rightarrow> object_id \<Rightarrow> Runner \<Rightarrow> fault + Runner" where
  "w32_Destroy run i r =
     (let r = OnDestroy i r in
      case rn_objects r i of
        None \<Rightarrow> Inl DanglingThis
      | Some w \<Rightarrow>
          and_then
            (case window_handle w of
               None \<Rightarrow> Inr r
             | Some h \<Rightarrow>
                 and_then (run (DestroyWindow h) r) (\<lambda>r.
                   Inr (update_object i (\<lambda>w. w\<lparr>window_handle := None\<rparr>) r)))
            (\<lambda>r. Inr (if rn_count r = 0 then UnregisterWindowClass r else r)))"

definition w32_WndProc :: "caller \<Rightarrow> hwnd \<Rightarrow> message \<Rightarrow> Runner \<Rightarrow> fault + Runner" where
  "w32_WndProc run h m r =
     (case map_of (os_windows r) h of
        None \<Rightarrow> Inr r
      | Some None \<Rightarrow> run (DefWindowProc (Some h) m) r
      | Some (Some i) \<Rightarrow> run (MessageHandler i h m) r)"

definition Win32Window_MessageHandler ::
  "Host \<Rightarrow> caller \<Rightarrow> object_id \<Rightarrow> Win32Window \<Rightarrow> hwnd \<Rightarrow> message \<Rightarrow> Runner \<Rightarrow> fault + Runner" where
  "Win32Window_MessageHandler H run i w h m r =
     (case m of
        WM_DESTROY \<Rightarrow>
          and_then (run (Destroy i) (update_object i (\<lambda>w. w\<lparr>window_handle := None\<rparr>) r)) (\<lambda>r.
            Inr (if quit_on_close w then r\<lparr>os_quit := True\<rparr> else r))
      | WM_DPICHANGED (x1, y1, x2, y2) \<Rightarrow> Inr (os_log (SetWindowPos h x1 y1 (x2 - x1) (y2 - y1)) r)
      | WM_SIZE \<Rightarrow>
          Inr (case child_content w of Some c \<Rightarrow> move_to_client H c (window_handle w) r | None \<Rightarrow> r)
      | WM_ACTIVATE \<Rightarrow> Inr (case child_content w of Some c \<Rightarrow> os_log (SetFocus c) r | None \<Rightarrow> r)
      | WM_DWMCOLORIZATIONCOLORCHANGED \<Rightarrow> Inr (UpdateTheme H h r)
      | _ \<Rightarrow> run (DefWindowProc (window_handle w) m) r)"

text \<open>\<open>HandleTopLevelWindowProc\<close> is code of Flutter: it may keep a message for a plugin.\<close>

definition FlutterWindow_MessageHandler ::
  "Host \<Rightarrow> caller \<Rightarrow> object_id \<Rightarrow> Win32Window \<Rightarrow> hwnd \<Rightarrow> message \<Rightarrow> Runner \<Rightarrow> fault + Runner" where
  "FlutterWindow_MessageHandler H run i w h m r =
     (let kept = flutter_controller w \<noteq> None \<and> host_plugin H (os_calls r) m;
          r = (if flutter_controller w \<noteq> None then os_log (HandleTopLevelWindowProc h m) r else r)
      in if kept then Inr r
      else if m = WM_FONTCHANGE then
        (case flutter_controller w of
           None \<Rightarrow> Inl NullPointer
         | Some c \<Rightarrow>
             if vc_engine c then Win32Window_MessageHandler H run i w h m (os_log ReloadSystemFonts r)
             else Inl NullPointer)
      else Win32Window_MessageHandler H run i w h m r)"

definition virtual_MessageHandler ::
  "Host \<Rightarrow> caller \<Rightarrow> object_id \<Rightarrow> hwnd \<Rightarrow> message \<Rightarrow> Runner \<Rightarrow> fault + Runner" where
  "virtual_MessageHandler H run i h m r =
     (case rn_objects r i of
        None \<Rightarrow> Inl DanglingThis
      | Some w \<Rightarrow>
          if wn_flutter w then FlutterWindow_MessageHandler H run i w h m r
          else Win32Window_MessageHandler H run i w h m r)"

text \<open>
  Two functions of Windows: a destroyed window is sent two messages before it ceases to exist, and the
  default reaction to \<open>WM_CLOSE\<close> is to destroy the window.
\<close>

definition os_DestroyWindow :: "caller \<Rightarrow> hwnd \<Rightarrow> Runner \<Rightarrow> fault + Runner" where
  "os_DestroyWindow run h r =
     (if map_of (os_windows r) h = None then Inr r
      else and_then (run (WndProc h WM_DESTROY) r) (\<lambda>r.
        and_then (run (WndProc h WM_NCDESTROY) r) (\<lambda>r.
          Inr (r\<lparr>os_windows := List.filter (\<lambda>e. fst e \<noteq> h) (os_windows r)\<rparr>))))"

definition os_DefWindowProc :: "caller \<Rightarrow> hwnd option \<Rightarrow> message \<Rightarrow> Runner \<Rightarrow> fault + Runner" where
  "os_DefWindowProc run h m r =
     (let r = os_log (DefaultProc h m) r in
      if m = WM_CLOSE then (case h of None \<Rightarrow> Inr r | Some w \<Rightarrow> run (DestroyWindow w) r) else Inr r)"

primrec run :: "Host \<Rightarrow> nat \<Rightarrow> caller" where
  "run H 0 c r = Inl StackExhausted"
| "run H (Suc n) c r =
     (case c of
        Destroy i \<Rightarrow> w32_Destroy (run H n) i r
      | DestroyWindow h \<Rightarrow> os_DestroyWindow (run H n) h r
      | WndProc h m \<Rightarrow> w32_WndProc (run H n) h m r
      | MessageHandler i h m \<Rightarrow> virtual_MessageHandler H (run H n) i h m r
      | DefWindowProc h m \<Rightarrow> os_DefWindowProc (run H n) h m r)"

text \<open>Depth at which no call is cut, for a call from outside.\<close>

definition kDepth :: nat where
  "kDepth = 9"

subsection \<open>Scaling\<close>

text \<open>\<open>Scale\<close>: a product of \<open>double\<close>, truncated; \<open>None\<close> is an undefined conversion.\<close>

definition Scale :: "int \<Rightarrow> flt \<Rightarrow> int option" where
  "Scale source scale_factor = f_to_signed 32 (f_scale binary64 (of_int source) scale_factor)"

definition scale_factor :: "nat \<Rightarrow> flt" where
  "scale_factor dpi = f_div binary64 (f_of_nat binary64 dpi) (Finite 96)"

subsection \<open>Creating and deleting windows\<close>

definition Win32Window_new :: "bool \<Rightarrow> object_id \<Rightarrow> Runner \<Rightarrow> Runner" where
  "Win32Window_new flutter i r =
     r\<lparr>rn_objects := (rn_objects r)(i \<mapsto> \<lparr>quit_on_close = False, window_handle = None, child_content = None,
         wn_flutter = flutter, flutter_controller = None\<rparr>),
       rn_count := rn_count r + 1\<rparr>"

definition SetQuitOnClose :: "object_id \<Rightarrow> bool \<Rightarrow> Runner \<Rightarrow> Runner" where
  "SetQuitOnClose i b r = update_object i (\<lambda>w. w\<lparr>quit_on_close := b\<rparr>) r"

definition Show :: "object_id \<Rightarrow> Runner \<Rightarrow> Runner" where
  "Show i r = (case rn_objects r i of Some w \<Rightarrow> os_log (ShowWindow (window_handle w)) r | None \<Rightarrow> r)"

definition SetChildContent :: "Host \<Rightarrow> object_id \<Rightarrow> hwnd \<Rightarrow> Runner \<Rightarrow> Runner" where
  "SetChildContent H i content r =
     (let r = update_object i (\<lambda>w. w\<lparr>child_content := Some content\<rparr>) r;
          h = (case rn_objects r i of Some w \<Rightarrow> window_handle w | None \<Rightarrow> None);
          r = os_log (SetParent content h) r;
          r = move_to_client H content h r
      in os_log (SetFocus content) r)"

text \<open>The engine and the native window of a new view controller are arguments.\<close>

definition OnCreate :: "Host \<Rightarrow> bool \<Rightarrow> hwnd option \<Rightarrow> object_id \<Rightarrow> Runner \<Rightarrow> bool \<times> Runner" where
  "OnCreate H engine view i r =
     (case rn_objects r i of
        None \<Rightarrow> (True, r)
      | Some w \<Rightarrow>
          if \<not> wn_flutter w then (True, r)
          else
            let r = update_object i (\<lambda>w. w\<lparr>flutter_controller :=
                      Some \<lparr>vc_engine = engine, vc_view = view, vc_nextFrame = False\<rparr>\<rparr>) r
            in case view of
                 None \<Rightarrow> (False, r)
               | Some v \<Rightarrow>
                   if \<not> engine then (False, r)
                   else
                     let r = SetChildContent H i v r;
                         r = update_object i (\<lambda>w. w\<lparr>flutter_controller :=
                               Some \<lparr>vc_engine = engine, vc_view = view, vc_nextFrame = True\<rparr>\<rparr>) r
                     in (True, os_log ForceRedraw r))"

text \<open>
  What \<open>CreateWindow\<close> does: it refuses at once, it gives up after \<open>WM_NCCREATE\<close>, when the window object
  already has the handle, or it succeeds.
\<close>

datatype creation = Refused | GivenUp | Created

definition EnableFullDpiSupportIfAvailable :: "Host \<Rightarrow> hwnd \<Rightarrow> Runner \<Rightarrow> Runner" where
  "EnableFullDpiSupportIfAvailable H w r =
     (if \<not> host_user32 H then r
      else if host_dpi_scaling H then os_log (EnableNonClientDpiScaling w) r else r)"

definition NcCreate :: "Host \<Rightarrow> object_id \<Rightarrow> hwnd \<Rightarrow> Runner \<Rightarrow> Runner" where
  "NcCreate H i h r =
     os_log (DefaultProc (Some h) (WM_OTHER 129))
       (update_object i (\<lambda>w. w\<lparr>window_handle := Some h\<rparr>)
         (EnableFullDpiSupportIfAvailable H h (r\<lparr>os_windows := (h, Some i) # os_windows r\<rparr>)))"

definition CreateWindow ::
  "Host \<Rightarrow> creation \<Rightarrow> object_id \<Rightarrow> Runner \<Rightarrow> fault + (hwnd option \<times> Runner)" where
  "CreateWindow H c i r =
     (let h = os_next r; r' = NcCreate H i h (r\<lparr>os_next := h + 1\<rparr>)
      in case c of
           Refused \<Rightarrow> Inr (None, r)
         | GivenUp \<Rightarrow>
             and_then (run H kDepth (WndProc h WM_NCDESTROY) r') (\<lambda>r.
               Inr (None, r\<lparr>os_windows := List.filter (\<lambda>e. fst e \<noteq> h) (os_windows r)\<rparr>))
         | Created \<Rightarrow>
             and_then (run H kDepth (WndProc h (WM_OTHER 131)) r') (\<lambda>r.
               and_then (run H kDepth (WndProc h (WM_OTHER 1)) r) (\<lambda>r. Inr (Some h, r))))"

text \<open>Points and sizes are unsigned, the scaled values signed.\<close>

definition scaled :: "Host \<Rightarrow> 32 word \<Rightarrow> int option" where
  "scaled H n = Scale (sint n) (scale_factor (host_dpi H))"

definition w32_Create ::
  "Host \<Rightarrow> string \<Rightarrow> 32 word \<times> 32 word \<Rightarrow> 32 word \<times> 32 word \<Rightarrow> creation \<Rightarrow> bool \<Rightarrow> hwnd option \<Rightarrow> object_id \<Rightarrow> Runner \<Rightarrow>
     fault + (bool \<times> Runner)" where
  "w32_Create H title origin extent c engine view i r =
     and_then (run H kDepth (Destroy i) r) (\<lambda>r.
       let r = GetWindowClass r;
           r = os_log (CreateWindowCall title (scaled H (fst origin)) (scaled H (snd origin))
                 (scaled H (fst extent)) (scaled H (snd extent))) r
       in and_then (CreateWindow H c i r) (\<lambda>(window, r).
            case window of
              None \<Rightarrow> Inr (False, r)
            | Some h \<Rightarrow> Inr (OnCreate H engine view i (UpdateTheme H h r))))"

text \<open>The engine calls back once, when it has drawn a frame.\<close>

definition NextFrame :: "object_id \<Rightarrow> Runner \<Rightarrow> Runner" where
  "NextFrame i r =
     (case rn_objects r i of
        None \<Rightarrow> r
      | Some w \<Rightarrow>
         (case flutter_controller w of
            None \<Rightarrow> r
          | Some c \<Rightarrow>
              if vc_nextFrame c
              then Show i (update_object i (\<lambda>w. w\<lparr>flutter_controller := Some (c\<lparr>vc_nextFrame := False\<rparr>)\<rparr>) r)
              else r))"

text \<open>
  The destructors: the members of \<open>FlutterWindow\<close> go first, then the object is a \<open>Win32Window\<close> while the
  destructor of the base class runs.
\<close>

definition Win32Window_delete :: "Host \<Rightarrow> object_id \<Rightarrow> Runner \<Rightarrow> fault + Runner" where
  "Win32Window_delete H i r =
     (let r = update_object i (\<lambda>w. w\<lparr>flutter_controller := None, wn_flutter := False\<rparr>) r;
          r = r\<lparr>rn_count := rn_count r - 1\<rparr>
      in and_then (run H kDepth (Destroy i) r) (\<lambda>r. Inr (r\<lparr>rn_objects := (rn_objects r)(i := None)\<rparr>)))"

subsection \<open>Command line\<close>

text \<open>
  \<open>Utf8FromUtf16\<close> and \<open>GetCommandLineArguments\<close> of \<open>utils.cpp\<close>. A text is its units before the terminating
  zero; \<open>None\<close> is a null pointer. \<open>convert\<close> is \<open>WideCharToMultiByte\<close> with \<open>WC_ERR_INVALID_CHARS\<close>: the bytes of
  a valid text, \<open>None\<close> when it fails, as it does for the empty text.
\<close>

definition kMaxUnicodeString :: nat where
  "kMaxUnicodeString = 32767"

definition Utf8FromUtf16 :: "(16 word list \<Rightarrow> 8 word list option) \<Rightarrow> 16 word list option \<Rightarrow> 8 word list" where
  "Utf8FromUtf16 convert utf16_string =
     (case utf16_string of
        None \<Rightarrow> []
      | Some s \<Rightarrow>
         (let input = take kMaxUnicodeString s;
              target_length = (case convert input of Some t \<Rightarrow> length t | None \<Rightarrow> 0)
          in if target_length = 0 then []
             else case convert input of Some t \<Rightarrow> t | None \<Rightarrow> []))"

text \<open>\<open>argv\<close> is the result of \<open>CommandLineToArgvW\<close>; the first argument is the name of the program.\<close>

definition GetCommandLineArguments ::
  "(16 word list \<Rightarrow> 8 word list option) \<Rightarrow> 16 word list list option \<Rightarrow> 8 word list list" where
  "GetCommandLineArguments convert argv =
     (case argv of
        None \<Rightarrow> []
      | Some args \<Rightarrow> map (\<lambda>a. Utf8FromUtf16 convert (Some a)) (drop 1 args))"

subsection \<open>The start of the program\<close>

text \<open>
  \<open>CreateAndAttachConsole\<close>: \<open>freopen_s\<close> reports a failure, and both descriptors are then made copies of
  the one of \<open>stdout\<close>.
\<close>

definition CreateAndAttachConsole :: "Host \<Rightarrow> os_call list" where
  "CreateAndAttachConsole H = AllocConsole #
     (if host_allocates H
      then (if host_stdout_fails H then [Dup2Stdout 1] else []) @
           (if host_stderr_fails H then [Dup2Stdout 2] else []) @ [ResyncOutputStreams]
      else [])"

text \<open>What happens before the window exists.\<close>

definition Runner_start :: "Host \<Rightarrow> Runner" where
  "Runner_start H = Runner_new\<lparr>os_calls :=
     (if \<not> host_console H \<and> host_debugger H then CreateAndAttachConsole H else []) @
     [CoInitialize, EntrypointArguments (GetCommandLineArguments (host_convert H) (host_argv H))]\<rparr>"

subsection \<open>The program\<close>

text \<open>
  The messages that \<open>GetMessage\<close> delivers before the queue is empty; then \<open>WM_QUIT\<close> ends the loop, if it
  was posted, or the loop waits.
\<close>

fun pump :: "Host \<Rightarrow> (hwnd \<times> message) list \<Rightarrow> Runner \<Rightarrow> fault + Runner" where
  "pump H [] r = Inr r"
| "pump H ((h, m) # ms) r = and_then (run H kDepth (WndProc h m) r) (pump H ms)"

definition EXIT_SUCCESS :: int where "EXIT_SUCCESS = 0"
definition EXIT_FAILURE :: int where "EXIT_FAILURE = 1"

text \<open>The result is \<open>None\<close> while the loop waits. The only window is the object 0.\<close>

definition wWinMain ::
  "Host \<Rightarrow> creation \<Rightarrow> bool \<Rightarrow> hwnd option \<Rightarrow> (hwnd \<times> message) list \<Rightarrow> fault + (int option \<times> Runner)" where
  "wWinMain H c engine view ms =
     and_then (w32_Create H ''veyralink'' (10, 10) (1280, 720) c engine view 0 (Win32Window_new True 0 (Runner_start H))) (\<lambda>(ok, r).
       if \<not> ok then and_then (Win32Window_delete H 0 r) (\<lambda>r. Inr (Some EXIT_FAILURE, r))
       else and_then (pump H ms (SetQuitOnClose 0 True r)) (\<lambda>r.
         if os_quit r then and_then (Win32Window_delete H 0 (os_log CoUninitialize r)) (\<lambda>r. Inr (Some EXIT_SUCCESS, r))
         else Inr (None, r)))"

end
