(* ===== verification/Window_Lifetime.thy ===== *)
theory Window_Lifetime
  imports Native_Window
begin

text \<open>
  What holds of the window objects of \<open>Native_Window\<close> while Windows calls them back: every existing window
  belongs to a live object that knows it, the count of objects and the registration of the class are right,
  and no message finds a missing engine. The lemmas follow the calls from the inside out.
\<close>

subsection \<open>Windows and their objects\<close>

definition owner :: "Runner \<Rightarrow> hwnd \<Rightarrow> object_id option option" where
  "owner r = map_of (os_windows r)"

definition windows_ok :: "Runner \<Rightarrow> bool" where
  "windows_ok r \<longleftrightarrow>
     (\<forall>h u. owner r h = Some u \<longrightarrow> (\<exists>i w. u = Some i \<and> rn_objects r i = Some w \<and> window_handle w = Some h)) \<and>
     (\<forall>i w h. rn_objects r i = Some w \<and> window_handle w = Some h \<longrightarrow>
        h < os_next r \<and> (owner r h = None \<or> owner r h = Some (Some i)))"

lemma windows_ok_cong:
  "rn_objects r' = rn_objects r \<Longrightarrow> os_windows r' = os_windows r \<Longrightarrow> os_next r' = os_next r \<Longrightarrow> windows_ok r' \<longleftrightarrow> windows_ok r"
  by (simp only: windows_ok_def owner_def)

lemma window_object:
  "windows_ok r \<Longrightarrow> owner r h = Some u \<Longrightarrow> \<exists>i w. u = Some i \<and> rn_objects r i = Some w \<and> window_handle w = Some h"
  unfolding windows_ok_def by blast

lemma object_window:
  "windows_ok r \<Longrightarrow> rn_objects r i = Some w \<Longrightarrow> window_handle w = Some h \<Longrightarrow>
     h < os_next r \<and> (owner r h = None \<or> owner r h = Some (Some i))"
  unfolding windows_ok_def by blast

text \<open>What the destruction of a window may change of its object.\<close>

definition like :: "Win32Window \<Rightarrow> Win32Window \<Rightarrow> bool" where
  "like w w' \<longleftrightarrow> wn_flutter w' = wn_flutter w \<and> quit_on_close w' = quit_on_close w \<and>
     (window_handle w' = window_handle w \<or> window_handle w' = None)"

text \<open>What it may change of the process, apart from the list of windows.\<close>

definition touched :: "object_id \<Rightarrow> Runner \<Rightarrow> Runner \<Rightarrow> bool" where
  "touched i r r' \<longleftrightarrow>
     rn_count r' = rn_count r \<and> os_next r' = os_next r \<and> os_class r' = os_class r \<and>
     (rn_count r \<noteq> 0 \<longrightarrow> class_registered r' = class_registered r) \<and>
     (class_registered r' \<longrightarrow> class_registered r) \<and> (os_quit r \<longrightarrow> os_quit r') \<and>
     (\<forall>j. j \<noteq> i \<longrightarrow> rn_objects r' j = rn_objects r j) \<and>
     (\<exists>w w'. rn_objects r i = Some w \<and> rn_objects r' i = Some w' \<and> like w w')"

lemma like_refl [simp]: "like w w"
  by (simp add: like_def)

lemma like_trans: "like a b \<Longrightarrow> like b c \<Longrightarrow> like a c"
  by (auto simp: like_def)

lemma touched_refl: "rn_objects r i = Some w \<Longrightarrow> touched i r r"
  by (auto simp: touched_def)

lemma touched_trans: "touched i a b \<Longrightarrow> touched i b c \<Longrightarrow> touched i a c"
  unfolding touched_def by (auto dest: like_trans)

lemma owner_filter [simp]:
  "map_of (List.filter (\<lambda>e. fst e \<noteq> h) l) = (map_of l)(h := None)"
  by (rule ext, induction l) auto

lemma os_log_simps [simp]:
  "rn_objects (os_log c r) = rn_objects r" "rn_count (os_log c r) = rn_count r" "os_windows (os_log c r) = os_windows r"
  "os_next (os_log c r) = os_next r" "os_quit (os_log c r) = os_quit r" "os_class (os_log c r) = os_class r"
  "class_registered (os_log c r) = class_registered r"
  by (simp_all add: os_log_def)

lemma update_object_simps [simp]:
  "rn_objects (update_object i f r) = (rn_objects r)(i := map_option f (rn_objects r i))"
  "rn_count (update_object i f r) = rn_count r" "os_windows (update_object i f r) = os_windows r"
  "os_next (update_object i f r) = os_next r" "os_quit (update_object i f r) = os_quit r"
  "os_class (update_object i f r) = os_class r" "class_registered (update_object i f r) = class_registered r"
  by (simp_all add: update_object_def)

lemma touched_log: "rn_objects r i = Some w \<Longrightarrow> touched i r (os_log c r)"
  by (auto simp: touched_def)

lemma run_unfold:
  "run H (Suc n) (Destroy i) r = w32_Destroy (run H n) i r"
  "run H (Suc n) (DestroyWindow h) r = os_DestroyWindow (run H n) h r"
  "run H (Suc n) (WndProc h m) r = w32_WndProc (run H n) h m r"
  "run H (Suc n) (MessageHandler i h m) r = virtual_MessageHandler H (run H n) i h m r"
  "run H (Suc n) (DefWindowProc u m) r = os_DefWindowProc (run H n) u m r"
  by simp_all

declare run.simps [simp del]

subsection \<open>Steps that change nothing\<close>

text \<open>A step that leaves the windows and objects alone.\<close>

definition idle :: "Runner \<Rightarrow> Runner \<Rightarrow> bool" where
  "idle r r' \<longleftrightarrow> rn_objects r' = rn_objects r \<and> os_windows r' = os_windows r \<and> rn_count r' = rn_count r \<and>
     os_next r' = os_next r \<and> os_quit r' = os_quit r \<and> class_registered r' = class_registered r \<and> os_class r' = os_class r"

lemma idle_os_log [simp]: "idle r (os_log c r)" "idle r (UpdateTheme H h r)" "idle r (move_to_client H u v r)"
  by (auto simp: idle_def UpdateTheme_def move_to_client_def split: option.split prod.split)

lemma idle_refl [simp]: "idle r r" by (simp add: idle_def)

lemma idle_trans: "idle a b \<Longrightarrow> idle b c \<Longrightarrow> idle a c" by (simp add: idle_def)

lemma idle_ok: "idle r r' \<Longrightarrow> windows_ok r \<Longrightarrow> windows_ok r'"
  using windows_ok_cong [of r' r] by (simp add: idle_def)

lemma idle_touched: "rn_objects r i = Some w \<Longrightarrow> idle r r' \<Longrightarrow> touched i r r'"
  by (auto simp: idle_def touched_def)

text \<open>A plugin keeps the message at some point of some run.\<close>

definition keeps :: "Host \<Rightarrow> message \<Rightarrow> bool" where
  "keeps H m \<longleftrightarrow> (\<exists>calls. host_plugin H calls m)"

text \<open>A message reaches the base class, or a plugin keeps it.\<close>

lemma handler_cases:
  assumes "rn_objects r i = Some w" and "m \<noteq> WM_FONTCHANGE"
  obtains (base) r' where "idle r r'" "virtual_MessageHandler H f i h m r = Win32Window_MessageHandler H f i w h m r'"
  | (kept) r' where "idle r r'" "keeps H m" "virtual_MessageHandler H f i h m r = Inr r'"
proof -
  let ?r = "if flutter_controller w \<noteq> None then os_log (HandleTopLevelWindowProc h m) r else r"
  have idle: "idle r ?r" by simp
  show thesis
  proof (cases "wn_flutter w")
    case False
    with assms have "virtual_MessageHandler H f i h m r = Win32Window_MessageHandler H f i w h m r"
      by (simp add: virtual_MessageHandler_def)
    with base [of r] show thesis by simp
  next
    case True
    note eq = assms True virtual_MessageHandler_def FlutterWindow_MessageHandler_def Let_def
    show thesis
    proof (cases "flutter_controller w \<noteq> None \<and> host_plugin H (os_calls r) m")
      case True
      then have "keeps H m" by (auto simp: keeps_def)
      moreover have "virtual_MessageHandler H f i h m r = Inr ?r" using eq True by simp
      ultimately show thesis using kept idle by blast
    next
      case False
      then have "virtual_MessageHandler H f i h m r = Win32Window_MessageHandler H f i w h m ?r"
        using eq by auto
      with base idle show thesis by blast
    qed
  qed
qed

subsection \<open>Destroying a window\<close>

lemma OnDestroy_touched:
  "rn_objects r i = Some w \<Longrightarrow> touched i r (OnDestroy i r) \<and> os_windows (OnDestroy i r) = os_windows r"
  by (auto simp: touched_def OnDestroy_def like_def)

lemma OnDestroy_object:
  "rn_objects r i = Some w \<Longrightarrow>
     rn_objects (OnDestroy i r) = (rn_objects r)(i \<mapsto> if wn_flutter w then w\<lparr>flutter_controller := None\<rparr> else w)"
  by (simp add: OnDestroy_def)

text \<open>Without a window there is nothing to destroy.\<close>

lemma destroy_without_window:
  assumes w: "rn_objects r i = Some w" "window_handle w = None" and "os_windows r \<noteq> []"
  shows "\<exists>r'. run H (Suc n) (Destroy i) r = Inr r' \<and> touched i r r' \<and> os_windows r' = os_windows r"
proof -
  let ?r = "OnDestroy i r"
  have "\<exists>w'. rn_objects ?r i = Some w' \<and> window_handle w' = None" using w by (simp add: OnDestroy_object)
  then have "run H (Suc n) (Destroy i) r = Inr (if rn_count ?r = 0 then UnregisterWindowClass ?r else ?r)"
    by (auto simp: run_unfold w32_Destroy_def)
  moreover have "touched i r ?r" "os_windows ?r = os_windows r" using OnDestroy_touched [OF w(1)] by auto
  ultimately show ?thesis using assms(3)
    by (auto simp: touched_def UnregisterWindowClass_def)
qed

lemma base_destroy_message:
  assumes w: "rn_objects r i = Some w" and "os_windows r \<noteq> []"
  shows "\<exists>r'. Win32Window_MessageHandler H (run H (Suc n)) i w h WM_DESTROY r = Inr r' \<and> touched i r r' \<and>
    os_windows r' = os_windows r \<and> (quit_on_close w \<longrightarrow> os_quit r')"
proof -
  let ?r = "update_object i (\<lambda>w. w\<lparr>window_handle := None\<rparr>) r"
  have "rn_objects ?r i = Some (w\<lparr>window_handle := None\<rparr>)" using w by simp
  moreover have "os_windows ?r \<noteq> []" using assms(2) by simp
  ultimately obtain r1 where r1: "run H (Suc n) (Destroy i) ?r = Inr r1" "touched i ?r r1" "os_windows r1 = os_windows ?r"
    using destroy_without_window [of ?r i "w\<lparr>window_handle := None\<rparr>" H n] by auto
  have "touched i r ?r" using w by (auto simp: touched_def like_def)
  then have t: "touched i r r1" using r1(2) by (rule touched_trans)
  then have "touched i r (r1\<lparr>os_quit := True\<rparr>)" by (auto simp: touched_def)
  with t show ?thesis using w r1 by (simp add: Win32Window_MessageHandler_def)
qed

lemma destroy_message:
  assumes w: "rn_objects r i = Some w" and ne: "os_windows r \<noteq> []"
  shows "\<exists>r'. run H (Suc (Suc n)) (MessageHandler i h WM_DESTROY) r = Inr r' \<and> touched i r r' \<and>
    os_windows r' = os_windows r \<and> (quit_on_close w \<and> \<not> keeps H WM_DESTROY \<longrightarrow> os_quit r')"
proof (cases rule: handler_cases [OF w, of WM_DESTROY H "run H (Suc n)" h])
  case (2 r')
  have "rn_objects r' i = Some w" "os_windows r' \<noteq> []" "os_windows r' = os_windows r" "touched i r r'"
    using w ne 2(1) idle_touched [OF w 2(1)] by (simp_all add: idle_def)
  with base_destroy_message [of r' i w H n h] 2(2) show ?thesis
    using touched_trans [of i r r'] by (fastforce simp: run_unfold)
next
  case (3 r')
  with idle_touched [OF w] show ?thesis by (auto simp: run_unfold idle_def)
qed simp

lemma nc_destroy_message:
  assumes w: "rn_objects r i = Some w"
  shows "\<exists>r'. run H (Suc (Suc n)) (MessageHandler i h WM_NCDESTROY) r = Inr r' \<and> touched i r r' \<and>
    os_windows r' = os_windows r"
proof (cases rule: handler_cases [OF w, of WM_NCDESTROY H "run H (Suc n)" h])
  case (2 r')
  then have "idle r (os_log (DefaultProc (window_handle w) WM_NCDESTROY) r')" using idle_trans idle_os_log(1) by blast
  with idle_touched [OF w this] 2(2) show ?thesis
    by (auto simp: run_unfold Win32Window_MessageHandler_def os_DefWindowProc_def idle_def Let_def)
next
  case (3 r')
  with idle_touched [OF w] show ?thesis by (auto simp: run_unfold idle_def)
qed simp

lemma WndProc_owner:
  "owner r h = Some (Some i) \<Longrightarrow> run H (Suc n) (WndProc h m) r = run H n (MessageHandler i h m) r"
  by (simp add: run_unfold w32_WndProc_def owner_def)

text \<open>The window that \<open>DestroyWindow\<close> names is gone, its object is not.\<close>

lemma destroy_window:
  assumes o: "owner r h = Some (Some i)" and w: "rn_objects r i = Some w"
  shows "\<exists>r'. run H (Suc (Suc (Suc (Suc n)))) (DestroyWindow h) r = Inr r' \<and> touched i r r' \<and>
    os_windows r' = List.filter (\<lambda>e. fst e \<noteq> h) (os_windows r) \<and>
    (quit_on_close w \<and> \<not> keeps H WM_DESTROY \<longrightarrow> os_quit r')"
proof -
  have ne: "os_windows r \<noteq> []" using o by (auto simp: owner_def)
  obtain r1 where r1: "run H (Suc (Suc n)) (MessageHandler i h WM_DESTROY) r = Inr r1" "touched i r r1"
    "os_windows r1 = os_windows r" "quit_on_close w \<and> \<not> keeps H WM_DESTROY \<longrightarrow> os_quit r1"
    using destroy_message [OF w ne] by blast
  obtain w1 where w1: "rn_objects r1 i = Some w1" using r1(2) by (auto simp: touched_def)
  obtain r2 where r2: "run H (Suc (Suc n)) (MessageHandler i h WM_NCDESTROY) r1 = Inr r2" "touched i r1 r2"
    "os_windows r2 = os_windows r1"
    using nc_destroy_message [OF w1] by blast
  have o1: "owner r1 h = Some (Some i)" using o r1(3) by (simp add: owner_def)
  have "quit_on_close w \<and> \<not> keeps H WM_DESTROY \<longrightarrow> os_quit r2" using r1(4) r2(2) by (auto simp: touched_def)
  moreover have "touched i r (r2\<lparr>os_windows := List.filter (\<lambda>e. fst e \<noteq> h) (os_windows r)\<rparr>)"
    using touched_trans [OF r1(2) r2(2)] by (auto simp: touched_def)
  ultimately show ?thesis
    using o r1 r2 WndProc_owner [OF o] WndProc_owner [OF o1]
    by (simp add: run_unfold(2) os_DestroyWindow_def owner_def del: owner_filter)
qed

lemma destroy_missing_window: "owner r h = None \<Longrightarrow> run H (Suc n) (DestroyWindow h) r = Inr r"
  by (simp add: run_unfold os_DestroyWindow_def owner_def)

text \<open>What \<open>Destroy\<close> leaves: the object has no window, and without any object the class goes.\<close>

definition released :: "object_id \<Rightarrow> Runner \<Rightarrow> Runner \<Rightarrow> bool" where
  "released i r r' \<longleftrightarrow>
     rn_count r' = rn_count r \<and> os_next r' = os_next r \<and> (os_quit r \<longrightarrow> os_quit r') \<and>
     (\<forall>h. owner r' h = (if owner r h = Some (Some i) then None else owner r h)) \<and>
     (if rn_count r = 0 then \<not> class_registered r' \<and> (os_windows r' = [] \<longrightarrow> \<not> os_class r')
      else class_registered r' = class_registered r \<and> os_class r' = os_class r) \<and>
     (\<forall>j. j \<noteq> i \<longrightarrow> rn_objects r' j = rn_objects r j) \<and>
     (\<exists>w w'. rn_objects r i = Some w \<and> rn_objects r' i = Some w' \<and> like w w' \<and> window_handle w' = None)"

definition settle :: "Runner \<Rightarrow> Runner" where
  "settle r = (if rn_count r = 0 then UnregisterWindowClass r else r)"

lemma released_settle:
  assumes "touched i r r'" "\<forall>h. owner r' h = (if owner r h = Some (Some i) then None else owner r h)"
    "\<exists>w. rn_objects r' i = Some w \<and> window_handle w = None"
  shows "released i r (settle r')"
  using assms by (auto simp: released_def settle_def touched_def UnregisterWindowClass_def owner_def)

lemma owner_of_none: "windows_ok r \<Longrightarrow> rn_objects r i = Some w \<Longrightarrow> window_handle w = None \<Longrightarrow> owner r h \<noteq> Some (Some i)"
  using window_object by fastforce

lemma owner_unique:
  "windows_ok r \<Longrightarrow> rn_objects r i = Some w \<Longrightarrow> window_handle w = Some h \<Longrightarrow> owner r h' = Some (Some i) \<longleftrightarrow> h' = h \<and> owner r h \<noteq> None"
  unfolding windows_ok_def by (metis option.inject option.simps(3))

lemma destroy_object:
  assumes ok: "windows_ok r" and w: "rn_objects r i = Some w"
  shows "\<exists>r'. run H (Suc (Suc (Suc (Suc (Suc n))))) (Destroy i) r = Inr r' \<and> released i r r'"
proof -
  let ?r = "OnDestroy i r"
  have t: "touched i r ?r" and os: "os_windows ?r = os_windows r" using OnDestroy_touched [OF w] by auto
  then have own: "owner ?r = owner r" by (simp add: owner_def)
  obtain v where v: "rn_objects ?r i = Some v" "window_handle v = window_handle w"
    using w by (auto simp: OnDestroy_object)
  show ?thesis
  proof (cases "window_handle w")
    case None
    then have "run H (Suc (Suc (Suc (Suc (Suc n))))) (Destroy i) r = Inr (settle ?r)"
      using v by (simp add: run_unfold(1) w32_Destroy_def settle_def)
    moreover have "released i r (settle ?r)"
      using t v None owner_of_none [OF ok w None] own by (intro released_settle) simp_all
    ultimately show ?thesis by blast
  next
    case (Some h)
    obtain r1 where r1: "run H (Suc (Suc (Suc (Suc n)))) (DestroyWindow h) ?r = Inr r1" "touched i ?r r1"
      "owner r1 = (owner r)(h := None)"
    proof (cases "owner r h")
      case None
      then show ?thesis using that destroy_missing_window [of ?r h H] touched_refl [OF v(1)]
        by (metis own fun_upd_idem_iff)
    next
      case (Some u)
      then have "owner ?r h = Some (Some i)" using object_window [OF ok w \<open>window_handle w = Some h\<close>] own by simp
      from destroy_window [OF this v(1), of H n] show ?thesis
        using that by (auto simp: owner_def os)
    qed
    obtain u where u: "rn_objects r1 i = Some u" using r1(2) by (auto simp: touched_def)
    let ?r1 = "update_object i (\<lambda>w. w\<lparr>window_handle := None\<rparr>) r1"
    have "touched i r1 ?r1" using u by (auto simp: touched_def like_def)
    then have "touched i r ?r1" using touched_trans t r1(2) by blast
    moreover have "owner ?r1 = (owner r)(h := None)" using r1(3) by (simp add: owner_def)
    ultimately have "released i r (settle ?r1)"
      using u owner_unique [OF ok w Some] by (intro released_settle) auto
    moreover have "run H (Suc (Suc (Suc (Suc (Suc n))))) (Destroy i) r = Inr (settle ?r1)"
      using v Some r1(1) by (simp add: run_unfold(1) w32_Destroy_def settle_def)
    ultimately show ?thesis by blast
  qed
qed

lemma released_ok: "windows_ok r \<Longrightarrow> released i r r' \<Longrightarrow> windows_ok r'"
  unfolding windows_ok_def released_def
  by (intro conjI allI impI; elim conjE exE) (metis option.inject option.simps(3))+

subsection \<open>Other messages\<close>

definition has_engine :: "Win32Window \<Rightarrow> bool" where
  "has_engine w \<longleftrightarrow> (\<exists>c. flutter_controller w = Some c \<and> vc_engine c)"

lemma default_idle:
  "m \<noteq> WM_CLOSE \<Longrightarrow> run H (Suc n) (DefWindowProc u m) r = Inr (os_log (DefaultProc u m) r)"
  by (simp add: run_unfold os_DefWindowProc_def Let_def)

lemma base_message_idle:
  assumes "m \<notin> {WM_CLOSE, WM_DESTROY}"
  shows "\<exists>r'. Win32Window_MessageHandler H (run H (Suc n)) i w h m r = Inr r' \<and> idle r r'"
  using assms
  by (cases m) (auto simp: Win32Window_MessageHandler_def default_idle split: option.split)

lemma flutter_message_idle:
  assumes "m \<notin> {WM_CLOSE, WM_DESTROY}" "m = WM_FONTCHANGE \<Longrightarrow> has_engine w"
  shows "\<exists>r'. FlutterWindow_MessageHandler H (run H (Suc n)) i w h m r = Inr r' \<and> idle r r'"
proof -
  let ?r = "if flutter_controller w \<noteq> None then os_log (HandleTopLevelWindowProc h m) r else r"
  have idle: "idle r ?r" by simp
  obtain r0 where r0: "Win32Window_MessageHandler H (run H (Suc n)) i w h m ?r = Inr r0" "idle ?r r0"
    using base_message_idle [OF assms(1), of H n i w h ?r] by blast
  obtain r1 where r1: "Win32Window_MessageHandler H (run H (Suc n)) i w h m (os_log ReloadSystemFonts ?r) = Inr r1"
    "idle (os_log ReloadSystemFonts ?r) r1"
    using base_message_idle [OF assms(1), of H n i w h "os_log ReloadSystemFonts ?r"] by blast
  have "idle r r0" "idle r r1" using idle_trans [OF idle] idle_trans r0(2) r1(2) idle_os_log(1) by blast+
  show ?thesis
  proof (cases "m = WM_FONTCHANGE")
    case True
    then have "has_engine w" by (rule assms(2))
    then obtain c where c: "flutter_controller w = Some c" "vc_engine c" by (auto simp: has_engine_def)
    show ?thesis using True c r1(1) \<open>idle r r1\<close> by (auto simp: FlutterWindow_MessageHandler_def Let_def)
  next
    case False
    show ?thesis using False r0(1) \<open>idle r r0\<close> idle by (auto simp: FlutterWindow_MessageHandler_def Let_def)
  qed
qed

lemma touched_ok:
  assumes ok: "windows_ok r" and t: "touched i r r'" and own: "owner r' = (owner r)(h := None)"
    and h: "owner r h = Some (Some i)"
  shows "windows_ok r'"
proof -
  obtain w w' where w: "rn_objects r i = Some w" "rn_objects r' i = Some w'" "like w w'"
    and other: "\<And>j. j \<noteq> i \<Longrightarrow> rn_objects r' j = rn_objects r j" and nxt: "os_next r' = os_next r"
    using t by (auto simp: touched_def)
  have wh: "window_handle w = Some h" using window_object [OF ok h] w(1) by auto
  have "\<exists>j v. u = Some j \<and> rn_objects r' j = Some v \<and> window_handle v = Some k" if k: "owner r' k = Some u" for k u
  proof -
    have "k \<noteq> h" "owner r k = Some u" using k own by (auto split: if_splits)
    then obtain j v where "u = Some j" "rn_objects r j = Some v" "window_handle v = Some k" using window_object [OF ok] by blast
    moreover have "j \<noteq> i" using calculation w(1) wh \<open>k \<noteq> h\<close> by auto
    ultimately show ?thesis using other by auto
  qed
  moreover have "k < os_next r' \<and> (owner r' k = None \<or> owner r' k = Some (Some j))"
    if "rn_objects r' j = Some v" "window_handle v = Some k" for j v k
  proof (cases "j = i")
    case True
    then have "window_handle w = Some k" using that w by (auto simp: like_def)
    then show ?thesis using object_window [OF ok w(1)] wh own nxt by auto
  next
    case False
    then show ?thesis using object_window [OF ok, of j v k] that other own nxt by auto
  qed
  ultimately show ?thesis unfolding windows_ok_def by blast
qed

lemma base_close_message:
  assumes ok: "windows_ok r" and o: "owner r h = Some (Some i)" and w: "rn_objects r i = Some w"
  shows "\<exists>r'. Win32Window_MessageHandler H (run H (Suc (Suc (Suc (Suc (Suc n)))))) i w h WM_CLOSE r = Inr r' \<and>
    windows_ok r' \<and> touched i r r' \<and> owner r' = (owner r)(h := None) \<and>
    (quit_on_close w \<and> \<not> keeps H WM_DESTROY \<longrightarrow> os_quit r')"
proof -
  let ?r = "os_log (DefaultProc (Some h) WM_CLOSE) r"
  have wh: "window_handle w = Some h" using window_object [OF ok o] w by auto
  have "owner ?r h = Some (Some i)" "rn_objects ?r i = Some w" using o w by (simp_all add: owner_def)
  then obtain r' where r': "run H (Suc (Suc (Suc (Suc n)))) (DestroyWindow h) ?r = Inr r'" "touched i ?r r'"
    "os_windows r' = List.filter (\<lambda>e. fst e \<noteq> h) (os_windows ?r)"
    "quit_on_close w \<and> \<not> keeps H WM_DESTROY \<longrightarrow> os_quit r'"
    using destroy_window by blast
  then have "run H (Suc (Suc (Suc (Suc (Suc n))))) (DefWindowProc (Some h) WM_CLOSE) r = Inr r'"
    by (simp add: run_unfold(5) os_DefWindowProc_def Let_def)
  then have h: "Win32Window_MessageHandler H (run H (Suc (Suc (Suc (Suc (Suc n)))))) i w h WM_CLOSE r = Inr r'"
    using wh by (simp add: Win32Window_MessageHandler_def)
  have t: "touched i r r'" using touched_trans [OF touched_log [OF w]] r'(2) by blast
  have own: "owner r' = (owner r)(h := None)" using r'(3) by (simp add: owner_def)
  have "windows_ok r'" using ok t own o by (rule touched_ok)
  with h t own r'(4) show ?thesis by blast
qed

lemma close_message:
  assumes ok: "windows_ok r" and o: "owner r h = Some (Some i)" and w: "rn_objects r i = Some w"
  shows "\<exists>r'. run H (Suc (Suc (Suc (Suc (Suc (Suc n)))))) (MessageHandler i h WM_CLOSE) r = Inr r' \<and> windows_ok r' \<and>
    (idle r r' \<or> touched i r r' \<and> owner r' = (owner r)(h := None) \<and>
       (quit_on_close w \<and> \<not> keeps H WM_DESTROY \<longrightarrow> os_quit r')) \<and>
    (quit_on_close w \<and> \<not> keeps H WM_DESTROY \<and> \<not> keeps H WM_CLOSE \<longrightarrow> os_quit r')"
proof (cases rule: handler_cases [OF w, of WM_CLOSE H "run H (Suc (Suc (Suc (Suc (Suc n)))))" h])
  case (2 r0)
  have same: "windows_ok r0" "owner r0 = owner r" "rn_objects r0 i = Some w"
    using idle_ok [OF 2(1) ok] 2(1) w by (simp_all add: idle_def owner_def)
  then obtain r' where r': "Win32Window_MessageHandler H (run H (Suc (Suc (Suc (Suc (Suc n)))))) i w h WM_CLOSE r0 = Inr r'"
    "windows_ok r'" "touched i r0 r'" "owner r' = (owner r)(h := None)"
    "quit_on_close w \<and> \<not> keeps H WM_DESTROY \<longrightarrow> os_quit r'"
    using base_close_message [of r0 h i w H n] o by auto
  have "touched i r r'" using touched_trans [OF idle_touched [OF w 2(1)] r'(3)] .
  with r' 2(2) show ?thesis by (auto simp: run_unfold(4))
next
  case (3 r')
  with idle_ok [OF 3(1) ok] show ?thesis by (auto simp: run_unfold(4))
qed simp

text \<open>Any message that Windows posts to a window.\<close>

definition posted :: "message \<Rightarrow> bool" where
  "posted m \<longleftrightarrow> m \<noteq> WM_DESTROY \<and> m \<noteq> WM_NCDESTROY"

definition missing_engine :: "Runner \<Rightarrow> hwnd \<Rightarrow> bool" where
  "missing_engine r h \<longleftrightarrow>
     (\<exists>i w. owner r h = Some (Some i) \<and> rn_objects r i = Some w \<and> wn_flutter w \<and> \<not> has_engine w)"

lemma kDepth_Suc: "kDepth = Suc (Suc (Suc (Suc (Suc (Suc (Suc (Suc (Suc 0))))))))"
  by (simp add: kDepth_def)

lemma other_message:
  assumes ok: "windows_ok r" and m: "m \<notin> {WM_CLOSE, WM_DESTROY}" and e: "m = WM_FONTCHANGE \<Longrightarrow> \<not> missing_engine r h"
  shows "\<exists>r'. run H kDepth (WndProc h m) r = Inr r' \<and> idle r r'"
proof (cases "owner r h")
  case None
  then show ?thesis by (simp add: kDepth_Suc run_unfold(3) w32_WndProc_def owner_def)
next
  case (Some u)
  then obtain i w where w: "u = Some i" "rn_objects r i = Some w" "window_handle w = Some h"
    using window_object [OF ok] by blast
  let ?k = "Suc (Suc (Suc (Suc (Suc (Suc 0)))))"
  have "\<exists>r'. FlutterWindow_MessageHandler H (run H (Suc ?k)) i w h m r = Inr r' \<and> idle r r'" if "wn_flutter w"
    using e w(2) Some w(1) that by (intro flutter_message_idle m) (auto simp: missing_engine_def)
  moreover have "\<exists>r'. Win32Window_MessageHandler H (run H (Suc ?k)) i w h m r = Inr r' \<and> idle r r'"
    using m by (rule base_message_idle)
  ultimately show ?thesis
    using w(2) Some w(1) by (simp add: kDepth_Suc WndProc_owner run_unfold(4) virtual_MessageHandler_def)
qed

lemma fontchange_without_engine:
  assumes "missing_engine r h"
  shows "run H kDepth (WndProc h WM_FONTCHANGE) r = Inl NullPointer \<or>
    (\<exists>r'. run H kDepth (WndProc h WM_FONTCHANGE) r = Inr r' \<and> idle r r')"
  using assms by (auto simp: missing_engine_def has_engine_def kDepth_Suc WndProc_owner run_unfold(4)
      virtual_MessageHandler_def FlutterWindow_MessageHandler_def Let_def split: option.split)

end
