(* ===== verification/Runner_Program.thy ===== *)
theory Runner_Program
  imports Window_Lifetime
begin

text \<open>
  Creating and deleting the windows of \<open>Native_Window\<close>, runs of several windows, and the program \<open>wWinMain\<close> of
  \<open>apps/veyralink/windows/runner/main.cpp\<close>: it never faults, it ends when its window is closed, and it leaves
  no window, object or class behind.
\<close>

subsection \<open>Creating\<close>

text \<open>Steps that leave the windows alone and change at most the controller and the child of an object.\<close>

definition identity :: "Win32Window \<Rightarrow> bool \<times> bool \<times> hwnd option" where
  "identity w = (wn_flutter w, quit_on_close w, window_handle w)"

definition soft :: "object_id \<Rightarrow> Runner \<Rightarrow> Runner \<Rightarrow> bool" where
  "soft i r r' \<longleftrightarrow>
     owner r' = owner r \<and> os_next r' = os_next r \<and> rn_count r' = rn_count r \<and> os_quit r' = os_quit r \<and>
     class_registered r' = class_registered r \<and> os_class r' = os_class r \<and> rn_objects r i \<noteq> None \<and>
     (\<forall>j. j \<noteq> i \<longrightarrow> rn_objects r' j = rn_objects r j) \<and>
     map_option identity (rn_objects r' i) = map_option identity (rn_objects r i)"

lemma soft_trans: "soft i a b \<Longrightarrow> soft i b c \<Longrightarrow> soft i a c"
  by (simp add: soft_def)

lemma idle_soft: "idle r r' \<Longrightarrow> rn_objects r i = Some w \<Longrightarrow> soft i r r'"
  by (simp add: idle_def soft_def owner_def)

lemma update_soft:
  "rn_objects r i = Some w \<Longrightarrow> identity (f w) = identity w \<Longrightarrow> soft i r (update_object i f r)"
  by (simp add: soft_def owner_def)

lemma soft_objects:
  assumes "soft i r r'"
  shows "map_option identity (rn_objects r' j) = map_option identity (rn_objects r j)"
  using assms by (cases "j = i") (simp_all add: soft_def)

lemma identity_object:
  assumes "map_option identity a = map_option identity b" "a = Some w"
  obtains w' where "b = Some w'" "wn_flutter w' = wn_flutter w" "quit_on_close w' = quit_on_close w"
    "window_handle w' = window_handle w"
  using assms by (cases b) (auto simp: identity_def)

text \<open>Objects that keep their handles keep the invariant; objects without a handle may come and go.\<close>

lemma windows_ok_objects:
  assumes ok: "windows_ok r" and eq: "owner r' = owner r" "os_next r' = os_next r"
    and fwd: "\<And>j w h. rn_objects r j = Some w \<Longrightarrow> window_handle w = Some h \<Longrightarrow>
      \<exists>w'. rn_objects r' j = Some w' \<and> window_handle w' = Some h"
    and bwd: "\<And>j w h. rn_objects r' j = Some w \<Longrightarrow> window_handle w = Some h \<Longrightarrow>
      \<exists>w'. rn_objects r j = Some w' \<and> window_handle w' = Some h"
  shows "windows_ok r'"
proof -
  have "\<exists>j v. u = Some j \<and> rn_objects r' j = Some v \<and> window_handle v = Some k" if k: "owner r k = Some u" for k u
    using window_object [OF ok k] fwd by blast
  moreover have "k < os_next r \<and> (owner r k = None \<or> owner r k = Some (Some j))"
    if v: "rn_objects r' j = Some v" "window_handle v = Some k" for j v k
    using bwd [OF v] object_window [OF ok] by blast
  ultimately show ?thesis unfolding windows_ok_def eq by blast
qed

lemma soft_ok:
  assumes ok: "windows_ok r" and s: "soft i r r'"
  shows "windows_ok r'"
proof (rule windows_ok_objects [OF ok])
  show "owner r' = owner r" "os_next r' = os_next r" using s by (simp_all add: soft_def)
  show "\<exists>w'. rn_objects r' j = Some w' \<and> window_handle w' = Some h"
    if "rn_objects r j = Some w" "window_handle w = Some h" for j w h
    using soft_objects [OF s, of j] that by (metis identity_object)
  show "\<exists>w'. rn_objects r j = Some w' \<and> window_handle w' = Some h"
    if "rn_objects r' j = Some w" "window_handle w = Some h" for j w h
    using soft_objects [OF s, of j] that by (metis identity_object)
qed

lemma soft_object: "soft i r r' \<Longrightarrow> \<exists>w. rn_objects r' i = Some w"
  by (cases "rn_objects r' i") (auto simp: soft_def)

lemma SetChildContent_soft:
  assumes "rn_objects r i = Some w"
  shows "soft i r (SetChildContent H i v r)"
    and "\<exists>w'. rn_objects (SetChildContent H i v r) i = Some w' \<and> flutter_controller w' = flutter_controller w"
proof -
  let ?r = "update_object i (\<lambda>w. w\<lparr>child_content := Some v\<rparr>) r"
  have s: "soft i r ?r" using assms by (intro update_soft) (simp_all add: identity_def)
  have w: "rn_objects ?r i = Some (w\<lparr>child_content := Some v\<rparr>)" using assms by simp
  have "idle ?r (SetChildContent H i v r)"
    using w unfolding SetChildContent_def Let_def
    by (auto simp: idle_def move_to_client_def split: prod.split)
  then have "soft i ?r (SetChildContent H i v r)" "rn_objects (SetChildContent H i v r) = rn_objects ?r"
    using w by (auto intro: idle_soft simp: idle_def)
  with s w show "soft i r (SetChildContent H i v r)"
    "\<exists>w'. rn_objects (SetChildContent H i v r) i = Some w' \<and> flutter_controller w' = flutter_controller w"
    by (auto intro: soft_trans)
qed

lemma OnCreate_outcome:
  assumes w: "rn_objects r i = Some w"
  shows "\<exists>ok r'. OnCreate H e v i r = (ok, r') \<and> soft i r r' \<and> (ok \<longleftrightarrow> (wn_flutter w \<longrightarrow> e \<and> v \<noteq> None)) \<and>
    (ok \<and> wn_flutter w \<longrightarrow> (\<exists>w'. rn_objects r' i = Some w' \<and> has_engine w'))"
proof (cases "wn_flutter w")
  case False
  then have "OnCreate H e v i r = (True, r)" using w by (simp add: OnCreate_def)
  then show ?thesis using False idle_soft [OF idle_refl w] by blast
next
  case True
  let ?f = "\<lambda>b w. w\<lparr>flutter_controller := Some \<lparr>vc_engine = e, vc_view = v, vc_nextFrame = b\<rparr>\<rparr>"
  let ?r1 = "update_object i (?f False) r"
  have s1: "soft i r ?r1" using w by (intro update_soft) (simp_all add: identity_def)
  have w1: "rn_objects ?r1 i = Some (?f False w)" using w by simp
  show ?thesis
  proof (cases "e \<and> v \<noteq> None")
    case False
    then have "OnCreate H e v i r = (False, ?r1)" using w True by (cases v) (simp_all add: OnCreate_def Let_def)
    then show ?thesis using s1 False True by blast
  next
    case e: True
    then obtain u where u: "v = Some u" by auto
    let ?r2 = "SetChildContent H i u ?r1" and ?r3 = "update_object i (?f True) (SetChildContent H i u ?r1)"
    obtain w2 where w2: "rn_objects ?r2 i = Some w2" using SetChildContent_soft(2) [OF w1] by blast
    have "soft i ?r2 ?r3" using w2 by (intro update_soft) (simp_all add: identity_def)
    moreover have "soft i ?r3 (os_log ForceRedraw ?r3)" using w2 by (intro idle_soft) simp_all
    ultimately have "soft i ?r2 (os_log ForceRedraw ?r3)" by (rule soft_trans)
    then have "soft i r (os_log ForceRedraw ?r3)"
      by (rule soft_trans [OF soft_trans [OF s1 SetChildContent_soft(1) [OF w1]]])
    moreover have "OnCreate H e v i r = (True, os_log ForceRedraw ?r3)"
      using w True e u by (simp add: OnCreate_def Let_def)
    moreover have "rn_objects (os_log ForceRedraw ?r3) i = Some (?f True w2)" using w2 by simp
    moreover have "has_engine (?f True w2)" using e by (simp add: has_engine_def)
    ultimately show ?thesis using e True by blast
  qed
qed

text \<open>A new handle belongs to no window and to no object.\<close>

lemma fresh_handle: "windows_ok r \<Longrightarrow> os_next r \<le> h \<Longrightarrow> owner r h = None"
  using window_object [of r h] object_window [of r] by (cases "owner r h") (auto dest: leD)

lemma NcCreate_outcome:
  fixes H :: Host
  assumes ok: "windows_ok r" and w: "rn_objects r i = Some w" "window_handle w = None"
  defines "h \<equiv> os_next r" and "r' \<equiv> NcCreate H i (os_next r) (r\<lparr>os_next := os_next r + 1\<rparr>)"
  shows "windows_ok r'" "owner r' = (owner r)(h \<mapsto> Some i)" "rn_objects r' i = Some (w\<lparr>window_handle := Some h\<rparr>)"
    "\<And>j. j \<noteq> i \<Longrightarrow> rn_objects r' j = rn_objects r j" "os_next r' = h + 1" "rn_count r' = rn_count r" "os_quit r' = os_quit r"
    "class_registered r' = class_registered r" "os_class r' = os_class r"
proof -
  show own: "owner r' = (owner r)(h \<mapsto> Some i)" and obj: "rn_objects r' i = Some (w\<lparr>window_handle := Some h\<rparr>)"
    and other: "\<And>j. j \<noteq> i \<Longrightarrow> rn_objects r' j = rn_objects r j" and nxt: "os_next r' = h + 1"
    and "rn_count r' = rn_count r" "os_quit r' = os_quit r" "class_registered r' = class_registered r" "os_class r' = os_class r"
    using w by (auto simp: r'_def h_def NcCreate_def EnableFullDpiSupportIfAvailable_def owner_def)
  have "\<exists>j v. u = Some j \<and> rn_objects r' j = Some v \<and> window_handle v = Some k" if k: "owner r' k = Some u" for k u
  proof (cases "k = h")
    case True
    then show ?thesis using k own obj by auto
  next
    case False
    then have "owner r k = Some u" using k own by simp
    then obtain j v where "u = Some j" "rn_objects r j = Some v" "window_handle v = Some k"
      using window_object [OF ok] by blast
    moreover have "j \<noteq> i" using calculation w by auto
    ultimately show ?thesis using other by auto
  qed
  moreover have "k < os_next r' \<and> (owner r' k = None \<or> owner r' k = Some (Some j))"
    if "rn_objects r' j = Some v" "window_handle v = Some k" for j v k
  proof (cases "j = i")
    case True
    then show ?thesis using that obj own nxt by auto
  next
    case False
    then have "k < h \<and> (owner r k = None \<or> owner r k = Some (Some j))"
      using that other object_window [OF ok] by (auto simp: h_def)
    then show ?thesis using own nxt by auto
  qed
  ultimately show "windows_ok r'" unfolding windows_ok_def by blast
qed

text \<open>What creating a window may change: one object and its windows.\<close>

definition kind :: "Win32Window \<Rightarrow> bool \<times> bool" where
  "kind w = (wn_flutter w, quit_on_close w)"

definition only :: "object_id \<Rightarrow> Runner \<Rightarrow> Runner \<Rightarrow> bool" where
  "only i r r' \<longleftrightarrow>
     rn_count r' = rn_count r \<and> (os_quit r \<longrightarrow> os_quit r') \<and> rn_objects r i \<noteq> None \<and>
     (\<forall>h j. j \<noteq> i \<longrightarrow> owner r' h = Some (Some j) \<longrightarrow> owner r h = Some (Some j)) \<and>
     (\<forall>j. j \<noteq> i \<longrightarrow> rn_objects r' j = rn_objects r j) \<and>
     map_option kind (rn_objects r' i) = map_option kind (rn_objects r i)"

lemma only_trans: "only i a b \<Longrightarrow> only i b c \<Longrightarrow> only i a c"
  by (simp add: only_def)

lemma released_only: "released i r r' \<Longrightarrow> only i r r'"
  by (auto simp: released_def only_def like_def kind_def)

lemma soft_only: "soft i r r' \<Longrightarrow> only i r r'"
  by (cases "rn_objects r i"; cases "rn_objects r' i") (auto simp: soft_def only_def identity_def kind_def)

lemma touched_only: "touched i r r' \<Longrightarrow> owner r' = (owner r)(h := None) \<Longrightarrow> only i r r'"
  by (auto simp: touched_def only_def like_def kind_def split: if_splits)

text \<open>One attempt at a window, behind \<open>Destroy\<close> and \<open>GetWindowClass\<close>.\<close>

lemma CreateWindow_outcome:
  assumes ok: "windows_ok r" and w: "rn_objects r i = Some w" "window_handle w = None" and n: "rn_count r \<noteq> 0"
  shows "\<exists>u r'. CreateWindow H c i r = Inr (u, r') \<and> windows_ok r' \<and> only i r r' \<and>
    class_registered r' = class_registered r \<and> os_class r' = os_class r \<and>
    u = (if c = Created then Some (os_next r) else None) \<and> (c = Created \<longrightarrow> owner r' (os_next r) = Some (Some i))"
proof -
  let ?h = "os_next r" and ?r = "NcCreate H i (os_next r) (r\<lparr>os_next := os_next r + 1\<rparr>)"
  note nc = NcCreate_outcome [where H = H, OF ok w]
  have o: "owner ?r ?h = Some (Some i)" using nc(2) by simp
  have on: "only i r ?r" using nc w by (auto simp: only_def kind_def split: if_splits)
  show ?thesis
  proof (cases c)
    case Refused
    then show ?thesis using ok w by (simp add: CreateWindow_def only_def)
  next
    case GivenUp
    obtain r1 where r1: "run H (Suc (Suc (Suc (Suc (Suc (Suc (Suc (Suc 0)))))))) (MessageHandler i ?h WM_NCDESTROY) ?r = Inr r1"
      "touched i ?r r1" "os_windows r1 = os_windows ?r"
      using nc_destroy_message [OF nc(3)] by blast
    let ?r2 = "r1\<lparr>os_windows := List.filter (\<lambda>e. fst e \<noteq> ?h) (os_windows r1)\<rparr>"
    have own: "owner ?r2 = (owner ?r)(?h := None)" using r1(3) by (simp add: owner_def)
    have t: "touched i ?r ?r2" using r1(2) by (simp add: touched_def)
    have "windows_ok ?r2" using nc(1) t own o by (rule touched_ok)
    moreover have "only i r ?r2" using only_trans [OF on touched_only [OF t own]] .
    moreover have "class_registered ?r2 = class_registered r" "os_class ?r2 = os_class r"
      using t nc(6,8,9) n by (simp_all add: touched_def)
    moreover have "CreateWindow H c i r = Inr (None, ?r2)"
      using r1(1) GivenUp WndProc_owner [OF o] by (simp add: CreateWindow_def Let_def kDepth_Suc)
    ultimately show ?thesis using GivenUp by simp
  next
    case Created
    obtain r1 where r1: "run H kDepth (WndProc ?h (WM_OTHER 131)) ?r = Inr r1" "idle ?r r1"
      using other_message [OF nc(1)] by blast
    obtain r2 where r2: "run H kDepth (WndProc ?h (WM_OTHER 1)) r1 = Inr r2" "idle r1 r2"
      using other_message [OF idle_ok [OF r1(2) nc(1)]] by blast
    have i: "idle ?r r2" using r1(2) r2(2) by (rule idle_trans)
    then have "only i r r2" using only_trans [OF on soft_only [OF idle_soft [OF i nc(3)]]] by blast
    moreover have "CreateWindow H c i r = Inr (Some ?h, r2)"
      using r1(1) r2(1) Created by (simp add: CreateWindow_def Let_def)
    ultimately show ?thesis
      using Created i idle_ok [OF i nc(1)] nc(8,9) o by (simp add: idle_def owner_def)
  qed
qed

lemma create_outcome:
  assumes ok: "windows_ok r" and w: "rn_objects r i = Some w" and n: "rn_count r \<noteq> 0" and c: "os_class r = class_registered r"
  shows "\<exists>b r'. w32_Create H title origin extent c e v i r = Inr (b, r') \<and> windows_ok r' \<and> only i r r' \<and> class_registered r' \<and> os_class r' \<and>
    (b \<longleftrightarrow> c = Created \<and> (wn_flutter w \<longrightarrow> e \<and> v \<noteq> None)) \<and>
    (b \<longrightarrow> owner r' (os_next r) = Some (Some i) \<and> (wn_flutter w \<longrightarrow> (\<exists>w'. rn_objects r' i = Some w' \<and> has_engine w')))"
proof -
  obtain r1 where r1: "run H kDepth (Destroy i) r = Inr r1" "released i r r1"
    using destroy_object [OF ok w] unfolding kDepth_Suc by blast
  obtain w1 where w1: "rn_objects r1 i = Some w1" "window_handle w1 = None" "wn_flutter w1 = wn_flutter w"
    using r1(2) w by (auto simp: released_def like_def)
  let ?r0 = "GetWindowClass r1"
  let ?r = "os_log (CreateWindowCall title (scaled H (fst origin)) (scaled H (snd origin))
    (scaled H (fst extent)) (scaled H (snd extent))) ?r0"
  have flags: "class_registered ?r" "os_class ?r" using r1(2) n c by (auto simp: GetWindowClass_def released_def)
  have same: "rn_objects ?r = rn_objects r1" "os_windows ?r = os_windows r1" "rn_count ?r = rn_count r1"
    "os_next ?r = os_next r1" "os_quit ?r = os_quit r1"
    by (simp_all add: GetWindowClass_def)
  have ok1: "windows_ok ?r" using released_ok [OF ok r1(2)] windows_ok_cong [OF same(1,2,4)] by simp
  have on1: "only i r ?r" using released_only [OF r1(2)] same by (simp add: only_def owner_def)
  have nxt: "os_next ?r = os_next r" using r1(2) same by (simp add: released_def)
  obtain u r2 where r2: "CreateWindow H c i ?r = Inr (u, r2)" "windows_ok r2" "only i ?r r2" "class_registered r2" "os_class r2"
    "u = (if c = Created then Some (os_next r) else None)" "c = Created \<longrightarrow> owner r2 (os_next r) = Some (Some i)"
    using CreateWindow_outcome [OF ok1, of i w1 H c] w1 same flags nxt r1(2) n by (auto simp: released_def)
  have on2: "only i r r2" using on1 r2(3) by (rule only_trans)
  show ?thesis
  proof (cases "c = Created")
    case False
    then have "w32_Create H title origin extent c e v i r = Inr (False, r2)" using r1(1) r2(1,6) by (simp add: w32_Create_def)
    with False r2 on2 show ?thesis by (intro exI [of _ False] exI [of _ r2]) simp
  next
    case True
    let ?r3 = "UpdateTheme H (os_next r) r2"
    obtain w2 where w2: "rn_objects r2 i = Some w2" "wn_flutter w2 = wn_flutter w"
      using on2 w by (cases "rn_objects r2 i") (auto simp: only_def kind_def)
    have i: "idle r2 ?r3" by simp
    then have "rn_objects ?r3 i = Some w2" using w2 by (simp add: idle_def)
    then obtain b r4 where r4: "OnCreate H e v i ?r3 = (b, r4)" "soft i ?r3 r4" "b \<longleftrightarrow> (wn_flutter w2 \<longrightarrow> e \<and> v \<noteq> None)"
      "b \<and> wn_flutter w2 \<longrightarrow> (\<exists>w'. rn_objects r4 i = Some w' \<and> has_engine w')"
      using OnCreate_outcome [of ?r3 i w2 H e v] by blast
    have s: "soft i r2 r4" using soft_trans [OF idle_soft [OF i w2(1)] r4(2)] .
    have "w32_Create H title origin extent c e v i r = Inr (b, r4)" using r1(1) r2(1,6) r4(1) True by (simp add: w32_Create_def)
    moreover have "windows_ok r4" using r2(2) s by (rule soft_ok)
    moreover have "only i r r4" using only_trans [OF on2 soft_only [OF s]] .
    moreover have "class_registered r4" "os_class r4" "owner r4 (os_next r) = Some (Some i)"
      using s r2(4,5,7) True by (auto simp: soft_def)
    ultimately show ?thesis using r4(3,4) w2(2) True by auto
  qed
qed

subsection \<open>Deleting\<close>

definition live :: "Runner \<Rightarrow> object_id set" where
  "live r = dom (rn_objects r)"

text \<open>The invariant between calls: \<open>g_active_window_count\<close> counts the objects, and the class is registered only
  while there are objects.\<close>

definition runner_ok :: "Runner \<Rightarrow> bool" where
  "runner_ok r \<longleftrightarrow> windows_ok r \<and> finite (live r) \<and> rn_count r = int (card (live r)) \<and>
     os_class r = class_registered r \<and> (rn_count r = 0 \<longrightarrow> \<not> os_class r)"

lemma runner_okI:
  "windows_ok r \<Longrightarrow> finite (live r) \<Longrightarrow> rn_count r = int (card (live r)) \<Longrightarrow> os_class r = class_registered r \<Longrightarrow>
     (rn_count r = 0 \<Longrightarrow> \<not> os_class r) \<Longrightarrow> runner_ok r"
  by (simp only: runner_ok_def) blast

lemma runner_okD:
  assumes "runner_ok r"
  shows "windows_ok r" "finite (live r)" "rn_count r = int (card (live r))" "os_class r = class_registered r"
    "rn_count r = 0 \<Longrightarrow> \<not> os_class r"
  using assms unfolding runner_ok_def by blast+

lemma runner_ok_count: "runner_ok r \<Longrightarrow> rn_objects r i = Some w \<Longrightarrow> rn_count r \<noteq> 0"
  by (auto simp: runner_ok_def live_def card_eq_0_iff)

lemma no_owner_no_windows: "(\<And>h. owner r h = None) \<Longrightarrow> os_windows r = []"
proof (rule ccontr)
  assume none: "\<And>h. owner r h = None" and "os_windows r \<noteq> []"
  then obtain e es where "os_windows r = e # es" by (cases "os_windows r") auto
  then have "owner r (fst e) = Some (snd e)" by (simp add: owner_def)
  with none show False by simp
qed

lemma delete_outcome:
  assumes ok: "runner_ok r" and w: "rn_objects r i = Some w"
  shows "\<exists>r'. Win32Window_delete H i r = Inr r' \<and> runner_ok r' \<and> live r' = live r - {i} \<and>
    (\<forall>j. j \<noteq> i \<longrightarrow> rn_objects r' j = rn_objects r j) \<and> (\<forall>h. owner r' h = Some (Some i) \<or> owner r' h \<noteq> owner r h \<longrightarrow> owner r' h = None)"
proof -
  let ?r0 = "update_object i (\<lambda>w. w\<lparr>flutter_controller := None, wn_flutter := False\<rparr>) r"
  let ?r = "?r0\<lparr>rn_count := rn_count ?r0 - 1\<rparr>"
  have obj: "rn_objects ?r i = Some (w\<lparr>flutter_controller := None, wn_flutter := False\<rparr>)" using w by simp
  have "windows_ok r" using ok by (simp add: runner_ok_def)
  then have "windows_ok ?r0"
    by (rule windows_ok_objects) (use w in \<open>auto simp: owner_def split: if_splits\<close>)
  then have wok: "windows_ok ?r" using windows_ok_cong [of ?r ?r0] by simp
  obtain r1 where r1: "run H kDepth (Destroy i) ?r = Inr r1" "released i ?r r1"
    using destroy_object [OF wok obj] unfolding kDepth_Suc by blast
  let ?r' = "r1\<lparr>rn_objects := (rn_objects r1)(i := None)\<rparr>"
  have objs: "rn_objects ?r' = (rn_objects r)(i := None)" using r1(2) by (auto simp: released_def)
  have own: "owner ?r' h = (if owner r h = Some (Some i) then None else owner r h)" for h
    using r1(2) by (simp add: released_def owner_def)
  have lv: "live ?r' = live r - {i}" using objs by (simp add: live_def)
  have fin: "finite (live r)" "i \<in> live r" using ok w by (auto simp: runner_ok_def live_def)
  have cnt: "rn_count ?r' = int (card (live ?r'))"
  proof -
    have "0 < card (live r)" using fin card_gt_0_iff by blast
    moreover have "rn_count r1 = rn_count r - 1" using r1(2) by (simp add: released_def)
    ultimately show ?thesis using ok fin by (simp add: runner_ok_def lv of_nat_diff)
  qed
  have wok': "windows_ok ?r'"
    by (rule windows_ok_objects [OF released_ok [OF wok r1(2)]])
      (use r1(2) in \<open>auto simp: owner_def released_def split: if_splits\<close>)
  have "os_windows ?r' = []" if "rn_count ?r' = 0"
  proof (rule no_owner_no_windows)
    have "card (live r - {i}) = 0" using that cnt lv by simp
    then have "live r - {i} = {}" using fin(1) by (metis card_0_eq finite_Diff)
    then have "live ?r' = {}" by (simp only: lv)
    then have "rn_objects ?r' j = None" for j unfolding live_def by (metis domIff empty_iff)
    then show "owner ?r' h = None" for h
      using window_object [OF wok', of h] by (cases "owner ?r' h") (auto simp del: fun_upd_apply)
  qed
  then have "os_class ?r' = class_registered ?r' \<and> (rn_count ?r' = 0 \<longrightarrow> \<not> os_class ?r')"
    using r1(2) ok by (auto simp: released_def runner_ok_def split: if_splits)
  then have "runner_ok ?r'" using wok' cnt fin(1) unfolding lv [symmetric]
    by (intro runner_okI) (auto simp: lv)
  moreover have "Win32Window_delete H i r = Inr ?r'" using r1(1) by (simp add: Win32Window_delete_def Let_def)
  ultimately show ?thesis using lv objs own by auto
qed

lemma new_outcome:
  assumes ok: "runner_ok r" and i: "rn_objects r i = None"
  shows "windows_ok (Win32Window_new f i r)" "rn_count (Win32Window_new f i r) = int (card (live (Win32Window_new f i r)))"
    "live (Win32Window_new f i r) = insert i (live r)" "rn_count (Win32Window_new f i r) \<noteq> 0"
proof -
  have fin: "finite (live r)" "i \<notin> live r" using ok i by (auto simp: runner_ok_def live_def)
  show lv: "live (Win32Window_new f i r) = insert i (live r)" by (simp add: Win32Window_new_def live_def)
  show cnt: "rn_count (Win32Window_new f i r) = int (card (live (Win32Window_new f i r)))"
    using ok fin lv by (simp add: runner_ok_def Win32Window_new_def)
  show "rn_count (Win32Window_new f i r) \<noteq> 0" using cnt lv fin by simp
  have wok: "windows_ok r" using ok by (simp add: runner_ok_def)
  then show "windows_ok (Win32Window_new f i r)"
    by (rule windows_ok_objects) (use i in \<open>auto simp: owner_def Win32Window_new_def split: if_splits\<close>)
qed

subsection \<open>Runs of several windows\<close>

text \<open>What clients and Windows may do; a client only uses objects it has.\<close>

datatype window_op =
    New bool object_id
  | Create string "32 word \<times> 32 word" "32 word \<times> 32 word" creation bool "hwnd option" object_id
  | Close object_id
  | Delete object_id
  | QuitOnClose bool object_id
  | Post hwnd message
  | Frame object_id

fun window_step :: "Host \<Rightarrow> window_op \<Rightarrow> Runner \<Rightarrow> fault + Runner" where
  "window_step H (New f i) r = Inr (if rn_objects r i = None then Win32Window_new f i r else r)"
| "window_step H (Create title origin extent c e v i) r =
     (if rn_objects r i = None then Inr r else and_then (w32_Create H title origin extent c e v i r) (\<lambda>x. Inr (snd x)))"
| "window_step H (Close i) r = (if rn_objects r i = None then Inr r else run H kDepth (Destroy i) r)"
| "window_step H (Delete i) r = (if rn_objects r i = None then Inr r else Win32Window_delete H i r)"
| "window_step H (QuitOnClose b i) r = Inr (SetQuitOnClose i b r)"
| "window_step H (Post h m) r = run H kDepth (WndProc h m) r"
| "window_step H (Frame i) r = Inr (NextFrame i r)"

fun window_run :: "Host \<Rightarrow> window_op list \<Rightarrow> Runner \<Rightarrow> fault + Runner" where
  "window_run H [] r = Inr r"
| "window_run H (x # xs) r = and_then (window_step H x r) (window_run H xs)"

text \<open>An object is made before the class is registered, so the invariant holds again after \<open>Create\<close> or \<open>Destroy\<close>.\<close>

definition op_posted :: "window_op \<Rightarrow> bool" where
  "op_posted x \<longleftrightarrow> (case x of Post h m \<Rightarrow> posted m | _ \<Rightarrow> True)"

lemma runner_ok_only:
  assumes "runner_ok r" "rn_objects r i = Some w" "windows_ok r'" "rn_count r' = rn_count r"
    "os_class r' = class_registered r'" "\<And>j. j \<noteq> i \<Longrightarrow> rn_objects r' j = rn_objects r j" "rn_objects r' i \<noteq> None"
  shows "runner_ok r'"
proof -
  have "rn_objects r' j = None \<longleftrightarrow> rn_objects r j = None" for j using assms(2,6,7) by (cases "j = i") auto
  then have "live r' = live r" by (simp add: live_def dom_def)
  then show ?thesis using assms runner_ok_count [OF assms(1,2)] by (simp add: runner_ok_def)
qed

lemma idle_runner_ok: "idle r r' \<Longrightarrow> runner_ok r \<Longrightarrow> runner_ok r'"
proof -
  assume i: "idle r r'" and ok: "runner_ok r"
  have "windows_ok r'" using idle_ok [OF i] ok by (simp add: runner_ok_def)
  moreover have "live r' = live r" "rn_count r' = rn_count r" "os_class r' = os_class r" "class_registered r' = class_registered r"
    using i by (simp_all add: idle_def live_def)
  ultimately show ?thesis using ok unfolding runner_ok_def by (elim conjE, intro conjI) simp_all
qed

lemma create_step:
  assumes ok: "runner_ok r" and w: "rn_objects r i = Some w"
  shows "\<exists>r'. window_step H (Create title origin extent c e v i) r = Inr r' \<and> runner_ok r'"
proof -
  obtain b r' where r': "w32_Create H title origin extent c e v i r = Inr (b, r')" "windows_ok r'" "only i r r'"
    "class_registered r'" "os_class r'"
    using create_outcome [OF runner_okD(1) [OF ok] w runner_ok_count [OF ok w] runner_okD(4) [OF ok], of H title origin extent c e v]
    by (elim exE conjE) (rule that)
  then have "runner_ok r'" using ok w by (intro runner_ok_only [of r i w r']) (simp_all add: only_def, auto)
  then show ?thesis using w r'(1) by simp
qed

lemma close_step:
  assumes ok: "runner_ok r" and w: "rn_objects r i = Some w"
  shows "\<exists>r'. window_step H (Close i) r = Inr r' \<and> runner_ok r'"
proof -
  obtain r' where r': "run H kDepth (Destroy i) r = Inr r'" "released i r r'"
    using destroy_object [OF runner_okD(1) [OF ok] w] unfolding kDepth_Suc by blast
  then have "runner_ok r'"
    using ok w runner_okD(4) [OF ok] runner_ok_count [OF ok w] released_ok [OF runner_okD(1) [OF ok]]
    by (intro runner_ok_only [of r i w r']) (auto simp: released_def)
  then show ?thesis using w r'(1) by simp
qed

lemma quit_step:
  assumes ok: "runner_ok r"
  shows "runner_ok (SetQuitOnClose i b r)"
proof (cases "rn_objects r i")
  case None
  then have "rn_objects (SetQuitOnClose i b r) = rn_objects r"
    by (simp add: SetQuitOnClose_def fun_upd_idem)
  then have "idle r (SetQuitOnClose i b r)" by (simp add: idle_def SetQuitOnClose_def)
  then show ?thesis using ok by (rule idle_runner_ok)
next
  case (Some w)
  have obj: "rn_objects (SetQuitOnClose i b r) = (rn_objects r)(i \<mapsto> w\<lparr>quit_on_close := b\<rparr>)"
    and same: "owner (SetQuitOnClose i b r) = owner r" "os_next (SetQuitOnClose i b r) = os_next r"
    "rn_count (SetQuitOnClose i b r) = rn_count r" "os_class (SetQuitOnClose i b r) = os_class r"
    "class_registered (SetQuitOnClose i b r) = class_registered r"
    using Some by (simp_all add: SetQuitOnClose_def owner_def)
  have "windows_ok (SetQuitOnClose i b r)"
    by (rule windows_ok_objects [OF runner_okD(1) [OF ok] same(1,2)])
      (use Some in \<open>auto simp: obj split: if_splits\<close>)
  then show ?thesis
    by (rule runner_ok_only [OF ok Some]) (simp_all add: obj same runner_okD(4) [OF ok])
qed

lemma frame_step:
  assumes ok: "runner_ok r"
  shows "runner_ok (NextFrame i r)"
proof (cases "rn_objects r i")
  case None
  then show ?thesis using ok by (simp add: NextFrame_def)
next
  case (Some w)
  show ?thesis
  proof (cases "flutter_controller w")
    case None
    then show ?thesis using ok Some by (simp add: NextFrame_def)
  next
    case (Some c)
    let ?r = "update_object i (\<lambda>w. w\<lparr>flutter_controller := Some (c\<lparr>vc_nextFrame := False\<rparr>)\<rparr>) r"
    have w: "rn_objects r i = Some w" by fact
    have s: "soft i r ?r" using w by (intro update_soft) (simp_all add: identity_def)
    moreover have "soft i ?r (Show i ?r)" using w by (intro idle_soft) (simp_all add: Show_def)
    ultimately have t: "soft i r (Show i ?r)" by (rule soft_trans)
    have "rn_objects (Show i ?r) i \<noteq> None" using soft_object [OF t] by simp
    then have "runner_ok (Show i ?r)"
      using t soft_ok [OF runner_okD(1) [OF ok] t] runner_okD(4) [OF ok]
      by (intro runner_ok_only [OF ok w]) (simp_all add: soft_def)
    then show ?thesis using ok w Some by (simp add: NextFrame_def)
  qed
qed

lemma fontchange_step:
  assumes "missing_engine r h" and "runner_ok r"
  shows "run H kDepth (WndProc h WM_FONTCHANGE) r = Inl NullPointer \<or>
    (\<exists>r'. run H kDepth (WndProc h WM_FONTCHANGE) r = Inr r' \<and> runner_ok r')"
  using fontchange_without_engine [OF assms(1), of H] idle_runner_ok [OF _ assms(2)] by blast

lemma close_message_step:
  assumes ok: "runner_ok r"
  shows "\<exists>r'. run H kDepth (WndProc h WM_CLOSE) r = Inr r' \<and> runner_ok r'"
proof (cases "owner r h")
  case None
  then have "run H kDepth (WndProc h WM_CLOSE) r = Inr r" by (simp add: kDepth_Suc run_unfold(3) w32_WndProc_def owner_def)
  then show ?thesis using ok by simp
next
  case (Some u)
  then obtain i w where u: "owner r h = Some (Some i)" and w: "rn_objects r i = Some w"
    using window_object [OF runner_okD(1) [OF ok]] by blast
  obtain r' where r': "run H (Suc (Suc (Suc (Suc (Suc (Suc (Suc (Suc 0)))))))) (MessageHandler i h WM_CLOSE) r = Inr r'"
    "windows_ok r'" "idle r r' \<or> touched i r r' \<and> owner r' = (owner r)(h := None) \<and>
       (quit_on_close w \<and> \<not> keeps H WM_DESTROY \<longrightarrow> os_quit r')"
    using close_message [OF runner_okD(1) [OF ok] u w, of H "Suc (Suc 0)"] by (elim exE conjE) (rule that)
  have "runner_ok r'"
    using r'(3)
  proof
    assume "touched i r r' \<and> owner r' = (owner r)(h := None) \<and>
      (quit_on_close w \<and> \<not> keeps H WM_DESTROY \<longrightarrow> os_quit r')"
    then have t: "touched i r r'" ..
    show ?thesis
    proof (rule runner_ok_only [OF ok w r'(2)])
      show "os_class r' = class_registered r'"
        using t runner_okD(4) [OF ok] runner_ok_count [OF ok w] by (simp add: touched_def)
      show "rn_count r' = rn_count r" "rn_objects r' i \<noteq> None" "\<And>j. j \<noteq> i \<Longrightarrow> rn_objects r' j = rn_objects r j"
        using t unfolding touched_def by auto
    qed
  qed (rule idle_runner_ok [OF _ ok])
  then show ?thesis using r'(1) u by (simp add: kDepth_Suc WndProc_owner)
qed

lemma step_outcome:
  assumes ok: "runner_ok r" and x: "op_posted x"
  shows "window_step H x r = Inl NullPointer \<and> (\<exists>h. x = Post h WM_FONTCHANGE \<and> missing_engine r h) \<or>
    (\<exists>r'. window_step H x r = Inr r' \<and> runner_ok r')"
proof (cases x)
  case (New f i)
  note new = new_outcome [OF ok, of i f]
  have "runner_ok (Win32Window_new f i r)" if "rn_objects r i = None"
    using new [OF that] runner_okD(2,4) [OF ok] by (intro runner_okI) (simp_all, simp add: Win32Window_new_def)
  then show ?thesis using New ok by simp
next
  case (Create title origin extent c e v i)
  show ?thesis
  proof (cases "rn_objects r i")
    case (Some w)
    then show ?thesis using Create create_step [OF ok Some, of H title origin extent c e v] by blast
  qed (use Create ok in simp)
next
  case (Close i)
  show ?thesis
  proof (cases "rn_objects r i")
    case (Some w)
    then show ?thesis using Close close_step [OF ok Some, of H] by blast
  qed (use Close ok in simp)
next
  case (Delete i)
  show ?thesis
  proof (cases "rn_objects r i")
    case (Some w)
    then show ?thesis using Delete delete_outcome [OF ok Some, of H] by (elim exE conjE) simp
  qed (use Delete ok in simp)
next
  case (QuitOnClose b i)
  then show ?thesis using quit_step [OF ok] by simp
next
  case (Frame i)
  then show ?thesis using frame_step [OF ok] by simp
next
  case (Post h m)
  then have m: "m \<noteq> WM_DESTROY" "m \<noteq> WM_NCDESTROY" using x by (simp_all add: op_posted_def posted_def)
  consider "m = WM_FONTCHANGE" "missing_engine r h" | "m = WM_CLOSE" | "m \<noteq> WM_CLOSE" "m = WM_FONTCHANGE \<longrightarrow> \<not> missing_engine r h"
    by (cases "m = WM_CLOSE"; cases "m = WM_FONTCHANGE"; cases "missing_engine r h") simp_all
  then show ?thesis
  proof cases
    case 1
    then show ?thesis using fontchange_step [OF 1(2) ok, of H] 1 Post by (elim disjE) auto
  next
    case 2
    then show ?thesis using close_message_step [OF ok, of H h] Post by simp
  next
    case 3
    then have "\<exists>r'. run H kDepth (WndProc h m) r = Inr r' \<and> idle r r'"
      using m by (intro other_message runner_okD(1) [OF ok]) simp_all
    then obtain r' where "run H kDepth (WndProc h m) r = Inr r'" "idle r r'" by (elim exE conjE)
    then show ?thesis using Post idle_runner_ok [OF _ ok] by simp
  qed
qed

lemma run_outcome:
  "runner_ok r \<Longrightarrow> list_all op_posted ops \<Longrightarrow>
     window_run H ops r = Inl NullPointer \<and> (\<exists>h. Post h WM_FONTCHANGE \<in> set ops) \<or>
     (\<exists>r'. window_run H ops r = Inr r' \<and> runner_ok r')"
proof (induction ops arbitrary: r)
  case (Cons x ops)
  then have x: "op_posted x" and ops: "list_all op_posted ops" by simp_all
  from step_outcome [OF Cons.prems(1) x, of H] show ?case
  proof
    assume "\<exists>r'. window_step H x r = Inr r' \<and> runner_ok r'"
    then obtain r' where r': "window_step H x r = Inr r'" "runner_ok r'" by blast
    from Cons.IH [OF r'(2) ops] r'(1) show ?thesis by (elim disjE) auto
  qed auto
qed simp

lemma Runner_new_ok: "runner_ok Runner_new"
  by (intro runner_okI) (simp_all add: windows_ok_def owner_def live_def Runner_new_def)

subsection \<open>The message loop\<close>

lemma close_engines:
  assumes ok: "windows_ok r" and o: "owner r h = Some (Some i)" and t: "touched i r r'" and own: "owner r' = (owner r)(h := None)"
    and m: "missing_engine r' k"
  shows "missing_engine r k"
proof -
  obtain j w where j: "owner r' k = Some (Some j)" "rn_objects r' j = Some w" "wn_flutter w" "\<not> has_engine w"
    using m by (auto simp: missing_engine_def)
  then have k: "k \<noteq> h" "owner r k = Some (Some j)" using own by (auto split: if_splits)
  have "j \<noteq> i"
    using window_object [OF ok k(2)] window_object [OF ok o] k(1) by auto
  then have "rn_objects r j = Some w" using t j(2) by (simp add: touched_def)
  with k j(3,4) show ?thesis by (auto simp: missing_engine_def)
qed

text \<open>The state of the program while the loop runs; the only window ever has the handle 1.\<close>

definition loop_ok :: "Host \<Rightarrow> Runner \<Rightarrow> bool" where
  "loop_ok H r \<longleftrightarrow> runner_ok r \<and> live r = {0} \<and> (\<forall>h. \<not> missing_engine r h) \<and>
     (\<exists>w. rn_objects r 0 = Some w \<and> quit_on_close w) \<and>
     (\<not> keeps H WM_DESTROY \<longrightarrow> os_quit r \<or> owner r 1 = Some (Some 0))"

lemma loop_idle: "idle r r' \<Longrightarrow> loop_ok H r \<Longrightarrow> loop_ok H r'"
  using idle_runner_ok [of r r'] by (simp add: loop_ok_def idle_def live_def missing_engine_def owner_def)

lemma loop_close:
  assumes l: "loop_ok H r"
  shows "\<exists>r'. run H kDepth (WndProc h WM_CLOSE) r = Inr r' \<and> loop_ok H r' \<and> (os_quit r \<longrightarrow> os_quit r') \<and>
    (h = 1 \<and> \<not> keeps H WM_DESTROY \<and> \<not> keeps H WM_CLOSE \<longrightarrow> os_quit r')"
proof (cases "owner r h")
  case None
  then have "run H kDepth (WndProc h WM_CLOSE) r = Inr r" by (simp add: kDepth_Suc run_unfold(3) w32_WndProc_def owner_def)
  then show ?thesis using l None by (auto simp: loop_ok_def)
next
  case (Some u)
  have ok: "runner_ok r" "windows_ok r" using l by (auto simp: loop_ok_def runner_okD)
  obtain w where w: "rn_objects r 0 = Some w" "quit_on_close w" using l by (auto simp: loop_ok_def)
  have o: "owner r h = Some (Some 0)"
  proof -
    obtain i v where i: "u = Some i" "rn_objects r i = Some v" using window_object [OF ok(2) Some] by blast
    then have "i \<in> live r" by (auto simp: live_def)
    with i Some l show ?thesis by (simp add: loop_ok_def)
  qed
  obtain r' where r': "run H (Suc (Suc (Suc (Suc (Suc (Suc (Suc (Suc 0)))))))) (MessageHandler 0 h WM_CLOSE) r = Inr r'"
    "windows_ok r'" "idle r r' \<or> touched 0 r r' \<and> owner r' = (owner r)(h := None) \<and>
       (quit_on_close w \<and> \<not> keeps H WM_DESTROY \<longrightarrow> os_quit r')"
    "quit_on_close w \<and> \<not> keeps H WM_DESTROY \<and> \<not> keeps H WM_CLOSE \<longrightarrow> os_quit r'"
    using close_message [OF ok(2) o w(1), of H "Suc (Suc 0)"] by (elim exE conjE) (rule that)
  have run: "run H kDepth (WndProc h WM_CLOSE) r = Inr r'" using r'(1) o by (simp add: kDepth_Suc WndProc_owner)
  have "loop_ok H r' \<and> (os_quit r \<longrightarrow> os_quit r')"
    using r'(3)
  proof
    assume "idle r r'"
    then show ?thesis using loop_idle l by (auto simp: idle_def)
  next
    assume t: "touched 0 r r' \<and> owner r' = (owner r)(h := None) \<and>
      (quit_on_close w \<and> \<not> keeps H WM_DESTROY \<longrightarrow> os_quit r')"
    obtain r1 where r1: "run H kDepth (WndProc h WM_CLOSE) r = Inr r1" "runner_ok r1"
      using close_message_step [OF ok(1), of H h] by blast
    then have "runner_ok r'" using run by simp
    moreover have "live r' = {0}"
    proof -
      have "rn_objects r' j = None \<longleftrightarrow> rn_objects r j = None" for j
        using t by (cases "j = 0") (auto simp: touched_def)
      then have "live r' = live r" by (simp add: live_def dom_def)
      then show ?thesis using l by (simp add: loop_ok_def)
    qed
    moreover have "\<not> missing_engine r' k" for k
      using close_engines [OF ok(2) o] t l by (auto simp: loop_ok_def)
    moreover have "\<exists>w'. rn_objects r' 0 = Some w' \<and> quit_on_close w'" using t w by (auto simp: touched_def like_def)
    moreover have "\<not> keeps H WM_DESTROY \<longrightarrow> os_quit r'" "os_quit r \<longrightarrow> os_quit r'"
      using t w(2) by (auto simp: touched_def)
    ultimately show ?thesis unfolding loop_ok_def by blast
  qed
  with run r'(4) w(2) show ?thesis by blast
qed

lemma loop_message:
  assumes l: "loop_ok H r" and m: "posted m"
  shows "\<exists>r'. run H kDepth (WndProc h m) r = Inr r' \<and> loop_ok H r' \<and> (os_quit r \<longrightarrow> os_quit r') \<and>
    ((h, m) = (1, WM_CLOSE) \<and> \<not> keeps H WM_DESTROY \<and> \<not> keeps H WM_CLOSE \<longrightarrow> os_quit r')"
proof (cases "m = WM_CLOSE")
  case True
  then show ?thesis using loop_close [OF l, of h] by simp
next
  case False
  have "\<exists>r'. run H kDepth (WndProc h m) r = Inr r' \<and> idle r r'"
    using l m False by (intro other_message) (auto simp: loop_ok_def posted_def runner_okD)
  then obtain r' where r': "run H kDepth (WndProc h m) r = Inr r'" "idle r r'" by (elim exE conjE)
  with loop_idle [OF r'(2) l] False show ?thesis by (auto simp: idle_def)
qed

lemma pump_outcome:
  "loop_ok H r \<Longrightarrow> list_all (\<lambda>(h, m). posted m) ms \<Longrightarrow>
     \<exists>r'. pump H ms r = Inr r' \<and> loop_ok H r' \<and> (os_quit r \<longrightarrow> os_quit r') \<and>
       ((1, WM_CLOSE) \<in> set ms \<and> \<not> keeps H WM_DESTROY \<and> \<not> keeps H WM_CLOSE \<longrightarrow> os_quit r')"
proof (induction ms arbitrary: r)
  case (Cons x ms)
  obtain h m where x: "x = (h, m)" by (cases x)
  then have m: "posted m" "list_all (\<lambda>(h, m). posted m) ms" using Cons.prems(2) by simp_all
  obtain r1 where r1: "run H kDepth (WndProc h m) r = Inr r1" "loop_ok H r1" "os_quit r \<longrightarrow> os_quit r1"
    "(h, m) = (1, WM_CLOSE) \<and> \<not> keeps H WM_DESTROY \<and> \<not> keeps H WM_CLOSE \<longrightarrow> os_quit r1"
    using loop_message [OF Cons.prems(1) m(1), of h] by (elim exE conjE) (rule that)
  obtain r2 where r2: "pump H ms r1 = Inr r2" "loop_ok H r2" "os_quit r1 \<longrightarrow> os_quit r2"
    "(1, WM_CLOSE) \<in> set ms \<and> \<not> keeps H WM_DESTROY \<and> \<not> keeps H WM_CLOSE \<longrightarrow> os_quit r2"
    using Cons.IH [OF r1(2) m(2)] by (elim exE conjE) (rule that)
  have "pump H (x # ms) r = Inr r2" using r1(1) r2(1) by (simp add: x)
  with r1(3,4) r2(2-4) show ?case by (auto simp: x)
qed simp

subsection \<open>From start to end\<close>

lemma Runner_start_ok: "runner_ok (Runner_start H)"
  by (intro runner_okI) (simp_all add: windows_ok_def owner_def live_def Runner_start_def Runner_new_def)

lemma runner_ok_log:
  assumes "runner_ok r"
  shows "runner_ok (os_log c r)"
proof -
  have "idle r (os_log c r)" by (simp add: idle_def)
  then show ?thesis using assms by (rule idle_runner_ok)
qed

lemma live_log: "live (os_log c r) = live r"
  by (simp add: live_def)

lemma program_start:
  fixes H :: Host
  defines "r0 \<equiv> Win32Window_new True 0 (Runner_start H)"
  shows "\<exists>b r. w32_Create H ''veyralink'' (10, 10) (1280, 720) c e v 0 r0 = Inr (b, r) \<and> runner_ok r \<and> live r = {0} \<and>
    (b \<longleftrightarrow> c = Created \<and> e \<and> v \<noteq> None) \<and> (b \<longrightarrow> loop_ok H (SetQuitOnClose 0 True r))"
proof -
  have none: "rn_objects (Runner_start H) 0 = None" by (simp add: Runner_start_def Runner_new_def)
  note new = new_outcome [OF Runner_start_ok none, of True, folded r0_def]
  have ok0: "runner_ok r0"
    using new by (intro runner_okI) (simp_all add: r0_def Win32Window_new_def Runner_start_def Runner_new_def live_def)
  obtain w where w: "rn_objects r0 0 = Some w" "wn_flutter w" by (simp add: r0_def Win32Window_new_def)
  have nxt: "os_next r0 = 1" by (simp add: r0_def Win32Window_new_def Runner_start_def Runner_new_def)
  have l0: "live r0 = {0}" using new(3) by (simp add: live_def Runner_start_def Runner_new_def)
  obtain b r where r: "w32_Create H ''veyralink'' (10, 10) (1280, 720) c e v 0 r0 = Inr (b, r)" "windows_ok r" "only 0 r0 r" "class_registered r" "os_class r"
    "b \<longleftrightarrow> c = Created \<and> (wn_flutter w \<longrightarrow> e \<and> v \<noteq> None)"
    "b \<longrightarrow> owner r (os_next r0) = Some (Some 0) \<and> (wn_flutter w \<longrightarrow> (\<exists>w'. rn_objects r 0 = Some w' \<and> has_engine w'))"
    using create_outcome [OF new(1) w(1) new(4) runner_okD(4) [OF ok0], of H "''veyralink''" "(10, 10)" "(1280, 720)" c e v] by (elim exE conjE) (rule that)
  have some: "rn_objects r 0 \<noteq> None" using r(3) w by (auto simp: only_def)
  have ok: "runner_ok r"
    by (rule runner_ok_only [OF ok0 w(1) r(2)]) (use r(3-5) some in \<open>simp_all add: only_def\<close>)
  have "rn_objects r j = None \<longleftrightarrow> rn_objects r0 j = None" for j
    using r(3) some w by (cases "j = 0") (simp_all add: only_def)
  then have l: "live r = {0}" using l0 by (simp add: live_def dom_def)
  have "loop_ok H (SetQuitOnClose 0 True r)" if b
  proof -
    obtain w1 where w1: "rn_objects r 0 = Some w1" "has_engine w1" using r(7) w(2) \<open>b\<close> by blast
    let ?r = "SetQuitOnClose 0 True r"
    have obj: "rn_objects ?r 0 = Some (w1\<lparr>quit_on_close := True\<rparr>)" and own: "owner ?r = owner r"
      using w1 by (simp_all add: SetQuitOnClose_def owner_def)
    have okr: "runner_ok ?r" using ok by (rule quit_step)
    have lr: "live ?r = {0}" using l w1 by (simp add: live_def SetQuitOnClose_def insert_absorb)
    have "\<not> missing_engine ?r h" for h
    proof
      assume "missing_engine ?r h"
      then obtain i v where i: "rn_objects ?r i = Some v" "\<not> has_engine v" by (auto simp: missing_engine_def)
      then have "i \<in> live ?r" by (auto simp: live_def)
      then have "i = 0" using lr by simp
      with i obj w1(2) show False by (auto simp: has_engine_def)
    qed
    then show ?thesis using okr lr obj own r(7) \<open>b\<close> nxt by (simp add: loop_ok_def)
  qed
  then show ?thesis using r(1,6) ok l w(2) by blast
qed

lemma program_end:
  assumes "runner_ok r" "live r = {0}"
  shows "\<exists>r'. Win32Window_delete H 0 r = Inr r' \<and> live r' = {} \<and> rn_count r' = 0 \<and> os_windows r' = [] \<and> \<not> os_class r'"
proof -
  obtain w where w: "rn_objects r 0 = Some w" using assms(2) by (auto simp: live_def dom_def)
  obtain r' where r': "Win32Window_delete H 0 r = Inr r'" "runner_ok r'" "live r' = live r - {0}"
    using delete_outcome [OF assms(1) w, of H] by (elim exE conjE) (rule that)
  then have l: "live r' = {}" using assms(2) by simp
  then have n: "rn_count r' = 0" using runner_okD(3) [OF r'(2)] by simp
  have "rn_objects r' j = None" for j using l unfolding live_def by (metis domIff empty_iff)
  then have "owner r' h = None" for h
    using window_object [OF runner_okD(1) [OF r'(2)], of h] by (cases "owner r' h") auto
  then have "os_windows r' = []" by (rule no_owner_no_windows)
  with r'(1) l n runner_okD(5) [OF r'(2) n] show ?thesis by blast
qed

text \<open>The handle that the last message of a window is handed on with.\<close>

lemma destroy_message_clears:
  assumes w: "rn_objects r i = Some w" and "os_windows r \<noteq> []" and p: "\<not> keeps H WM_DESTROY"
    and r': "run H (Suc (Suc n)) (MessageHandler i h WM_DESTROY) r = Inr r'"
  shows "\<exists>w'. rn_objects r' i = Some w' \<and> window_handle w' = None"
proof (cases rule: handler_cases [OF w, of WM_DESTROY H "run H (Suc n)" h])
  case (2 r0)
  let ?r = "update_object i (\<lambda>w. w\<lparr>window_handle := None\<rparr>) r0"
  have "rn_objects ?r i = Some (w\<lparr>window_handle := None\<rparr>)" "os_windows ?r \<noteq> []"
    using w assms(2) 2(1) by (simp_all add: idle_def)
  then obtain r1 where r1: "run H (Suc n) (Destroy i) ?r = Inr r1" "touched i ?r r1"
    using destroy_without_window [of ?r i "w\<lparr>window_handle := None\<rparr>" H n] by auto
  have "r' = (if quit_on_close w then r1\<lparr>os_quit := True\<rparr> else r1)"
    using r' r1(1) 2(2) by (simp add: run_unfold Win32Window_MessageHandler_def)
  moreover have "\<exists>w'. rn_objects r1 i = Some w' \<and> window_handle w' = None"
    using r1(2) w 2(1) by (auto simp: touched_def like_def idle_def)
  ultimately show ?thesis by (cases "quit_on_close w") simp_all
qed (use p in simp_all)

lemma nc_destroy_default:
  assumes w: "rn_objects r i = Some w" and "window_handle w = None" "\<not> keeps H WM_NCDESTROY"
  shows "\<exists>r'. run H (Suc (Suc n)) (MessageHandler i h WM_NCDESTROY) r = Inr (os_log (DefaultProc None WM_NCDESTROY) r') \<and>
    idle r r'"
proof (cases rule: handler_cases [OF w, of WM_NCDESTROY H "run H (Suc n)" h])
  case (2 r0)
  then show ?thesis using assms(2)
    by (auto simp: run_unfold Win32Window_MessageHandler_def os_DefWindowProc_def Let_def)
qed (use assms(3) in simp_all)

lemma destroy_window_last_call:
  assumes w: "rn_objects r i = Some w" and o: "owner r h = Some (Some i)"
    and p: "\<not> keeps H WM_DESTROY" "\<not> keeps H WM_NCDESTROY"
  shows "\<exists>r'. run H (Suc (Suc (Suc (Suc n)))) (DestroyWindow h) r = Inr r' \<and> owner r' h = None \<and>
    last (os_calls r') = DefaultProc None WM_NCDESTROY"
proof -
  have ne: "os_windows r \<noteq> []" using o by (auto simp: owner_def)
  obtain r1 where r1: "run H (Suc (Suc n)) (MessageHandler i h WM_DESTROY) r = Inr r1" "os_windows r1 = os_windows r"
    using destroy_message [OF w ne] by blast
  obtain w1 where w1: "rn_objects r1 i = Some w1" "window_handle w1 = None"
    using destroy_message_clears [OF w ne p(1) r1(1)] by blast
  obtain r2 where r2: "run H (Suc (Suc n)) (MessageHandler i h WM_NCDESTROY) r1 =
      Inr (os_log (DefaultProc None WM_NCDESTROY) r2)"
    using nc_destroy_default [OF w1 p(2), of n h] by blast
  have o1: "owner r1 h = Some (Some i)" using o r1(2) by (simp add: owner_def)
  let ?r2 = "os_log (DefaultProc None WM_NCDESTROY) r2"
  have "run H (Suc (Suc (Suc n))) (WndProc h WM_DESTROY) r = Inr r1" using r1(1) WndProc_owner [OF o] by simp
  moreover have "run H (Suc (Suc (Suc n))) (WndProc h WM_NCDESTROY) r1 = Inr ?r2"
    using r2 WndProc_owner [OF o1] by simp
  moreover have "map_of (os_windows r) h \<noteq> None" using o by (simp add: owner_def)
  ultimately have "run H (Suc (Suc (Suc (Suc n)))) (DestroyWindow h) r =
      Inr (?r2\<lparr>os_windows := List.filter (\<lambda>e. fst e \<noteq> h) (os_windows ?r2)\<rparr>)"
    by (simp only: run_unfold(2) os_DestroyWindow_def if_False and_then.simps)
  then show ?thesis by (auto simp: owner_def os_log_def)
qed

lemma close_last_call:
  assumes ok: "windows_ok r" and o: "owner r h = Some (Some i)"
    and p: "\<not> keeps H WM_CLOSE" "\<not> keeps H WM_DESTROY" "\<not> keeps H WM_NCDESTROY"
  shows "\<exists>r'. run H kDepth (WndProc h WM_CLOSE) r = Inr r' \<and> owner r' h = None \<and>
    last (os_calls r') = DefaultProc None WM_NCDESTROY"
proof -
  let ?n = "Suc (Suc (Suc (Suc (Suc (Suc (Suc 0))))))"
  obtain w where w: "rn_objects r i = Some w" "window_handle w = Some h" using window_object [OF ok o] by auto
  show ?thesis
  proof (cases rule: handler_cases [OF w(1), of WM_CLOSE H "run H ?n" h])
    case (2 r0)
    let ?r = "os_log (DefaultProc (Some h) WM_CLOSE) r0"
    have "rn_objects ?r i = Some w" "owner ?r h = Some (Some i)" using w(1) o 2(1) by (simp_all add: idle_def owner_def)
    from destroy_window_last_call [OF this p(2,3)] obtain r' where
      r': "run H (Suc (Suc (Suc (Suc (Suc (Suc 0)))))) (DestroyWindow h) ?r = Inr r'" "owner r' h = None"
        "last (os_calls r') = DefaultProc None WM_NCDESTROY" by blast
    then have "run H ?n (DefWindowProc (Some h) WM_CLOSE) r0 = Inr r'"
      by (simp add: run_unfold(5) os_DefWindowProc_def Let_def)
    then have "run H (Suc ?n) (MessageHandler i h WM_CLOSE) r = Inr r'"
      using w(2) 2(2) by (simp add: run_unfold(4) Win32Window_MessageHandler_def)
    then have "run H kDepth (WndProc h WM_CLOSE) r = Inr r'" unfolding kDepth_Suc WndProc_owner [OF o] .
    with r' show ?thesis by blast
  qed (use p in simp_all)
qed

text \<open>The factor between logical and physical lengths.\<close>

lemma scale_factor_bounds:
  assumes "96 \<le> dpi" "dpi \<le> 9600"
  shows "\<exists>x. scale_factor dpi = Finite x \<and> 1 \<le> x \<and> x \<le> 100"
proof -
  let ?x = "of_nat dpi / 96 :: rat"
  have le: "(of_nat 96 :: rat) \<le> of_nat dpi" "(of_nat dpi :: rat) \<le> of_nat 9600"
    using assms by (simp_all only: of_nat_le_iff)
  then have x: "1 \<le> ?x" "?x \<le> of_nat 100" by simp_all
  have "rounded binary64 ?x \<le> of_nat 100" using x by (intro rounded_le_nat) (simp_all add: binary64_def)
  moreover have "1 \<le> rounded binary64 ?x" using x by (intro rounded_ge_one) (simp_all add: binary64_def)
  moreover have "(100 :: rat) < 2 powi (emax binary64 + 1)"
  proof -
    have "(100 :: rat) < 2 powi 7" by simp
    also have "(2 :: rat) powi 7 \<le> 2 powi (emax binary64 + 1)" by (intro power_int_increasing) (simp_all add: binary64_def)
    finally show ?thesis .
  qed
  ultimately have "mk_flt binary64 ?x = Finite (rounded binary64 ?x)"
    by (simp add: mk_flt_def Let_def not_le)
  moreover have "f_of_nat binary64 dpi = Finite (of_nat dpi)" using assms by (intro double_of_small_nat) simp
  ultimately show ?thesis
    using \<open>1 \<le> rounded binary64 ?x\<close> \<open>rounded binary64 ?x \<le> of_nat 100\<close> by (simp add: scale_factor_def)
qed

subsection \<open>Properties\<close>

text \<open>Window bookkeeping: whatever windows a client creates, closes and deletes, and whatever messages
  arrive, between calls every existing window belongs to a live object that holds its handle, the counter of
  windows is the number of live objects, the window class is registered exactly when the registrar says so,
  and it is gone when there is no object. No message ever reaches a deleted object; the only possible fault is
  a null pointer, for the message that the fonts have changed.\<close>

theorem window_bookkeeping:
  assumes "list_all op_posted ops"
  shows "window_run H ops Runner_new = Inl NullPointer \<and> (\<exists>h. Post h WM_FONTCHANGE \<in> set ops) \<or>
    (\<exists>r. window_run H ops Runner_new = Inr r \<and> runner_ok r)"
  using Runner_new_ok assms by (rule run_outcome)

definition no_plugins :: Host where
  "no_plugins = \<lparr>host_client = (\<lambda>_. (0, 0, 800, 600)), host_plugin = (\<lambda>_ _. False), host_light_mode = Some 0,
     host_dpi = 144, host_user32 = True, host_dpi_scaling = True, host_console = False, host_debugger = True,
     host_allocates = True, host_stdout_fails = False, host_stderr_fails = False,
     host_argv = Some [[97], [98]], host_convert = (\<lambda>s. Some (map ucast s))\<rparr>"

theorem window_bookkeeping_witness:
  "\<exists>r. window_run no_plugins [New True 0, New False 1, Create ''a'' (10, 10) (1280, 720) Created True (Some 7) 0, Create ''b'' (0, 0) (640, 480) Created True None 1,
      Post 1 WM_CLOSE, Create ''c'' (10, 10) (1280, 720) Created True (Some 8) 0, Delete 1, Post 3 WM_SIZE] Runner_new = Inr r \<and> runner_ok r"
  using window_bookkeeping [of "[New True 0, New False 1, Create ''a'' (10, 10) (1280, 720) Created True (Some 7) 0, Create ''b'' (0, 0) (640, 480) Created True None 1,
      Post 1 WM_CLOSE, Create ''c'' (10, 10) (1280, 720) Created True (Some 8) 0, Delete 1, Post 3 WM_SIZE]" no_plugins]
  by (simp add: op_posted_def posted_def)

text \<open>C24. The program cannot crash and leaves nothing behind: for every outcome of creating the window and the
  engine, every reaction of the plugins to each message, which may depend on everything that happened
  before, and every sequence of queued messages other than \<open>WM_DESTROY\<close> and \<open>WM_NCDESTROY\<close> (which Windows
  sends only while it destroys a window, as the model does), \<open>wWinMain\<close> runs without a fault; it fails
  exactly when the window or its engine could not be created; and when it ends there is no object, no window
  and no window class left.\<close>

theorem runner_ends_clean:
  assumes "list_all (\<lambda>(h, m). posted m) ms"
  shows "\<exists>x r. wWinMain H c e v ms = Inr (x, r) \<and>
    (x = Some EXIT_FAILURE \<longleftrightarrow> c \<noteq> Created \<or> \<not> e \<or> v = None) \<and>
    (x = None \<or> live r = {} \<and> rn_count r = 0 \<and> os_windows r = [] \<and> \<not> os_class r)"
proof -
  obtain b r where r: "w32_Create H ''veyralink'' (10, 10) (1280, 720) c e v 0 (Win32Window_new True 0 (Runner_start H)) = Inr (b, r)" "runner_ok r" "live r = {0}"
    "b \<longleftrightarrow> c = Created \<and> e \<and> v \<noteq> None" "b \<longrightarrow> loop_ok H (SetQuitOnClose 0 True r)"
    using program_start [of H c e v] by (elim exE conjE) (rule that)
  show ?thesis
  proof (cases b)
    case False
    with r program_end [OF r(2,3), of H] show ?thesis by (auto simp: wWinMain_def)
  next
    case True
    obtain r1 where r1: "pump H ms (SetQuitOnClose 0 True r) = Inr r1" "loop_ok H r1"
      using pump_outcome [of H "SetQuitOnClose 0 True r" ms] r(5) True assms by blast
    then have "runner_ok r1" "live r1 = {0}" by (simp_all add: loop_ok_def)
    then have "runner_ok (os_log CoUninitialize r1)" "live (os_log CoUninitialize r1) = {0}" by (simp_all add: runner_ok_log live_log)
    from program_end [OF this, of H] r(1,4) r1(1) True show ?thesis
      by (auto simp: wWinMain_def EXIT_SUCCESS_def EXIT_FAILURE_def)
  qed
qed

theorem runner_ends_clean_witness:
  "\<exists>x r. wWinMain no_plugins Created True (Some 7) [(1, WM_SIZE), (1, WM_FONTCHANGE), (1, WM_CLOSE)] = Inr (x, r) \<and>
    (x = None \<or> live r = {} \<and> rn_count r = 0 \<and> os_windows r = [] \<and> \<not> os_class r)"
  using runner_ends_clean [of "[(1, WM_SIZE), (1, WM_FONTCHANGE), (1, WM_CLOSE)]" no_plugins Created True "Some 7"]
  by (auto simp: posted_def)

text \<open>C25. Closing the window ends the program: when the window and its engine have been created and no plugin
  ever keeps \<open>WM_CLOSE\<close> or \<open>WM_DESTROY\<close>, a \<open>WM_CLOSE\<close> to the window makes \<open>wWinMain\<close> return success,
  whatever other queued messages, \<open>WM_DESTROY\<close> and \<open>WM_NCDESTROY\<close> excepted, come before or after it.\<close>

theorem closing_ends_the_program:
  assumes "list_all (\<lambda>(h, m). posted m) ms" "(1, WM_CLOSE) \<in> set ms"
    and "\<not> keeps H WM_DESTROY" "\<not> keeps H WM_CLOSE"
  shows "\<exists>r. wWinMain H Created True (Some u) ms = Inr (Some EXIT_SUCCESS, r)"
proof -
  obtain b r where r: "w32_Create H ''veyralink'' (10, 10) (1280, 720) Created True (Some u) 0 (Win32Window_new True 0 (Runner_start H)) = Inr (b, r)" "b"
    "loop_ok H (SetQuitOnClose 0 True r)"
    using program_start [of H Created True "Some u"] by auto
  obtain r1 where r1: "pump H ms (SetQuitOnClose 0 True r) = Inr r1" "loop_ok H r1" "os_quit r1"
    using pump_outcome [OF r(3) assms(1)] assms(2-4) by blast
  then have "runner_ok r1" "live r1 = {0}" by (simp_all add: loop_ok_def)
  then have "runner_ok (os_log CoUninitialize r1)" "live (os_log CoUninitialize r1) = {0}" by (simp_all add: runner_ok_log live_log)
  from program_end [OF this, of H] r(1,2) r1(1,3) show ?thesis by (auto simp: wWinMain_def)
qed

theorem closing_ends_the_program_witness:
  "\<exists>r. wWinMain no_plugins Created True (Some 7) [(1, WM_ACTIVATE), (1, WM_CLOSE), (1, WM_SIZE)] = Inr (Some EXIT_SUCCESS, r)"
  by (rule closing_ends_the_program) (simp_all add: posted_def keeps_def no_plugins_def)

text \<open>What \<open>WM_NCDESTROY\<close> loses: when no plugin intervenes, a window that is asked to close is gone
  afterwards, but its last message is handed to the default procedure of Windows with a null handle instead of
  the handle of the window, because the handler of \<open>WM_DESTROY\<close> has cleared the member that is passed on.\<close>

theorem nc_destroy_loses_the_handle:
  assumes "windows_ok r" and "owner r h = Some (Some i)"
    and "\<not> keeps H WM_CLOSE" "\<not> keeps H WM_DESTROY" "\<not> keeps H WM_NCDESTROY"
  shows "\<exists>r'. run H kDepth (WndProc h WM_CLOSE) r = Inr r' \<and> owner r' h = None \<and>
    last (os_calls r') = DefaultProc None WM_NCDESTROY"
  using assms by (rule close_last_call)

definition one_window :: Runner where
  "one_window = Runner_new\<lparr>rn_count := 1, class_registered := True, os_class := True, os_windows := [(1, Some 0)], os_next := 2,
     rn_objects := [0 \<mapsto> \<lparr>quit_on_close = True, window_handle = Some 1, child_content = None, wn_flutter = False,
       flutter_controller = None\<rparr>]\<rparr>"

theorem nc_destroy_loses_the_handle_witness:
  "\<exists>r'. run no_plugins kDepth (WndProc 1 WM_CLOSE) one_window = Inr r' \<and> owner r' 1 = None \<and>
    last (os_calls r') = DefaultProc None WM_NCDESTROY"
  by (rule nc_destroy_loses_the_handle [where i = 0])
    (auto simp: windows_ok_def owner_def one_window_def keeps_def no_plugins_def)

text \<open>Scaling to the density of the monitor: for any length up to a million pixels and any density between
  96 and 9600 dots per inch the product of doubles is converted without undefined behaviour, and the result is
  between the length itself and a hundred times it.\<close>

theorem scaled_lengths_are_defined:
  assumes "0 \<le> n" "n \<le> 1000000" "96 \<le> dpi" "dpi \<le> 9600"
  shows "\<exists>k. Scale n (scale_factor dpi) = Some k \<and> n \<le> k \<and> k \<le> 100 * n"
proof -
  obtain m where m: "n = int m" using assms(1) nonneg_int_cases by blast
  obtain x where x: "scale_factor dpi = Finite x" "1 \<le> x" "x \<le> 100" using scale_factor_bounds [OF assms(3,4)] by blast
  let ?p = "of_nat m * x"
  have p: "of_nat m \<le> ?p" "?p \<le> of_nat (100 * m)"
    using x mult_left_mono [of 1 x "of_nat m"] mult_left_mono [of x 100 "of_nat m"] by simp_all
  have m1: "m \<le> 1000000" using assms(2) m by simp
  have hi: "rounded binary64 ?p \<le> of_nat (100 * m)"
    using p x m1 by (intro rounded_le_nat) (simp_all add: binary64_def)
  have lo: "of_nat m \<le> rounded binary64 ?p"
  proof (cases "m = 0")
    case False
    have "(of_nat (100 * m) :: rat) \<le> of_nat 100000000" using m1 by (simp only: of_nat_le_iff)
    then have "?p < 2 ^ precision binary64" using p(2) by (simp add: binary64_def)
    then show ?thesis using p False x by (intro rounded_ge_nat) (simp_all add: binary64_def)
  qed (simp add: rounded_def)
  let ?y = "rounded binary64 ?p"
  have big: "(of_nat (100 * m) :: rat) < 2 powi (emax binary64 + 1)"
  proof -
    have "(of_nat (100 * m) :: rat) \<le> of_nat 100000000" using m1 by (simp only: of_nat_le_iff)
    also have "(of_nat 100000000 :: rat) < 2 powi 30" by simp
    also have "(2 :: rat) powi 30 \<le> 2 powi (emax binary64 + 1)" by (intro power_int_increasing) (simp_all add: binary64_def)
    finally show ?thesis .
  qed
  have "- (2 powi (emax binary64 + 1)) < ?y" using lo by (intro less_le_trans [OF _ order_trans [OF of_nat_0_le_iff lo]]) simp
  then have y: "f_scale binary64 (of_int n) (scale_factor dpi) = Finite ?y"
    using big hi m x(1) by (simp add: mk_flt_def Let_def)
  have k: "int m \<le> \<lfloor>?y\<rfloor>" "\<lfloor>?y\<rfloor> \<le> int (100 * m)"
    using lo hi by (simp_all add: le_floor_iff floor_le_iff)
  have "int (100 * m) < 2 ^ 31" using m1 by simp
  with k(2) have "\<lfloor>?y\<rfloor> < 2 ^ 31" by (rule le_less_trans)
  moreover have "0 \<le> \<lfloor>?y\<rfloor>" using k(1) by (rule order_trans [OF of_nat_0_le_iff])
  moreover have "0 \<le> ?y" using lo by (rule order_trans [OF of_nat_0_le_iff])
  ultimately have "Scale n (scale_factor dpi) = Some \<lfloor>?y\<rfloor>" unfolding Scale_def y by simp
  with k m show ?thesis by auto
qed

theorem scaled_lengths_are_defined_witness:
  "\<exists>k. Scale 1280 (scale_factor 144) = Some k \<and> 1280 \<le> k \<and> k \<le> 128000"
  using scaled_lengths_are_defined [of 1280 144] by simp

end
