(* ===== verification/Service_Process.thy ===== *)
theory Service_Process
  imports Core_Service Pairing
begin

text \<open>
  The stand-alone executable VeyraCore: \<open>main\<close> of \<open>native/windows/core/main.cpp\<close>, its notification icon
  \<open>TrayIcon\<close> (\<open>core/tray_icon.cpp\<close>), and the commands of \<open>network/win_usb.cpp\<close>. The process of theory
  \<open>Core_Service\<close> is run without the C interface, which is part of another module: only datagrams arrive
  while the main thread polls its message queue. The windows and the icon of the shell are kept as far as
  the code relies on them; which window handles are made and what is queued are arguments.
\<close>

subsection \<open>The notification icon\<close>

text \<open>The two functions that \<open>main\<close> hands to \<open>Create\<close>.\<close>

datatype callback = LaunchUi | StopService

record TrayIcon =
  ti_hwnd :: "nat option"
  ti_balloon :: bool
  ti_szTip :: string
  ti_szInfoTitle :: string
  ti_szInfo :: string
  ti_onDoubleClick :: "callback option"
  ti_onExit :: "callback option"

text \<open>
  The message windows with their \<open>GWLP_USERDATA\<close>, whether it points to the icon's object, and the window
  whose icon is displayed.
\<close>

record Shell =
  sh_windows :: "(nat \<times> bool) list"
  sh_icon :: "nat option"

definition TrayIcon_new :: TrayIcon where
  "TrayIcon_new = \<lparr>ti_hwnd = None, ti_balloon = False, ti_szTip = [], ti_szInfoTitle = [], ti_szInfo = [],
     ti_onDoubleClick = None, ti_onExit = None\<rparr>"

definition Shell_new :: Shell where
  "Shell_new = \<lparr>sh_windows = [], sh_icon = None\<rparr>"

text \<open>
  \<open>window\<close> is the handle that \<open>CreateWindowExW\<close> makes. The object is only its creation parameter, which
  \<open>WndProc\<close> does not store: the user data stays null. \<open>wcsncpy_s\<close> copies at most the given count.
\<close>

definition tray_Create ::
  "string \<Rightarrow> callback option \<Rightarrow> callback option \<Rightarrow> nat option \<Rightarrow> TrayIcon \<times> Shell \<Rightarrow> bool \<times> TrayIcon \<times> Shell" where
  "tray_Create tooltip onDoubleClick onExit window = (\<lambda>(t, sh).
     let t = t\<lparr>ti_onDoubleClick := onDoubleClick, ti_onExit := onExit, ti_hwnd := window\<rparr>
     in case window of
          None \<Rightarrow> (False, t, sh)
        | Some h \<Rightarrow>
            (True, t\<lparr>ti_balloon := False, ti_szTip := take 127 tooltip, ti_szInfoTitle := [], ti_szInfo := []\<rparr>,
             sh\<lparr>sh_windows := (h, False) # sh_windows sh, sh_icon := Some h\<rparr>))"

definition tray_ShowBalloon :: "string \<Rightarrow> string \<Rightarrow> TrayIcon \<Rightarrow> TrayIcon" where
  "tray_ShowBalloon title message t =
     (if ti_hwnd t = None then t
      else t\<lparr>ti_balloon := True, ti_szInfoTitle := take 63 title, ti_szInfo := take 255 message\<rparr>)"

definition tray_Destroy :: "TrayIcon \<times> Shell \<Rightarrow> TrayIcon \<times> Shell" where
  "tray_Destroy = (\<lambda>(t, sh).
     case ti_hwnd t of
       None \<Rightarrow> (t, sh)
     | Some h \<Rightarrow>
         (t\<lparr>ti_hwnd := None\<rparr>,
          sh\<lparr>sh_icon := (if sh_icon sh = Some h then None else sh_icon sh),
             sh_windows := List.filter (\<lambda>e. fst e \<noteq> h) (sh_windows sh)\<rparr>))"

definition WM_USER :: nat where "WM_USER = 1024"
definition WM_LBUTTONDBLCLK :: nat where "WM_LBUTTONDBLCLK = 515"

definition WM_CLOSE_tray :: nat where "WM_CLOSE_tray = 16"
definition WM_SYSCOMMAND_tray :: nat where "WM_SYSCOMMAND_tray = 274"
definition SC_CLOSE :: nat where "SC_CLOSE = 0xF060"

text \<open>
  \<open>DefWindowProcW\<close> destroys the window on \<open>WM_CLOSE\<close>, which it also sends itself on \<open>SC_CLOSE\<close> (the low four
  bits of the command are the system's). The shell keeps the icon of a window that is gone.
\<close>

definition tray_default :: "nat \<Rightarrow> nat \<Rightarrow> nat \<Rightarrow> Shell \<Rightarrow> Shell" where
  "tray_default h msg wParam sh =
     (if msg = WM_CLOSE_tray \<or> msg = WM_SYSCOMMAND_tray \<and> wParam div 16 = SC_CLOSE div 16
      then sh\<lparr>sh_windows := List.filter (\<lambda>e. fst e \<noteq> h) (sh_windows sh)\<rparr>
      else sh)"

text \<open>The callbacks that a message to the window \<open>h\<close> runs, and the windows after it.\<close>

definition tray_WndProc :: "nat \<Rightarrow> nat \<Rightarrow> nat \<Rightarrow> nat \<Rightarrow> TrayIcon \<times> Shell \<Rightarrow> callback list \<times> Shell" where
  "tray_WndProc h msg wParam lParam = (\<lambda>(t, sh).
     (if msg = WM_USER + 1 \<and> lParam = WM_LBUTTONDBLCLK \<and> map_of (sh_windows sh) h = Some True
      then (case ti_onDoubleClick t of Some f \<Rightarrow> [f] | None \<Rightarrow> [])
      else [],
      tray_default h msg wParam sh))"

text \<open>\<open>DispatchMessage\<close> drops a message whose window does not exist.\<close>

definition tray_dispatch :: "nat \<Rightarrow> nat \<Rightarrow> nat \<Rightarrow> nat \<Rightarrow> TrayIcon \<times> Shell \<Rightarrow> callback list \<times> Shell" where
  "tray_dispatch h msg wParam lParam ts =
     (if map_of (sh_windows (snd ts)) h = None then ([], snd ts) else tray_WndProc h msg wParam lParam ts)"

subsection \<open>The main thread\<close>

record process =
  pr_core :: core
  pr_tray :: TrayIcon
  pr_shell :: Shell
  pr_running :: bool
  pr_callbacks :: "callback list"

datatype queued = TrayMessage nat nat nat nat | WmQuit

record tick =
  tk_datagrams :: "(int \<times> u64 \<times> u32 \<times> bytes \<times> (VideoFrame \<Rightarrow> mf_call)) list"
  tk_signal :: bool
  tk_queue :: "queued list"

fun run_callback :: "callback \<Rightarrow> process \<Rightarrow> process" where
  "run_callback LaunchUi p = p\<lparr>pr_callbacks := pr_callbacks p @ [LaunchUi]\<rparr>"
| "run_callback StopService p = p\<lparr>pr_callbacks := pr_callbacks p @ [StopService], pr_running := False\<rparr>"

text \<open>The inner loop over \<open>PeekMessage\<close>: \<open>WM_QUIT\<close> leaves it, and the rest stays in the queue unread.\<close>

fun pump_queue :: "queued list \<Rightarrow> process \<Rightarrow> process" where
  "pump_queue [] p = p"
| "pump_queue (WmQuit # qs) p = p\<lparr>pr_running := False\<rparr>"
| "pump_queue (TrayMessage h msg wParam lParam # qs) p =
     (let (fs, sh) = tray_dispatch h msg wParam lParam (pr_tray p, pr_shell p)
      in pump_queue qs ((fold run_callback fs p)\<lparr>pr_shell := sh\<rparr>))"

text \<open>The worker thread of the media server between two turns of the loop.\<close>

fun receive_datagrams ::
  "('ctx, 'mpi, 'point) mbedtls \<Rightarrow> (int \<times> u64 \<times> u32 \<times> bytes \<times> (VideoFrame \<Rightarrow> mf_call)) list \<Rightarrow> core \<Rightarrow> core option" where
  "receive_datagrams P [] c = Some c"
| "receive_datagrams P ((now, us, src, d, calls) # ds) c = do {
     (_, _, c) \<leftarrow> core_datagram P now us src d calls c;
     receive_datagrams P ds c
   }"

definition SignalHandler :: "process \<Rightarrow> process" where
  "SignalHandler p = p\<lparr>pr_running := False\<rparr>"

text \<open>The outer loop; a signal is delivered before the condition is tested. The list ends while the loop sleeps.\<close>

fun main_loop :: "('ctx, 'mpi, 'point) mbedtls \<Rightarrow> tick list \<Rightarrow> process \<Rightarrow> process option" where
  "main_loop P [] p = Some p"
| "main_loop P (t # ts) p = do {
     c \<leftarrow> receive_datagrams P (tk_datagrams t) (pr_core p);
     let p = p\<lparr>pr_core := c\<rparr>;
     let p = (if tk_signal t then SignalHandler p else p);
     if pr_running p then main_loop P ts (pump_queue (tk_queue t) p) else Some p
   }"

text \<open>
  The result is \<open>None\<close> while the loop runs. After the explicit \<open>Shutdown\<close> the destructor of the service
  shuts it down once more (\<open>core_exit\<close>).
\<close>

definition service_main ::
  "('ctx, 'mpi, 'point) mbedtls \<Rightarrow> (string \<Rightarrow> u32 option) \<Rightarrow> d3d_setup \<Rightarrow> camera_setup \<Rightarrow> mf_setup \<Rightarrow> nat option \<Rightarrow> bool \<Rightarrow>
     nat option \<Rightarrow> tick list \<Rightarrow> (int option \<times> process) option" where
  "service_main P inet D V E fd binds window ticks = do {
     (r, c) \<leftarrow> veyra_core_init D V E fd binds core_new;
     if r \<noteq> 0 then do {
       _ \<leftarrow> core_exit P inet c;
       Some (Some 1, \<lparr>pr_core = c, pr_tray = TrayIcon_new, pr_shell = Shell_new, pr_running = True, pr_callbacks = []\<rparr>)
     } else do {
       let (_, t, sh) = tray_Create ''Veyra Camera Core Service'' (Some LaunchUi) (Some StopService) window (TrayIcon_new, Shell_new);
       p \<leftarrow> main_loop P ticks \<lparr>pr_core = c, pr_tray = t, pr_shell = sh, pr_running = True, pr_callbacks = []\<rparr>;
       if pr_running p then Some (None, p)
       else do {
         let (t, sh) = tray_Destroy (pr_tray p, pr_shell p);
         (_, c) \<leftarrow> veyra_core_shutdown P inet (pr_core p);
         _ \<leftarrow> core_exit P inet c;
         Some (Some 0, p\<lparr>pr_core := c, pr_tray := t, pr_shell := sh\<rparr>)
       }
     }
   }"

subsection \<open>USB forwarding\<close>

text \<open>The command lines that \<open>WinUsbManager\<close> gives to \<open>system\<close>, whose result is an argument.\<close>

definition adb_forward_command :: "string \<Rightarrow> u16 \<Rightarrow> u16 \<Rightarrow> string" where
  "adb_forward_command serialNumber localPort remotePort =
     ''adb -s '' @ serialNumber @ '' forward tcp:'' @ nat_text (unat localPort) @ '' tcp:'' @ nat_text (unat remotePort)"

definition SetupAdbPortForward :: "(string \<Rightarrow> int) \<Rightarrow> string \<Rightarrow> u16 \<Rightarrow> u16 \<Rightarrow> bool" where
  "SetupAdbPortForward system serialNumber localPort remotePort =
     (system (adb_forward_command serialNumber localPort remotePort) = 0)"

definition RemoveAdbPortForward :: "(string \<Rightarrow> int) \<Rightarrow> u16 \<Rightarrow> bool" where
  "RemoveAdbPortForward system localPort =
     (system (''adb forward --remove tcp:'' @ nat_text (unat localPort)) = 0)"

definition EnumerateConnectedDevices :: "string list" where
  "EnumerateConnectedDevices = []"

subsection \<open>The icon never calls back\<close>

text \<open>No window of the process has user data, and the icon belongs to the object's window.\<close>

definition shell_ok :: "TrayIcon \<times> Shell \<Rightarrow> bool" where
  "shell_ok = (\<lambda>(t, sh). (\<forall>e \<in> set (sh_windows sh). \<not> snd e \<and> ti_hwnd t = Some (fst e)) \<and>
     (sh_icon sh = None \<or> sh_icon sh = ti_hwnd t))"

lemma tray_silent:
  assumes "shell_ok (t, sh)"
  shows "fst (tray_dispatch h msg wParam lParam (t, sh)) = []"
    and "shell_ok (t, snd (tray_dispatch h msg wParam lParam (t, sh)))"
proof -
  have "(h, True) \<notin> set (sh_windows sh)" using assms by (auto simp: shell_ok_def)
  then have "map_of (sh_windows sh) h \<noteq> Some True" by (metis map_of_SomeD)
  then show "fst (tray_dispatch h msg wParam lParam (t, sh)) = []" by (simp add: tray_dispatch_def tray_WndProc_def)
  show "shell_ok (t, snd (tray_dispatch h msg wParam lParam (t, sh)))"
    using assms by (simp add: tray_dispatch_def tray_WndProc_def tray_default_def shell_ok_def)
qed

lemma tray_Create_ok: "shell_ok (snd (tray_Create tip f g window (TrayIcon_new, Shell_new)))"
  by (cases window) (simp_all add: tray_Create_def shell_ok_def TrayIcon_new_def Shell_new_def)

lemma tray_Destroy_empty: "shell_ok ts \<Longrightarrow> sh_windows (snd (tray_Destroy ts)) = [] \<and> sh_icon (snd (tray_Destroy ts)) = None"
proof (cases ts)
  case (Pair t sh)
  assume "shell_ok ts"
  then show ?thesis
    by (cases "ti_hwnd t"; cases "sh_windows sh") (auto simp: Pair shell_ok_def tray_Destroy_def filter_empty_conv)
qed

text \<open>A message can only change the windows.\<close>

definition only_windows :: "process \<Rightarrow> process \<Rightarrow> bool" where
  "only_windows p p' \<longleftrightarrow> pr_core p' = pr_core p \<and> pr_tray p' = pr_tray p \<and> pr_callbacks p' = pr_callbacks p \<and>
     shell_ok (pr_tray p, pr_shell p')"

lemma pump_queue_silent:
  "shell_ok (pr_tray p, pr_shell p) \<Longrightarrow>
     only_windows p (pump_queue qs p) \<and> (pr_running (pump_queue qs p) \<longleftrightarrow> pr_running p \<and> WmQuit \<notin> set qs)"
proof (induction qs arbitrary: p)
  case Nil
  then show ?case by (simp add: only_windows_def)
next
  case (Cons q qs)
  show ?case
  proof (cases q)
    case (TrayMessage h msg wParam lParam)
    let ?sh = "snd (tray_dispatch h msg wParam lParam (pr_tray p, pr_shell p))"
    note silent = tray_silent [OF Cons.prems, of h msg wParam lParam]
    have "pump_queue (q # qs) p = pump_queue qs (p\<lparr>pr_shell := ?sh\<rparr>)"
      using silent(1) by (simp add: TrayMessage split_beta)
    with Cons.IH [of "p\<lparr>pr_shell := ?sh\<rparr>"] silent(2) show ?thesis by (simp add: TrayMessage only_windows_def)
  next
    case WmQuit
    with Cons.prems show ?thesis by (simp add: only_windows_def)
  qed
qed

subsection \<open>The loop\<close>

text \<open>The stand-alone process never connects.\<close>

definition alone :: "core \<Rightarrow> bool" where
  "alone c \<longleftrightarrow> co_ok c \<and> co_tcp c = Some endpoint_new \<and> co_inbox c = []"

lemma core_datagram_tcp: "core_datagram P now us src d calls c = Some (es, up, c') \<Longrightarrow> co_tcp c' = co_tcp c \<and> co_inbox c' = co_inbox c"
  by (auto simp: core_datagram_def split: option.splits if_splits bind_splits)

lemma receive_datagrams_total:
  assumes "unseal_sized (Decrypt P)"
  shows "alone c \<Longrightarrow> \<exists>c'. receive_datagrams P ds c = Some c' \<and> alone c'"
proof (induction ds arbitrary: c)
  case (Cons x ds)
  obtain now us src d calls where x: "x = (now, us, src, d, calls)" by (cases x)
  obtain es up c1 where c1: "core_datagram P now us src d calls c = Some (es, up, c1)" "co_ok c1"
    using datagram_total [OF _ assms] Cons.prems unfolding alone_def by blast
  then have "alone c1" using core_datagram_tcp [OF c1(1)] Cons.prems by (simp add: alone_def)
  with Cons.IH c1(1) show ?case by (simp add: x)
qed simp

definition stops :: "tick \<Rightarrow> bool" where
  "stops t \<longleftrightarrow> tk_signal t \<or> WmQuit \<in> set (tk_queue t)"

lemma main_loop_outcome:
  assumes "unseal_sized (Decrypt P)"
  shows "alone (pr_core p) \<Longrightarrow> shell_ok (pr_tray p, pr_shell p) \<Longrightarrow>
    \<exists>p'. main_loop P ticks p = Some p' \<and> alone (pr_core p') \<and> shell_ok (pr_tray p', pr_shell p') \<and>
      pr_callbacks p' = pr_callbacks p \<and> (pr_running p' \<longleftrightarrow> pr_running p \<and> \<not> list_ex stops ticks)"
proof (induction ticks arbitrary: p)
  case Nil
  then show ?case by simp
next
  case (Cons t ts)
  obtain c where c: "receive_datagrams P (tk_datagrams t) (pr_core p) = Some c" "alone c"
    using receive_datagrams_total [OF assms Cons.prems(1)] by blast
  let ?p = "p\<lparr>pr_core := c\<rparr>"
  show ?case
  proof (cases "tk_signal t \<or> \<not> pr_running p")
    case True
    then show ?thesis using c Cons.prems(2)
      by (cases "tk_signal t") (simp_all add: SignalHandler_def stops_def Let_def)
  next
    case False
    let ?q = "pump_queue (tk_queue t) ?p"
    have q: "only_windows ?p ?q" "pr_running ?q \<longleftrightarrow> pr_running p \<and> WmQuit \<notin> set (tk_queue t)"
      using pump_queue_silent [of ?p "tk_queue t"] Cons.prems(2) by simp_all
    then have "alone (pr_core ?q)" "shell_ok (pr_tray ?q, pr_shell ?q)" "pr_callbacks ?q = pr_callbacks p"
      using c(2) by (simp_all add: only_windows_def)
    with Cons.IH [of ?q] show ?thesis using c False q(2) by (auto simp: stops_def)
  qed
qed

lemma started_alone:
  assumes "veyra_core_init D V E fd binds core_new = Some (r, c)"
  shows "r = 0" "alone c"
  using assms init_ok [OF core_new_ok assms]
  by (auto simp: veyra_core_init_def alone_def Initialize_def Let_def split: bind_splits prod.splits)

lemma alone_ends:
  assumes "alone c"
  shows "\<exists>es c'. veyra_core_shutdown P inet c = Some (es, c') \<and> co_udp c' = None \<and> co_outputs c' = outputs_new \<and>
    core_exit P inet c' = Some ()"
proof -
  have quiet: "tcp_Disconnect endpoint_new = endpoint_new" by (simp add: tcp_Disconnect_def endpoint_new_def)
  have ends: "destroy_tcp False (Some endpoint_new) = Some ()"
    by (simp add: destroy_tcp_def tcp_destroy_waiting_def tcp_Disconnect_returns quiet, simp add: endpoint_new_def destroy_thread_def)
  obtain es c1 where c1: "veyra_core_shutdown P inet c = Some (es, c1)" "co_ok c1" "co_udp c1 = None" "co_outputs c1 = outputs_new"
    "co_tcp c1 = map_option tcp_Disconnect (co_tcp c)"
    using shutdown_total assms unfolding alone_def by blast
  obtain fs c2 where c2: "veyra_core_shutdown P inet c1 = Some (fs, c2)" "co_tcp c2 = map_option tcp_Disconnect (co_tcp c1)"
    using shutdown_total [OF c1(2)] by blast
  have "core_exit P inet c1 = Some ()"
    using c1(5) c2 assms quiet ends by (simp add: core_exit_def alone_def)
  with c1 show ?thesis by blast
qed

subsection \<open>Unpaired media\<close>

text \<open>The first frame that any unarmed packetizer sends reaches the decoder of a service that was only initialized.\<close>

lemma unpaired_frame_decodes:
  assumes fits: "fits pk nal" and clear: "pkt_crypto pk = None" and fid: "fid \<noteq> 0"
  shows "\<exists>es s'. sv_run P inet (map (Datagram now us src) (frame_packets (Encrypt P) pk nal fid ts True)) (snd (Initialize s0)) =
      Some (es, s') \<and> decoded es = [\<lparr>vf_frameId = fid, vf_timestampUs = ts, vf_isKeyframe = True, vf_data = nal\<rparr>]"
proof -
  let ?r = "FrameReassembler_new True True :: SessionCrypto FrameReassembler"
  have ch: "channel_ok (session_live P) (pkt_crypto pk) (ra_crypto ?r)"
    by (simp add: channel_ok_def clear FrameReassembler_new_def)
  have inv: "ra_inv ?r" by (rule rx_reachable_inv [OF rx_reachable.intros(1)])
  have take: "can_take ?r (pkt_sessionId pk) fid (pkt_sequence pk) True"
    by (rule can_take_fresh) (simp_all add: FrameReassembler_new_def)
  have "jb_inv sv_jitter_config (JitterBuffer_new sv_jitter_config True)"
    by (rule jb_reachable_inv) (simp_all add: jb_reachable.created sv_jitter_config_def)
  then have ready: "media_ready src ?r (snd (Initialize s0))"
    by (simp add: media_ready_def Initialize_def sv_jitter_config_def)
  have "fst (receive_all (Decrypt P) ?r (frame_packets (Encrypt P) pk nal fid ts True)) =
      [FrameReady \<lparr>vf_frameId = fid, vf_timestampUs = ts, vf_isKeyframe = True, vf_data = nal\<rparr>]"
    by (rule live.frame_arrives_in_order [OF ch fits inv take fid])
  with datagrams_decode [OF ready] live.packets_sized [OF ch fits] show ?thesis by fastforce
qed

subsection \<open>Properties\<close>

text \<open>C5. The stand-alone process ends when it is told to, and only then: once its decoder accepts its media
  types, the process never hangs or crashes, whatever datagrams and messages arrive; it ends with code 0
  exactly when a signal or \<open>WM_QUIT\<close> came, with the media server and the outputs released and the icon
  gone; and neither the double click nor the exit callback of the icon ever runs.\<close>

theorem service_process_ends:
  assumes "chachapoly_sized P" and "hr_inputType E \<and> hr_outputType E"
  shows "\<exists>x p. service_main P inet D V E fd binds window ticks = Some (x, p) \<and> pr_callbacks p = [] \<and>
    (if list_ex stops ticks
     then x = Some 0 \<and> co_udp (pr_core p) = None \<and> co_outputs (pr_core p) = outputs_new \<and>
       sh_windows (pr_shell p) = [] \<and> sh_icon (pr_shell p) = None
     else x = None)"
proof -
  have P: "unseal_sized (Decrypt P)" using Decrypt_sized [OF assms(1)] .
  have "veyra_core_init D V E fd binds core_new \<noteq> None"
    using init_None [OF core_new_ok] assms(2) by (simp add: core_new_def connection_lost_def reader_waits_def)
  then obtain r c where c: "veyra_core_init D V E fd binds core_new = Some (r, c)" by auto
  note s = started_alone [OF c]
  obtain b t sh where t: "tray_Create ''Veyra Camera Core Service'' (Some LaunchUi) (Some StopService) window (TrayIcon_new, Shell_new) = (b, t, sh)"
    by (cases "tray_Create ''Veyra Camera Core Service'' (Some LaunchUi) (Some StopService) window (TrayIcon_new, Shell_new)") auto
  then have sh: "shell_ok (t, sh)" by (metis snd_conv tray_Create_ok)
  let ?p = "\<lparr>pr_core = c, pr_tray = t, pr_shell = sh, pr_running = True, pr_callbacks = []\<rparr>"
  obtain p where p: "main_loop P ticks ?p = Some p" "alone (pr_core p)" "shell_ok (pr_tray p, pr_shell p)" "pr_callbacks p = []"
    "pr_running p \<longleftrightarrow> \<not> list_ex stops ticks"
    using main_loop_outcome [OF P, of ?p ticks] s(2) sh by auto
  show ?thesis
  proof (cases "list_ex stops ticks")
    case False
    then show ?thesis using c s(1) t p by (simp add: service_main_def)
  next
    case True
    obtain es c' where c': "veyra_core_shutdown P inet (pr_core p) = Some (es, c')" "co_udp c' = None"
      "co_outputs c' = outputs_new" "core_exit P inet c' = Some ()"
      using alone_ends [OF p(2)] by blast
    show ?thesis using True c s(1) t p c' tray_Destroy_empty [OF p(3)]
      by (cases "tray_Destroy (pr_tray p, pr_shell p)") (simp add: service_main_def)
  qed
qed

theorem service_process_ends_witness:
  "\<exists>x p. service_main demo_lib demo_inet demo_d3d demo_camera demo_mf (Some 3) True (Some 17)
     [\<lparr>tk_datagrams = [], tk_signal = False, tk_queue = [TrayMessage 17 1025 0 515, TrayMessage 17 16 0 0]\<rparr>,
      \<lparr>tk_datagrams = [], tk_signal = False, tk_queue = [WmQuit, TrayMessage 17 1025 0 515]\<rparr>] = Some (x, p) \<and>
     x = Some 0 \<and> pr_callbacks p = [] \<and> sh_icon (pr_shell p) = None"
proof -
  have "hr_inputType demo_mf \<and> hr_outputType demo_mf" by code_simp
  from service_process_ends [OF demo_sized this, of demo_inet demo_d3d demo_camera "Some 3" True "Some 17"
     "[\<lparr>tk_datagrams = [], tk_signal = False, tk_queue = [TrayMessage 17 1025 0 515, TrayMessage 17 16 0 0]\<rparr>,
      \<lparr>tk_datagrams = [], tk_signal = False, tk_queue = [WmQuit, TrayMessage 17 1025 0 515]\<rparr>]"]
  show ?thesis by (auto simp: stops_def)
qed

text \<open>C6. Media without pairing: a service that has been initialized and has received no datagram yet decodes
  unencrypted video of a stranger. The first keyframe sent to it by a packetizer without a key, whatever the
  source address, the session id, the nonzero frame id and the start of the sequence numbers, as long as it
  fits 65535 fragments and its sequence numbers do not wrap, is given to the decoder unchanged when its
  packets arrive in order, and nothing else is.\<close>

theorem unpaired_service_shows_any_video:
  assumes "fits pk nal" and "pkt_crypto pk = None" and "fid \<noteq> 0"
  shows "\<exists>es s'. sv_run P inet (map (Datagram now us src) (frame_packets (Encrypt P) pk nal fid ts True)) (snd (Initialize s0)) =
      Some (es, s') \<and> decoded es = [\<lparr>vf_frameId = fid, vf_timestampUs = ts, vf_isKeyframe = True, vf_data = nal\<rparr>]"
  using assms by (rule unpaired_frame_decodes)

theorem unpaired_service_shows_any_video_witness:
  "\<exists>es s'. sv_run demo_lib demo_inet (map (Datagram 0 0 99) (frame_packets (Encrypt demo_lib)
       \<lparr>pkt_sessionId = 4, pkt_sequence = 70, pkt_crypto = None\<rparr> (replicate 3000 7) 12 50 True)) (snd (Initialize Service_new)) =
      Some (es, s') \<and> decoded es = [\<lparr>vf_frameId = 12, vf_timestampUs = 50, vf_isKeyframe = True, vf_data = replicate 3000 7\<rparr>]"
proof -
  have "fits \<lparr>pkt_sessionId = 4, pkt_sequence = 70, pkt_crypto = None\<rparr> (replicate 3000 7)"
    by (simp add: fits_def packet_count_def pieces_needed_def maxPlaintext_def wire_simps)
  then show ?thesis by (rule unpaired_service_shows_any_video) simp_all
qed

end
