(* ===== verification/Spec2Isabelle.thy ===== *)
theory Spec2Isabelle
  imports Sender Reassembly_Roundtrip Arming_Race Ring_Buffer Session Pairing Core_Service
    Core_Pairing Random_Source Handshake Runner_Program Service_Process
begin

text \<open>
  A model of the native core of VeyraCam, the C++ program that carries a phone's camera as an
  encrypted stream of UDP packets to a PC. The theories follow the components of the code.

  \<^bold>\<open>Parts.\<close> The sender turns encoded frames into packets (\<open>Packetizer\<close>), the receiver checks,
  opens and reassembles them (\<open>FrameReassembler\<close> with its \<open>ReplayFilter\<close>), both under the session
  keys that pairing derives (\<open>SessionCrypto\<close>). \<open>VeyraSession\<close> composes them with the transport
  manager, the jitter buffer and the telemetry. On the PC \<open>ServiceManager\<close> drives pairing over a
  line based control connection, opens the stream and hands its frames to the H.264 decoder, whose
  pictures go to a shared texture; a C interface drives it. On the phone \<open>NativeSenderContext\<close> holds the
  other end of the pairing and the packetizer; the Kotlin classes \<open>PairingManager\<close> and \<open>UdpTransport\<close>
  gate it with a PIN and serve the control connection. Two programs stand around this core on Windows:
  the service process of its own, with its tray icon, and the window of the Flutter application.

  \<^bold>\<open>Which theory models what.\<close>
  \<^item> \<open>Veyra_Prelude\<close>, \<open>Byte_Codec\<close>, \<open>Ordered_Map\<close>, \<open>Float_Model\<close>, \<open>Number_Text\<close>, \<open>Json_Text\<close>: shared
    types and lemmas; little endian images of words (locale \<open>fixed_codec\<close>); \<open>std::map\<close> as a sorted
    association list (locale \<open>keyed_store\<close>); IEEE arithmetic on rationals with rounding to nearest even;
    decimal texts, and the code that writes and searches JSON.
  \<^item> \<open>Json_Syntax\<close>: the reference that written texts are compared with: the grammar of JSON as an
    inductive relation, a reader, and the proof that the reader finds every reading of the grammar.
  \<^item> \<open>Wire\<close>, \<open>Control_Commands\<close>: \<open>protocol.h\<close> and \<open>protocol.cpp\<close>.
  \<^item> \<open>Replay\<close>: \<open>ReplayFilter::Accept\<close> (locale \<open>replay_guard\<close>).
  \<^item> \<open>Crypto\<close>: \<open>crypto.cpp\<close>; the mbedTLS calls are the fields of the parameter record \<open>mbedtls\<close>, the
    contract of sealing and opening is the locale \<open>sealed_channel\<close>. \<open>Random_Source\<close>: its generator of
    random bytes, with the CTR-DRBG as the parameter record \<open>drbg\<close>.
  \<^item> \<open>Packetizer\<close>, \<open>Sender\<close>: the sending half of \<open>packetizer.cpp\<close>, one call and whole histories.
  \<^item> \<open>Reassembler\<close>, \<open>Reassembly_Safety\<close>, \<open>Reassembly_Roundtrip\<close>, \<open>Arming\<close>, \<open>Arming_Race\<close>: the receiving half: the
    definitions; invariants, authenticity, order and bounds; end to end delivery over
    \<open>sealed_channel\<close>; what arming a key leaves behind; arming between the steps of a packet.
  \<^item> \<open>Ring_Buffer\<close>: \<open>ring_buffer.h\<close>, with a queue specification (locale \<open>dropping_queue\<close>) and the two
    threads as a step relation on atomic accesses; the memory pool.
  \<^item> \<open>Jitter_Buffer\<close>, \<open>Telemetry\<close>, \<open>Transport_Manager\<close>, \<open>Session\<close>: the files of these names.
    \<open>Telemetry_Report\<close> is the report as text, its copy into the buffer of the C interface, and that it is JSON: every figure in it
    is finite.
  \<^item> \<open>Frame_Size\<close>: the bound on a reassembled frame that the decoder relies on.
  \<^item> \<open>Control_Link\<close>, \<open>Service\<close>: the line protocol of \<open>tcp_control_server.cpp\<close>; \<open>service_manager.cpp\<close> with
    the worker loop of \<open>iocp_udp_server.cpp\<close>. \<open>Service_Messages\<close>: what its messages mean as JSON.
  \<^item> \<open>Mobile_Sender\<close>, \<open>Pairing\<close>: \<open>veyra_jni_bridge.cpp\<close>, and its composition with the service: an honest
    pairing ends in frames that the service decodes.
  \<^item> \<open>Phone_Pairing\<close>, \<open>Phone_Control\<close>: \<open>PairingManager.kt\<close>, the PIN, its lockout and the token; the control
    connection of \<open>UdpTransport.kt\<close> line by line, with the callbacks of \<open>VeyraStreamingService.kt\<close>.
    \<open>Phone_Camera\<close>: what its commands do to the control values of \<open>Camera2Controller.kt\<close> and to the codec;
    \<open>Decimal_Reading\<close>: how far a number is off that was written with six decimals and read back.
  \<^item> \<open>Handshake\<close>: phone and PC together: the whole dialog, from the connection to the first frame, and
    the camera commands up to their effect, each line written by the one side and read by the other.
  \<^item> \<open>Connections\<close>: sockets and threads of the control client, the Bluetooth client and the media
    server, where \<open>None\<close> is \<open>std::terminate\<close>, or a \<open>join\<close> that never returns because the joined thread
    waits for a lock of its caller.
  \<^item> \<open>Decoder\<close>, \<open>Media_Output\<close>: \<open>mf_decoder.cpp\<close> with its lock, where \<open>None\<close> is a call that never
    returns; \<open>d3d11_renderer.cpp\<close>, the virtual cameras, and how the service connects them.
  \<^item> \<open>Core_Service\<close>: the whole process behind \<open>veyra_ffi_export.cpp\<close>: one state of the service, its
    endpoints, its outputs and the lines that the reader thread has yet to handle, and one step per C call,
    received chunk, handled line, datagram and lost connection; and exactly when a call does not return.
    \<open>Core_Pairing\<close>: connecting again while the previous reader thread has a line left.
  \<^item> \<open>Service_Process\<close>: \<open>main.cpp\<close> and \<open>tray_icon.cpp\<close> of the service: the tray icon, the message loop,
    the signal handler and the program around \<open>Core_Service\<close>; and the \<open>adb\<close> commands of \<open>win_usb.cpp\<close>.
  \<^item> \<open>Native_Window\<close>, \<open>Window_Lifetime\<close>, \<open>Runner_Program\<close>: the runner of the Windows application,
    \<open>win32_window.cpp\<close>, \<open>flutter_window.cpp\<close>, \<open>main.cpp\<close> and \<open>utils.cpp\<close>: the definitions, with calls
    that only have an effect outside (console, COM, scaling) recorded in the order they are made; what one
    message does to the windows; the invariant of the window bookkeeping over whole histories, and how
    the program ends.

  \<^bold>\<open>State.\<close> A class is a record with the fields of the code, an operation a function from the state
  before to the results, the events (packets sent, callbacks, frames handed on) and the state after.
  \<open>None\<close> is undefined behaviour, an exception or a failed library call, as each definition says.
  Objects behind a \<open>shared_ptr\<close> whose sharing matters are addresses into a heap argument. Clocks,
  random bytes, the answers of sockets and transports are arguments.

  \<^bold>\<open>What is relied on.\<close> The hypotheses \<open>chachapoly_correct\<close>, \<open>chachapoly_total\<close>, \<open>chachapoly_sized\<close>,
  \<open>ecdh_agrees\<close>, \<open>hkdf_sized\<close> and \<open>base64_faithful\<close> state documented behaviour of mbedTLS; each
  witness discharges them for the library \<open>demo_lib\<close> or a variant of it. \<open>parses_json\<close>, \<open>writes_json\<close>
  and \<open>reads_numbers\<close> state documented behaviour of the JSON library of Android: it reads the texts of the
  grammar of \<open>Json_Syntax\<close>, writes strings that this grammar reads back, and converts numbers; they are discharged for \<open>demo_android\<close>.

  \<^bold>\<open>Atomicity.\<close> The code's mutexes make the calls of an object atomic, and the model has one step per
  call. The exceptions are the lock free ring, whose steps are the single atomic accesses, and the
  race of arming with \<open>PushPacket\<close>, which touches its key and replay filter outside its lock. In
  \<open>Core_Service\<close> a C call, the handling of one control line and that of one datagram are one step each, although
  \<open>HandlePairingChallenge\<close> releases \<open>mutex_\<close> between its parts and the calls take it only for a part: a line
  whose handling is under way when a call begins counts as not yet handled. Calls are made one at a time
  and not from inside a status callback.

  \<^bold>\<open>Bounds and fuel.\<close> A frame has at most 65535 fragments of at most 1166 bytes, which is below the
  32 bit counts of the decoder. Two definitions use fuel. A window procedure of the runner calls Windows,
  which calls the procedure again: \<open>run\<close> of \<open>Native_Window\<close> counts the nested calls, and \<open>kDepth\<close>, 9, is
  enough for the deepest chain, from \<open>WM_CLOSE\<close> through the destruction of a window and its child to
  \<open>WM_NCDESTROY\<close>: running out would be a fault of its own, and the theorems of \<open>Runner_Program\<close> show
  that it does not happen. The reader of JSON texts has the length of the text as fuel, and
  \<open>read_json_complete\<close> shows that every reading of the grammar is found.

  \<^bold>\<open>Not modelled.\<close> What the operating system does behind a socket, a transform or a texture: its results
  are arguments. The Flutter engine: its reactions to messages are arguments, and may depend on everything
  that happened before. \<open>WM_DESTROY\<close> and \<open>WM_NCDESTROY\<close> as queued messages: Windows sends them while it
  destroys a window. Calls of the native phone functions with a handle of a deleted session. Data races between the
  threads of the service other than those above are named as findings, not modelled. Of the Kotlin and
  Dart applications, which are other programs, only the pairing, the control connection and its commands are
  modelled: not their sockets and threads, nor starting and stopping the streaming, the camera and codec
  interfaces of Android, audio and the user interfaces. The tests are not modelled.
\<close>

end
